(* ===== verification/Prelude.thy ===== *)
theory Prelude
  imports Main "HOL-Library.Word" "HOL-Library.Multiset"
begin

text \<open>
  Shared vocabulary of the development: the machine integer types of the Rust
  sources, results with early return, the first-index search behind
  \<^verbatim>\<open>iter().position(..)\<close>, iteration over hash containers in an unspecified order,
  and the step-invariant interface that every stateful component is an instance of.
\<close>

section \<open>Machine integers and results\<close>

type_synonym u8 = "8 word"
type_synonym u16 = "16 word"
type_synonym u32 = "32 word"
type_synonym u64 = "64 word"

text \<open>
  \<^verbatim>\<open>Result<T, E>\<close> is the sum \<open>'e + 'a\<close> with the error on the left;
  \<open>rbind\<close> is the question mark operator: the first error ends the computation.
\<close>

definition rbind :: "'e + 'a \<Rightarrow> ('a \<Rightarrow> 'e + 'b) \<Rightarrow> 'e + 'b" where
  "rbind r f = (case r of Inl e \<Rightarrow> Inl e | Inr a \<Rightarrow> f a)"

definition ok_or :: "'e \<Rightarrow> 'a option \<Rightarrow> 'e + 'a" where
  "ok_or e x = (case x of None \<Rightarrow> Inl e | Some a \<Rightarrow> Inr a)"

named_theorems result_simps \<open>evaluation of results and early returns\<close>

lemma rbind_simps [simp, result_simps]:
  "rbind (Inl e) f = Inl e"
  "rbind (Inr a) f = f a"
  by (simp_all add: rbind_def)

lemma rbind_eq_Inr [result_simps]:
  "rbind r f = Inr b \<longleftrightarrow> (\<exists>a. r = Inr a \<and> f a = Inr b)"
  by (cases r) (simp_all add: rbind_def)

lemma rbind_eq_Inl [result_simps]:
  "rbind r f = Inl e \<longleftrightarrow> r = Inl e \<or> (\<exists>a. r = Inr a \<and> f a = Inl e)"
  by (cases r) (simp_all add: rbind_def)

lemma rbind_assoc: "rbind (rbind r f) g = rbind r (\<lambda>x. rbind (f x) g)"
  by (cases r) simp_all

lemma ok_or_simps [simp, result_simps]:
  "ok_or e None = Inl e"
  "ok_or e (Some a) = Inr a"
  by (simp_all add: ok_or_def)

text \<open>
  A call that may also panic (an arithmetic underflow, an index out of range, a
  \<^verbatim>\<open>todo!()\<close>) or never return has one of three outcomes.
\<close>

datatype 'a run = Done 'a | Panicked | Diverged

section \<open>First position of an element\<close>

text \<open>\<^verbatim>\<open>xs.iter().position(p)\<close>: the index of the first element that satisfies \<open>p\<close>.\<close>

fun position :: "('a \<Rightarrow> bool) \<Rightarrow> 'a list \<Rightarrow> nat option" where
  "position p [] = None"
| "position p (x # xs) = (if p x then Some 0 else map_option Suc (position p xs))"

lemma position_None_iff: "position p xs = None \<longleftrightarrow> (\<forall>x \<in> set xs. \<not> p x)"
  by (induction xs) auto

lemma position_Some_iff:
  "position p xs = Some i \<longleftrightarrow> i < length xs \<and> p (xs ! i) \<and> (\<forall>x \<in> set (take i xs). \<not> p x)"
proof (induction xs arbitrary: i)
  case Nil
  then show ?case by simp
next
  case (Cons x xs)
  then show ?case by (cases i) auto
qed

lemma position_less: "position p xs = Some i \<Longrightarrow> i < length xs"
  by (simp add: position_Some_iff)

lemma position_split:
  assumes "position p xs = Some i"
  shows "xs = take i xs @ xs ! i # drop (Suc i) xs"
  using assms by (simp add: position_Some_iff id_take_nth_drop)

lemma position_append_cons:
  "\<forall>x \<in> set us. \<not> p x \<Longrightarrow> p v \<Longrightarrow> position p (us @ v # ws) = Some (length us)"
  by (induction us) auto

section \<open>Iteration over hash containers\<close>

text \<open>
  The order in which a \<^verbatim>\<open>HashSet\<close> or a \<^verbatim>\<open>HashMap\<close> is iterated is unspecified, and so is
  the order in which parallel iterators deliver. An operation that iterates takes the order as
  an argument, a function from the elements to a list of them; what holds of the code holds
  for every such function that lists each element once.
\<close>

type_synonym 'a iter_order = "'a set \<Rightarrow> 'a list"

definition enumerates :: "'a iter_order \<Rightarrow> bool" where
  "enumerates ord \<longleftrightarrow> (\<forall>A. finite A \<longrightarrow> set (ord A) = A \<and> distinct (ord A))"

lemma enumerates_set: "enumerates ord \<Longrightarrow> finite A \<Longrightarrow> set (ord A) = A"
  by (simp add: enumerates_def)

lemma enumerates_distinct: "enumerates ord \<Longrightarrow> finite A \<Longrightarrow> distinct (ord A)"
  by (simp add: enumerates_def)

lemma enumerates_sorted: "enumerates (sorted_list_of_set :: 'a::linorder iter_order)"
  by (simp add: enumerates_def)

section \<open>Step invariants\<close>

text \<open>
  A component with state is a step function on events. A predicate kept by every step holds
  after every sequence of steps; the client lemmas below are shared by all components.
\<close>

locale step_invariant =
  fixes step :: "'s \<Rightarrow> 'e \<Rightarrow> 's"
    and inv :: "'s \<Rightarrow> bool"
  assumes step_keeps: "inv s \<Longrightarrow> inv (step s e)"
begin

lemma run_keeps: "inv s \<Longrightarrow> inv (foldl step s es)"
  by (induction es arbitrary: s) (simp_all add: step_keeps)

lemma prefix_keeps: "inv s \<Longrightarrow> inv (foldl step s (take n es))"
  by (rule run_keeps)

end

end
