(* ===== verification/Set_Map.thy ===== *)
theory Set_Map
  imports Prelude
begin

text \<open>
  The multi-maps of \<^verbatim>\<open>protocol/src/util.rs\<close>: \<open>SetMap\<close> maps a key to a non-empty
  set of values, \<open>DoubleSetMap\<close> keeps such a map in both directions. A
  \<^verbatim>\<open>HashMap<K, HashSet<V>>\<close> is a partial function to sets. The interface \<open>multi_map\<close>
  states what the components that use a \<open>SetMap\<close> rely on.
\<close>

section \<open>SetMap\<close>

type_synonym ('k, 'v) set_map = "'k \<rightharpoonup> 'v set"

definition sm_default :: "('k, 'v) set_map" where
  "sm_default = Map.empty"

text \<open>\<^verbatim>\<open>self.0.entry(k).or_default().insert(v)\<close>\<close>

definition sm_insert :: "'k \<Rightarrow> 'v \<Rightarrow> ('k, 'v) set_map \<Rightarrow> ('k, 'v) set_map" where
  "sm_insert k v m = m(k \<mapsto> insert v (case m k of None \<Rightarrow> {} | Some s \<Rightarrow> s))"

text \<open>Removes the value, and the whole entry once its set is empty.\<close>

definition sm_remove :: "'k \<Rightarrow> 'v \<Rightarrow> ('k, 'v) set_map \<Rightarrow> ('k, 'v) set_map" where
  "sm_remove k v m =
     (case m k of
        None \<Rightarrow> m
      | Some s \<Rightarrow> let s' = s - {v} in if s' = {} then m(k := None) else m(k \<mapsto> s'))"

definition sm_get :: "('k, 'v) set_map \<Rightarrow> 'k \<Rightarrow> 'v set option" where
  "sm_get m k = m k"

definition sm_clear :: "('k, 'v) set_map \<Rightarrow> ('k, 'v) set_map" where
  "sm_clear m = Map.empty"

text \<open>
  \<^verbatim>\<open>drain\<close> hands out every entry and leaves the map empty; the entries come in an
  unspecified order of the keys.
\<close>

definition sm_drain ::
  "'k iter_order \<Rightarrow> ('k, 'v) set_map \<Rightarrow> ('k \<times> 'v set) list \<times> ('k, 'v) set_map" where
  "sm_drain ord m = (map (\<lambda>k. (k, the (m k))) (ord (dom m)), Map.empty)"

text \<open>\<^verbatim>\<open>HashMap::from_iter\<close>: a later entry replaces an earlier one with the same key.\<close>

definition sm_from_iter :: "('k \<times> 'v set) list \<Rightarrow> ('k, 'v) set_map" where
  "sm_from_iter es = foldl (\<lambda>m e. m(fst e \<mapsto> snd e)) Map.empty es"

section \<open>DoubleSetMap\<close>

record ('k, 'v) double_set_map =
  by_key :: "('k, 'v) set_map"
  by_value :: "('v, 'k) set_map"

definition dsm_default :: "('k, 'v) double_set_map" where
  "dsm_default = \<lparr>by_key = sm_default, by_value = sm_default\<rparr>"

definition dsm_insert ::
  "'k \<Rightarrow> 'v \<Rightarrow> ('k, 'v) double_set_map \<Rightarrow> ('k, 'v) double_set_map" where
  "dsm_insert k v d =
     d\<lparr>by_key := sm_insert k v (by_key d), by_value := sm_insert v k (by_value d)\<rparr>"

definition get_by_key :: "('k, 'v) double_set_map \<Rightarrow> 'k \<Rightarrow> 'v set option" where
  "get_by_key d k = sm_get (by_key d) k"

definition get_by_value :: "('k, 'v) double_set_map \<Rightarrow> 'v \<Rightarrow> 'k set option" where
  "get_by_value d v = sm_get (by_value d) v"

definition remove_by_key ::
  "'v iter_order \<Rightarrow> 'k \<Rightarrow> ('k, 'v) double_set_map \<Rightarrow> ('k, 'v) double_set_map" where
  "remove_by_key ord k d =
     (case by_key d k of
        None \<Rightarrow> d
      | Some s \<Rightarrow>
          d\<lparr>by_key := (by_key d)(k := None),
            by_value := foldl (\<lambda>m v. sm_remove v k m) (by_value d) (ord s)\<rparr>)"

definition remove_by_value ::
  "'k iter_order \<Rightarrow> 'v \<Rightarrow> ('k, 'v) double_set_map \<Rightarrow> ('k, 'v) double_set_map" where
  "remove_by_value ord v d =
     (case by_value d v of
        None \<Rightarrow> d
      | Some s \<Rightarrow>
          d\<lparr>by_value := (by_value d)(v := None),
            by_key := foldl (\<lambda>m k. sm_remove k v m) (by_key d) (ord s)\<rparr>)"

text \<open>
  Works on the set inside \<open>by_key\<close> directly (\<^verbatim>\<open>self.by_key.0.get_mut\<close>), so an emptied set
  stays in \<open>by_key\<close>, unlike in \<open>sm_remove\<close>.
\<close>

definition remove_by_key_value ::
  "'k \<Rightarrow> 'v \<Rightarrow> ('k, 'v) double_set_map \<Rightarrow> ('k, 'v) double_set_map" where
  "remove_by_key_value k v d =
     (case by_key d k of
        None \<Rightarrow> d
      | Some s \<Rightarrow>
          if v \<in> s
          then d\<lparr>by_key := (by_key d)(k \<mapsto> s - {v}),
                 by_value := sm_remove v k (by_value d)\<rparr>
          else d)"

section \<open>What a SetMap promises\<close>

text \<open>The relation a multi-map holds: its key-value pairs.\<close>

definition sm_rel :: "('k, 'v) set_map \<Rightarrow> ('k \<times> 'v) set" where
  "sm_rel m = {(k, v). \<exists>s. m k = Some s \<and> v \<in> s}"

text \<open>No key is kept with an empty set, and every set is finite.\<close>

definition sm_wf :: "('k, 'v) set_map \<Rightarrow> bool" where
  "sm_wf m \<longleftrightarrow> finite (dom m) \<and> (\<forall>k s. m k = Some s \<longrightarrow> finite s \<and> s \<noteq> {})"

text \<open>
  The contract: the abstraction of every operation is the operation on relations, and in a
  well-formed map a key is present exactly when it has a value.
\<close>

locale multi_map =
  fixes empty :: "'m"
    and ins :: "'k \<Rightarrow> 'v \<Rightarrow> 'm \<Rightarrow> 'm"
    and del :: "'k \<Rightarrow> 'v \<Rightarrow> 'm \<Rightarrow> 'm"
    and get :: "'m \<Rightarrow> 'k \<Rightarrow> 'v set option"
    and rel :: "'m \<Rightarrow> ('k \<times> 'v) set"
    and wf :: "'m \<Rightarrow> bool"
  assumes rel_empty: "rel empty = {}"
    and rel_ins: "rel (ins k v m) = insert (k, v) (rel m)"
    and rel_del: "rel (del k v m) = rel m - {(k, v)}"
    and get_rel: "wf m \<Longrightarrow> get m k = (if k \<in> Domain (rel m) then Some (rel m `` {k}) else None)"
    and wf_empty: "wf empty"
    and wf_ins: "wf m \<Longrightarrow> wf (ins k v m)"
    and wf_del: "wf m \<Longrightarrow> wf (del k v m)"
begin

lemma get_ins_same: "wf m \<Longrightarrow> get (ins k v m) k = Some (insert v (rel m `` {k}))"
  by (auto simp: get_rel wf_ins rel_ins)

lemma get_ins_other: "wf m \<Longrightarrow> k' \<noteq> k \<Longrightarrow> get (ins k v m) k' = get m k'"
  by (auto simp: get_rel wf_ins rel_ins)

lemma get_del_other: "wf m \<Longrightarrow> k' \<noteq> k \<Longrightarrow> get (del k v m) k' = get m k'"
  by (auto simp: get_rel wf_del rel_del Domain_iff Image_def)

lemma get_del_last:
  "wf m \<Longrightarrow> rel m `` {k} \<subseteq> {v} \<Longrightarrow> get (del k v m) k = None"
  by (auto simp: get_rel wf_del rel_del Domain_iff)

lemma get_Some_iff: "wf m \<Longrightarrow> (\<exists>s. get m k = Some s \<and> v \<in> s) \<longleftrightarrow> (k, v) \<in> rel m"
  by (auto simp: get_rel)

lemma get_nonempty: "wf m \<Longrightarrow> get m k = Some s \<Longrightarrow> s \<noteq> {}"
  by (auto simp: get_rel split: if_splits)

lemma rel_del_all: "rel (foldl (\<lambda>m x. del x v m) m xs) = rel m - (set xs \<times> {v})"
  by (induction xs arbitrary: m) (auto simp: rel_del)

lemma wf_del_all: "wf m \<Longrightarrow> wf (foldl (\<lambda>m x. del x v m) m xs)"
  by (induction xs arbitrary: m) (auto simp: wf_del)

end

lemma sm_wfD: "sm_wf m \<Longrightarrow> m k = Some s \<Longrightarrow> finite s" "sm_wf m \<Longrightarrow> m k = Some s \<Longrightarrow> s \<noteq> {}"
  by (auto simp: sm_wf_def)

lemma sm_rel_iff: "(k, v) \<in> sm_rel m \<longleftrightarrow> (\<exists>s. m k = Some s \<and> v \<in> s)"
  by (simp add: sm_rel_def)

lemma sm_rel_fun_upd_None: "sm_rel (m(k := None)) = sm_rel m - ({k} \<times> UNIV)"
  by (auto simp: sm_rel_def split: if_splits)

lemma sm_rel_fun_upd_Some: "sm_rel (m(k \<mapsto> s)) = sm_rel m - ({k} \<times> UNIV) \<union> ({k} \<times> s)"
  by (auto simp: sm_rel_def split: if_splits)

lemma sm_rel_remove: "sm_rel (sm_remove k v m) = sm_rel m - {(k, v)}"
  by (auto simp: sm_remove_def Let_def sm_rel_fun_upd_None sm_rel_fun_upd_Some sm_rel_iff
      split: option.splits)

lemma sm_rel_insert: "sm_rel (sm_insert k v m) = insert (k, v) (sm_rel m)"
  by (auto simp: sm_insert_def sm_rel_fun_upd_Some sm_rel_iff split: option.splits)

lemma sm_get_rel:
  "sm_wf m \<Longrightarrow> sm_get m k = (if k \<in> Domain (sm_rel m) then Some (sm_rel m `` {k}) else None)"
  by (cases "m k") (auto simp: sm_get_def sm_rel_iff Domain_iff Image_def dest: sm_wfD)

interpretation sm: multi_map sm_default sm_insert sm_remove sm_get sm_rel sm_wf
proof unfold_locales
  show "sm_rel sm_default = {}"
    by (simp add: sm_rel_def sm_default_def)
  show "sm_wf sm_default"
    by (simp add: sm_wf_def sm_default_def)
  show "sm_wf m \<Longrightarrow> sm_wf (sm_insert k v m)" for k v m
    by (auto simp: sm_wf_def sm_insert_def split: option.splits if_splits)
  show "sm_wf m \<Longrightarrow> sm_wf (sm_remove k v m)" for k v m
    by (auto simp: sm_wf_def sm_remove_def Let_def dom_def split: option.splits if_splits
        intro: rev_finite_subset)
qed (simp_all add: sm_rel_insert sm_rel_remove sm_get_rel)

lemma sm_drain_covers:
  assumes "enumerates ord" "sm_wf m"
  shows "set (fst (sm_drain ord m)) = {(k, s). m k = Some s}"
proof -
  have "set (ord (dom m)) = dom m"
    using assms by (simp add: sm_wf_def enumerates_set)
  then show ?thesis by (auto simp: sm_drain_def image_iff dom_def)
qed

lemma sm_from_iter_snoc: "sm_from_iter (es @ [e]) = (sm_from_iter es)(fst e \<mapsto> snd e)"
  by (simp add: sm_from_iter_def)

lemma sm_from_iter_other: "k \<notin> fst ` set es \<Longrightarrow> sm_from_iter es k = None"
  by (induction es rule: rev_induct) (auto simp: sm_from_iter_snoc sm_from_iter_def)

lemma sm_from_iter_map_of:
  "distinct (map fst es) \<Longrightarrow> sm_from_iter es = map_of es"
proof (induction es rule: rev_induct)
  case Nil
  then show ?case by (simp add: sm_from_iter_def)
next
  case (snoc e es)
  have "fst e \<notin> dom (map_of es)"
    using snoc.prems by (auto simp: dom_map_of_conv_image_fst)
  with snoc show ?case
    by (cases e) (auto simp: sm_from_iter_snoc fun_eq_iff map_add_def map_of_eq_None_iff
        split: option.splits)
qed

text \<open>Draining a map and collecting the drained entries rebuilds it.\<close>

lemma sm_drain_from_iter:
  assumes "enumerates ord" "sm_wf m"
  shows "sm_from_iter (fst (sm_drain ord m)) = m"
proof -
  have d: "distinct (ord (dom m))" "set (ord (dom m)) = dom m"
    using assms by (auto simp: sm_wf_def enumerates_set enumerates_distinct)
  have "map_of (map (\<lambda>k. (k, the (m k))) (ord (dom m))) = m"
  proof
    fix k
    show "map_of (map (\<lambda>k. (k, the (m k))) (ord (dom m))) k = m k"
      using d by (cases "k \<in> dom m")
        (auto simp: map_of_map_restrict restrict_map_def)
  qed
  then show ?thesis
    using d by (simp add: sm_drain_def sm_from_iter_map_of comp_def)
qed

section \<open>What a DoubleSetMap promises\<close>

text \<open>
  The two directions hold the same pairs, and all sets are finite. The value direction drops
  emptied keys; the key direction need not (\<open>remove_by_key_value\<close>).
\<close>

definition sm_fin :: "('k, 'v) set_map \<Rightarrow> bool" where
  "sm_fin m \<longleftrightarrow> finite (dom m) \<and> (\<forall>k s. m k = Some s \<longrightarrow> finite s)"

definition dsm_ok :: "('k, 'v) double_set_map \<Rightarrow> bool" where
  "dsm_ok d \<longleftrightarrow>
     sm_fin (by_key d) \<and> sm_wf (by_value d) \<and> sm_rel (by_value d) = (sm_rel (by_key d))\<inverse>"

lemma sm_fin_insert: "sm_fin m \<Longrightarrow> sm_fin (sm_insert k v m)"
  by (auto simp: sm_fin_def sm_insert_def split: option.splits if_splits)

lemma sm_fin_remove: "sm_fin m \<Longrightarrow> sm_fin (sm_remove k v m)"
  by (auto simp: sm_fin_def sm_remove_def Let_def dom_def split: option.splits if_splits
      intro: rev_finite_subset)

lemma sm_fin_remove_all: "sm_fin m \<Longrightarrow> sm_fin (foldl (\<lambda>m k. sm_remove k v m) m ks)"
  by (induction ks arbitrary: m) (auto simp: sm_fin_remove)

lemma sm_fin_del: "sm_fin m \<Longrightarrow> sm_fin (m(k := None))"
  by (auto simp: sm_fin_def dom_def split: if_splits intro: rev_finite_subset)

lemma sm_wf_del: "sm_wf m \<Longrightarrow> sm_wf (m(k := None))"
  by (auto simp: sm_wf_def dom_def split: if_splits intro: rev_finite_subset)

lemma dsm_ok_default: "dsm_ok dsm_default"
  by (simp add: dsm_ok_def dsm_default_def sm_fin_def sm_wf_def sm_default_def sm_rel_def)

lemma dsm_ok_insert: "dsm_ok d \<Longrightarrow> dsm_ok (dsm_insert k v d)"
  by (auto simp: dsm_ok_def dsm_insert_def sm_fin_insert sm.wf_ins sm_rel_insert)

lemma dsm_default_rel [simp]: "sm_rel (by_key dsm_default) = {}"
  by (simp add: dsm_default_def sm.rel_empty)

lemma sm_rel_by_key_remove:
  assumes "by_key d k = Some s"
  shows "sm_rel ((by_key d)(k \<mapsto> s - {v})) = sm_rel (by_key d) - {(k, v)}"
  using assms by (auto simp: sm_rel_fun_upd_Some sm_rel_iff)

lemma dsm_ok_remove_by_key_value: "dsm_ok d \<Longrightarrow> dsm_ok (remove_by_key_value k v d)"
  by (auto simp: dsm_ok_def remove_by_key_value_def sm.wf_del sm_rel_remove sm_rel_by_key_remove
      sm_fin_def split: option.splits if_splits)

lemma dsm_rel_remove_by_key:
  assumes "enumerates ord" "dsm_ok d"
  shows "sm_rel (by_key (remove_by_key ord k d)) = sm_rel (by_key d) - ({k} \<times> UNIV)"
    and "sm_rel (by_value (remove_by_key ord k d)) = sm_rel (by_value d) - (UNIV \<times> {k})"
proof -
  have fin: "finite s" if "by_key d k = Some s" for s
    using assms that by (auto simp: dsm_ok_def sm_fin_def)
  show "sm_rel (by_key (remove_by_key ord k d)) = sm_rel (by_key d) - ({k} \<times> UNIV)"
    by (auto simp: remove_by_key_def sm_rel_fun_upd_None sm_rel_iff split: option.splits)
  show "sm_rel (by_value (remove_by_key ord k d)) = sm_rel (by_value d) - (UNIV \<times> {k})"
    using assms
    by (auto simp: remove_by_key_def sm.rel_del_all enumerates_set fin dsm_ok_def sm_rel_iff
        split: option.splits)
qed

lemma dsm_rel_remove_by_value:
  assumes "enumerates ord" "dsm_ok d"
  shows "sm_rel (by_value (remove_by_value ord v d)) = sm_rel (by_value d) - ({v} \<times> UNIV)"
    and "sm_rel (by_key (remove_by_value ord v d)) = sm_rel (by_key d) - (UNIV \<times> {v})"
proof -
  have fin: "finite s" if "by_value d v = Some s" for s
    using assms that by (auto simp: dsm_ok_def sm_wf_def)
  have inv: "(k, v) \<in> sm_rel (by_key d) \<longleftrightarrow> (\<exists>s. by_value d v = Some s \<and> k \<in> s)" for k
    using assms(2) by (auto simp: dsm_ok_def set_eq_iff sm_rel_iff)
  show "sm_rel (by_value (remove_by_value ord v d)) = sm_rel (by_value d) - ({v} \<times> UNIV)"
    by (auto simp: remove_by_value_def sm_rel_fun_upd_None sm_rel_iff split: option.splits)
  show "sm_rel (by_key (remove_by_value ord v d)) = sm_rel (by_key d) - (UNIV \<times> {v})"
    using assms(1)
    by (auto simp: remove_by_value_def sm.rel_del_all enumerates_set fin inv split: option.splits)
qed

lemma dsm_ok_remove_by_key:
  assumes "enumerates ord" "dsm_ok d"
  shows "dsm_ok (remove_by_key ord k d)"
proof -
  have "sm_rel (by_value (remove_by_key ord k d)) = (sm_rel (by_key (remove_by_key ord k d)))\<inverse>"
    using assms by (auto simp: dsm_rel_remove_by_key dsm_ok_def)
  with assms(2) show ?thesis
    by (auto simp: dsm_ok_def remove_by_key_def sm_fin_del sm.wf_del_all split: option.splits)
qed

lemma dsm_ok_remove_by_value:
  assumes "enumerates ord" "dsm_ok d"
  shows "dsm_ok (remove_by_value ord v d)"
proof -
  have "sm_rel (by_value (remove_by_value ord v d)) = (sm_rel (by_key (remove_by_value ord v d)))\<inverse>"
    using assms by (auto simp: dsm_rel_remove_by_value dsm_ok_def)
  with assms(2) show ?thesis
    by (auto simp: dsm_ok_def remove_by_value_def sm_wf_del sm_fin_remove_all split: option.splits)
qed

text \<open>The calls a user of a \<open>DoubleSetMap\<close> makes, as events.\<close>

datatype ('k, 'v) dsm_event =
    DInsert 'k 'v
  | DRemoveByKey 'k
  | DRemoveByValue 'v
  | DRemoveByKeyValue 'k 'v

fun dsm_step ::
  "'k iter_order \<Rightarrow> 'v iter_order \<Rightarrow> ('k, 'v) double_set_map \<Rightarrow> ('k, 'v) dsm_event \<Rightarrow>
     ('k, 'v) double_set_map" where
  "dsm_step ok ov d (DInsert k v) = dsm_insert k v d"
| "dsm_step ok ov d (DRemoveByKey k) = remove_by_key ov k d"
| "dsm_step ok ov d (DRemoveByValue v) = remove_by_value ok v d"
| "dsm_step ok ov d (DRemoveByKeyValue k v) = remove_by_key_value k v d"

text \<open>The same calls on the relation the map stands for.\<close>

fun dsm_spec :: "('k \<times> 'v) set \<Rightarrow> ('k, 'v) dsm_event \<Rightarrow> ('k \<times> 'v) set" where
  "dsm_spec r (DInsert k v) = insert (k, v) r"
| "dsm_spec r (DRemoveByKey k) = r - ({k} \<times> UNIV)"
| "dsm_spec r (DRemoveByValue v) = r - (UNIV \<times> {v})"
| "dsm_spec r (DRemoveByKeyValue k v) = r - {(k, v)}"

lemma dsm_step_ok:
  "enumerates ok \<Longrightarrow> enumerates ov \<Longrightarrow> dsm_ok d \<Longrightarrow> dsm_ok (dsm_step ok ov d e)"
  by (cases e)
    (simp_all add: dsm_ok_insert dsm_ok_remove_by_key dsm_ok_remove_by_value
      dsm_ok_remove_by_key_value)

lemma dsm_step_refines:
  assumes "enumerates ok" "enumerates ov" "dsm_ok d"
  shows "sm_rel (by_key (dsm_step ok ov d e)) = dsm_spec (sm_rel (by_key d)) e"
proof (cases e)
  case (DRemoveByKeyValue k v)
  then show ?thesis
    by (auto simp: remove_by_key_value_def sm_rel_by_key_remove sm_rel_iff
        split: option.splits)
qed (use assms in \<open>simp_all add: dsm_insert_def sm_rel_insert dsm_rel_remove_by_key
      dsm_rel_remove_by_value\<close>)

interpretation dsm: step_invariant
  "dsm_step (sorted_list_of_set :: 'k::linorder iter_order)
     (sorted_list_of_set :: 'v::linorder iter_order)" dsm_ok
  by unfold_locales (simp add: dsm_step_ok enumerates_sorted)

lemma dsm_run:
  assumes "enumerates ok" "enumerates ov" "dsm_ok d"
  shows "dsm_ok (foldl (dsm_step ok ov) d es) \<and>
         sm_rel (by_key (foldl (dsm_step ok ov) d es)) = foldl dsm_spec (sm_rel (by_key d)) es"
  using assms(3)
  by (induction es arbitrary: d) (simp_all add: assms(1,2) dsm_step_ok dsm_step_refines)

text \<open>
  C8: after any sequence of calls on a fresh \<open>DoubleSetMap\<close>, whatever the iteration orders,
  the two lookup directions agree with each other and with the relation the calls describe:
  looking a key up gives exactly the values related to it and looking a value up exactly its
  keys.
\<close>

theorem double_set_map_refines:
  assumes "enumerates ok" "enumerates ov"
  shows "let d = foldl (dsm_step ok ov) dsm_default es; r = foldl dsm_spec {} es
         in (\<forall>k v. (\<exists>s. get_by_key d k = Some s \<and> v \<in> s) = ((k, v) \<in> r)) \<and>
            (\<forall>v. get_by_value d v = (if v \<in> Range r then Some (r\<inverse> `` {v}) else None))"
proof -
  define d where "d = foldl (dsm_step ok ov) dsm_default es"
  define r where "r = foldl dsm_spec {} es"
  have ok: "dsm_ok d" and r: "sm_rel (by_key d) = r"
    using dsm_run [OF assms dsm_ok_default, of es] by (simp_all add: d_def r_def)
  have "(\<exists>s. get_by_key d k = Some s \<and> v \<in> s) = ((k, v) \<in> r)" for k v
    by (simp add: get_by_key_def sm_get_def flip: r sm_rel_iff)
  moreover have "get_by_value d v = (if v \<in> Range r then Some (r\<inverse> `` {v}) else None)" for v
    using ok r by (simp add: get_by_value_def sm_get_rel dsm_ok_def)
  ultimately show ?thesis
    by (simp add: Let_def flip: d_def r_def)
qed

theorem double_set_map_refines_witness:
  "let d = foldl (dsm_step sorted_list_of_set sorted_list_of_set) dsm_default
             [DInsert (1::u64) (7::u64), DInsert 2 7, DRemoveByKeyValue 1 7];
       r = foldl dsm_spec {} [DInsert (1::u64) (7::u64), DInsert 2 7, DRemoveByKeyValue 1 7]
   in (\<forall>k v. (\<exists>s. get_by_key d k = Some s \<and> v \<in> s) = ((k, v) \<in> r)) \<and>
      (\<forall>v. get_by_value d v = (if v \<in> Range r then Some (r\<inverse> `` {v}) else None))"
  by (rule double_set_map_refines [OF enumerates_sorted enumerates_sorted])

text \<open>
  \<open>remove_by_key_value\<close> of the only value of a key leaves the key behind with an empty
  set, where \<open>SetMap::remove\<close> of the same pair drops the key: after it the two lookups of
  the pair disagree on whether the entry exists.
\<close>

theorem remove_by_key_value_keeps_empty_entry:
  assumes "by_key d k = Some {v}" and "by_value d v = Some {k}"
  shows "get_by_key (remove_by_key_value k v d) k = Some {} \<and>
         get_by_value (remove_by_key_value k v d) v = None \<and>
         sm_get (sm_remove k v (by_key d)) k = None"
  using assms
  by (simp add: remove_by_key_value_def get_by_key_def get_by_value_def sm_get_def
      sm_remove_def)

theorem remove_by_key_value_keeps_empty_entry_witness:
  "let d = dsm_insert (1::u64) (7::u64) dsm_default
   in get_by_key (remove_by_key_value 1 7 d) 1 = Some {} \<and>
      get_by_value (remove_by_key_value 1 7 d) 7 = None \<and>
      sm_get (sm_remove 1 7 (by_key d)) 1 = None"
  unfolding Let_def
  by (rule remove_by_key_value_keeps_empty_entry)
    (simp_all add: dsm_insert_def dsm_default_def sm_default_def sm_insert_def)

end
