(* ===== verification/Codec.thy ===== *)
theory Codec
  imports Prelude
begin

text \<open>
  The message stream codec of \<^verbatim>\<open>protocol/src/codec.rs\<close> and the message types of
  \<^verbatim>\<open>protocol/src/message_types.rs\<close>. A stream is the plain text \<open>HEADER, type, payload\<close>
  repeated, with every \<open>HEADER\<close> byte of a payload escaped, compressed and put behind a zero
  byte; several streams are joined behind a one byte with their lengths.

  Compression (flate2) and payload serialisation (bincode) are libraries: the operations take
  them as arguments. \<open>deflate\<close> maps the writes and flushes of a finished stream to its
  compressed bytes, \<open>inflate\<close> maps compressed bytes to the pieces it hands to its inner
  writer and a possible error at the end, a serialiser maps a payload to the pieces it writes
  and a possible error, a deserialiser maps bytes to a payload or an error.
\<close>

unbundle bit_operations_syntax

section \<open>Message types\<close>

datatype message_type =
    Handshake
  | Synchronize
  | FeedInit
  | InsertThread
  | InsertThreadAck
  | InsertPost
  | InsertPostAck
  | InsertImage
  | Captcha
  | NeedCaptcha
  | PatchPostBody
  | Append
  | Backspace

text \<open>\<^verbatim>\<open>t as u8\<close>: the discriminants count up from \<open>Handshake = 0\<close>.\<close>

fun message_type_as_u8 :: "message_type \<Rightarrow> u8" where
  "message_type_as_u8 Handshake = 0"
| "message_type_as_u8 Synchronize = 1"
| "message_type_as_u8 FeedInit = 2"
| "message_type_as_u8 InsertThread = 3"
| "message_type_as_u8 InsertThreadAck = 4"
| "message_type_as_u8 InsertPost = 5"
| "message_type_as_u8 InsertPostAck = 6"
| "message_type_as_u8 InsertImage = 7"
| "message_type_as_u8 Captcha = 8"
| "message_type_as_u8 NeedCaptcha = 9"
| "message_type_as_u8 PatchPostBody = 10"
| "message_type_as_u8 Append = 11"
| "message_type_as_u8 Backspace = 12"

text \<open>The derived \<^verbatim>\<open>FromPrimitive::from_u8\<close>: the variant with that discriminant, if any.\<close>

definition message_type_variants :: "message_type list" where
  "message_type_variants =
     [Handshake, Synchronize, FeedInit, InsertThread, InsertThreadAck, InsertPost, InsertPostAck,
      InsertImage, Captcha, NeedCaptcha, PatchPostBody, Append, Backspace]"

definition message_type_from_u8 :: "u8 \<Rightarrow> message_type option" where
  "message_type_from_u8 b = find (\<lambda>t. message_type_as_u8 t = b) message_type_variants"

section \<open>Errors\<close>

datatype io_error =
    ZeroLengthBuffer
  | IncompleteMessage nat
  | InvalidHeaderByte u8
  | EndsWithHeader
  | InvalidMessageType u8
  | NotFound
  | DecodeError string
  | EncodeError string
  | StreamError string
  | SliceOutOfBounds

section \<open>Escaper\<close>

definition HEADER :: u8 where
  "HEADER = 174"

definition ESCAPE :: u8 where
  "ESCAPE = 255"

text \<open>
  A writer is its \<^verbatim>\<open>write_all\<close>: the new state, and the error if there was one. What was
  written before an error stays written.
\<close>

type_synonym 'w write_all = "'w \<Rightarrow> u8 list \<Rightarrow> 'w \<times> io_error option"

definition io_then ::
  "'w \<times> io_error option \<Rightarrow> ('w \<Rightarrow> 'w \<times> io_error option) \<Rightarrow> 'w \<times> io_error option" where
  "io_then r f = (case r of (w, Some e) \<Rightarrow> (w, Some e) | (w, None) \<Rightarrow> f w)"

function escaper_write :: "'w write_all \<Rightarrow> 'w \<Rightarrow> u8 list \<Rightarrow> 'w \<times> io_error option" where
  "escaper_write wr w buf =
     (if buf = [] then (w, None)
      else case position (\<lambda>b. b = HEADER) buf of
          Some i \<Rightarrow>
            io_then (wr w (take i buf)) (\<lambda>w.
            io_then (wr w [HEADER, ESCAPE]) (\<lambda>w.
            escaper_write wr w (drop (i + 1) buf)))
        | None \<Rightarrow> wr w buf)"
  by pat_completeness auto
termination
  by (relation "measure (\<lambda>(wr, w, buf). length buf)") (auto dest: position_less)

declare escaper_write.simps [simp del]

section \<open>Encoder\<close>

text \<open>What a compressing writer has been asked to do.\<close>

datatype zop = ZWrite "u8 list" | ZFlush

type_synonym deflater = "zop list \<Rightarrow> io_error + u8 list"

text \<open>
  \<^verbatim>\<open>DeflateEncoder<Vec<u8>>\<close>: the vector it was created on and the operations since.
  Writing to a vector does not fail.
\<close>

record encoder =
  enc_out :: "u8 list"
  enc_ops :: "zop list"

definition init_single_message :: "u8 list \<Rightarrow> u8 list" where
  "init_single_message w = w @ [0]"

definition encoder_new :: "u8 list \<Rightarrow> encoder" where
  "encoder_new w = \<lparr>enc_out = init_single_message w, enc_ops = []\<rparr>"

definition encoder_default :: encoder where
  "encoder_default = encoder_new []"

definition encoder_write :: "encoder write_all" where
  "encoder_write e bs = (e\<lparr>enc_ops := enc_ops e @ [ZWrite bs]\<rparr>, None)"

definition encoder_flush :: "encoder \<Rightarrow> encoder" where
  "encoder_flush e = e\<lparr>enc_ops := enc_ops e @ [ZFlush]\<rparr>"

text \<open>
  \<^verbatim>\<open>bincode::serialize_into\<close> through the escaper: the serialiser's pieces in turn, then its
  own error, if any.
\<close>

type_synonym 'p serializer = "'p \<Rightarrow> u8 list list \<times> string option"

fun serialize_into ::
  "'w write_all \<Rightarrow> 'w \<Rightarrow> u8 list list \<Rightarrow> string option \<Rightarrow> 'w \<times> io_error option" where
  "serialize_into wr w [] err = (w, map_option EncodeError err)"
| "serialize_into wr w (c # cs) err =
     io_then (escaper_write wr w c) (\<lambda>w. serialize_into wr w cs err)"

definition write_message ::
  "'p serializer \<Rightarrow> encoder \<Rightarrow> message_type \<Rightarrow> 'p \<Rightarrow> encoder \<times> io_error option" where
  "write_message ser e t payload =
     io_then (encoder_write e [HEADER, message_type_as_u8 t]) (\<lambda>e.
       serialize_into encoder_write e (fst (ser payload)) (snd (ser payload)))"

definition encoder_finish :: "deflater \<Rightarrow> encoder \<Rightarrow> io_error + u8 list" where
  "encoder_finish deflate e = rbind (deflate (enc_ops e)) (\<lambda>z. Inr (enc_out e @ z))"

definition encode ::
  "deflater \<Rightarrow> 'p serializer \<Rightarrow> message_type \<Rightarrow> 'p \<Rightarrow> io_error + u8 list" where
  "encode deflate ser t payload =
     (case write_message ser (encoder_new []) t payload of
        (_, Some err) \<Rightarrow> Inl err
      | (e, None) \<Rightarrow> encoder_finish deflate e)"

definition encoder_reset ::
  "deflater \<Rightarrow> encoder \<Rightarrow> u8 list \<Rightarrow> encoder \<times> (io_error + u8 list)" where
  "encoder_reset deflate e w =
     (case encoder_finish deflate e of
        Inl err \<Rightarrow> (e, Inl err)
      | Inr out \<Rightarrow> (\<lparr>enc_out = init_single_message w, enc_ops = []\<rparr>, Inr out))"

definition to_le_bytes :: "u32 \<Rightarrow> u8 list" where
  "to_le_bytes n = [ucast n, ucast (drop_bit 8 n), ucast (drop_bit 16 n), ucast (drop_bit 24 n)]"

definition encoder_join :: "u8 list list \<Rightarrow> u8 list" where
  "encoder_join enc = 1 # concat (map (\<lambda>s. to_le_bytes (word_of_nat (length s)) @ s) enc)"

section \<open>Message splitter\<close>

record message_splitter =
  sp_buf :: "u8 list"
  message_starts :: "nat list"
  message_types :: "message_type list"

definition splitter_new :: message_splitter where
  "splitter_new = \<lparr>sp_buf = [], message_starts = [], message_types = []\<rparr>"

function splitter_write :: "message_splitter \<Rightarrow> u8 list \<Rightarrow> io_error + message_splitter" where
  "splitter_write s buf =
     (if buf = [] then Inr s
      else case position (\<lambda>b. b = HEADER) buf of
          Some i \<Rightarrow>
            if i = length buf - 1 then Inl EndsWithHeader
            else let nxt = buf ! (i + 1) in
              if nxt \<noteq> ESCAPE
              then case message_type_from_u8 nxt of
                  Some typ \<Rightarrow>
                    splitter_write
                      (s\<lparr>message_starts := message_starts s @ [length (sp_buf s) + i],
                         message_types := message_types s @ [typ],
                         sp_buf := sp_buf s @ take i buf\<rparr>)
                      (drop (i + 2) buf)
                | None \<Rightarrow> Inl (InvalidMessageType (buf ! 1))
              else splitter_write (s\<lparr>sp_buf := sp_buf s @ take (i + 1) buf\<rparr>) (drop (i + 2) buf)
        | None \<Rightarrow> Inr (s\<lparr>sp_buf := sp_buf s @ buf\<rparr>))"
  by pat_completeness auto
termination
  by (relation "measure (\<lambda>(s, buf). length buf)") auto

declare splitter_write.simps [simp del]

section \<open>Decoder\<close>

type_synonym inflater = "u8 list \<Rightarrow> u8 list list \<times> io_error option"

text \<open>The inflater hands its pieces to the splitter; the first error of either ends the call.\<close>

fun splitter_write_all ::
  "message_splitter \<Rightarrow> u8 list list \<Rightarrow> io_error + message_splitter" where
  "splitter_write_all s [] = Inr s"
| "splitter_write_all s (c # cs) = rbind (splitter_write s c) (\<lambda>s. splitter_write_all s cs)"

definition inflate_into ::
  "inflater \<Rightarrow> message_splitter \<Rightarrow> u8 list \<Rightarrow> io_error + message_splitter" where
  "inflate_into inflate dst r =
     rbind (splitter_write_all dst (fst (inflate r))) (\<lambda>s.
       case snd (inflate r) of None \<Rightarrow> Inr s | Some err \<Rightarrow> Inl err)"

definition from_le_bytes :: "u8 list \<Rightarrow> u32" where
  "from_le_bytes bs =
     ucast (bs ! 0) OR push_bit 8 (ucast (bs ! 1)) OR push_bit 16 (ucast (bs ! 2))
       OR push_bit 24 (ucast (bs ! 3))"

text \<open>\<^verbatim>\<open>i32 as usize\<close> sign-extends to the 64 bits of the server's \<^verbatim>\<open>usize\<close>.\<close>

definition i32_as_usize :: "u32 \<Rightarrow> nat" where
  "i32_as_usize n = unat (scast n :: u64)"

function (sequential) fill_splitter ::
    "inflater \<Rightarrow> message_splitter \<Rightarrow> u8 list \<Rightarrow> io_error + message_splitter"
  and fill_vector ::
    "inflater \<Rightarrow> message_splitter \<Rightarrow> u8 list \<Rightarrow> io_error + message_splitter" where
  "fill_splitter inflate dst [] = Inl ZeroLengthBuffer"
| "fill_splitter inflate dst (b # r) =
     (if b = 0 then inflate_into inflate dst r
      else if b = 1 then fill_vector inflate dst r
      else Inl (InvalidHeaderByte b))"
| "fill_vector inflate dst r =
     (if r = [] then Inr dst
      else if length r < 4 then Inl (IncompleteMessage 4)
      else let len = i32_as_usize (from_le_bytes (take 4 r)); r = drop 4 r in
        if length r < len then Inl (IncompleteMessage len)
        else rbind (fill_splitter inflate dst (take len r)) (\<lambda>dst.
          fill_vector inflate dst (drop len r)))"
  by pat_completeness auto
termination
  by (relation "measure (\<lambda>x. case x of Inl (_, _, r) \<Rightarrow> length r | Inr (_, _, r) \<Rightarrow> length r)")
    auto

declare fill_vector.simps [simp del]

record decoder =
  splitter :: message_splitter
  off :: nat

definition decoder_new :: "inflater \<Rightarrow> u8 list \<Rightarrow> io_error + decoder" where
  "decoder_new inflate r =
     rbind (fill_splitter inflate splitter_new r) (\<lambda>s. Inr \<lparr>splitter = s, off = 0\<rparr>)"

definition get_nth :: "'a list \<Rightarrow> nat \<Rightarrow> 'a option" where
  "get_nth xs i = (if i < length xs then Some (xs ! i) else None)"

definition peek_type :: "decoder \<Rightarrow> message_type option" where
  "peek_type d = get_nth (message_types (splitter d)) (off d)"

definition skip_next :: "decoder \<Rightarrow> decoder" where
  "skip_next d = d\<lparr>off := off d + 1\<rparr>"

text \<open>\<^verbatim>\<open>&buf[i..j]\<close>, which panics unless \<open>i \<le> j \<le> buf.len()\<close>.\<close>

definition slice :: "'a list \<Rightarrow> nat \<Rightarrow> nat \<Rightarrow> 'a list option" where
  "slice xs i j = (if i \<le> j \<and> j \<le> length xs then Some (take (j - i) (drop i xs)) else None)"

type_synonym 'p deserializer = "u8 list \<Rightarrow> string + 'p"

definition read_next :: "'p deserializer \<Rightarrow> decoder \<Rightarrow> decoder \<times> (io_error + 'p)" where
  "read_next de d =
     (case get_nth (message_starts (splitter d)) (off d) of
        None \<Rightarrow> (d, Inl NotFound)
      | Some i \<Rightarrow>
          let to = (case get_nth (message_starts (splitter d)) (off d + 1) of
                      None \<Rightarrow> length (sp_buf (splitter d)) | Some j \<Rightarrow> j)
          in case slice (sp_buf (splitter d)) i to of
               None \<Rightarrow> (d, Inl SliceOutOfBounds)
             | Some buf \<Rightarrow>
                 (case de buf of
                    Inl err \<Rightarrow> (d, Inl (DecodeError err))
                  | Inr res \<Rightarrow> (d\<lparr>off := off d + 1\<rparr>, Inr res)))"

section \<open>Message types on the wire\<close>

lemma message_type_from_as_u8 [simp]: "message_type_from_u8 (message_type_as_u8 t) = Some t"
  by (cases t) (simp_all add: message_type_from_u8_def message_type_variants_def)

lemma message_type_as_from_u8: "message_type_from_u8 b = Some t \<Longrightarrow> message_type_as_u8 t = b"
  by (auto simp: message_type_from_u8_def find_Some_iff)

lemma message_type_not_special [simp]:
  "message_type_as_u8 t \<noteq> ESCAPE" "message_type_as_u8 t \<noteq> HEADER"
  by (cases t; simp add: ESCAPE_def HEADER_def)+

lemma HEADER_ESCAPE [simp]: "HEADER \<noteq> ESCAPE" "ESCAPE \<noteq> HEADER"
  by (simp_all add: ESCAPE_def HEADER_def)

section \<open>Escaping\<close>

text \<open>The reference for the escaper: each \<open>HEADER\<close> byte is followed by an \<open>ESCAPE\<close> byte.\<close>

definition esc :: "u8 list \<Rightarrow> u8 list" where
  "esc bs = concat (map (\<lambda>b. if b = HEADER then [HEADER, ESCAPE] else [b]) bs)"

lemma esc_simps [simp]:
  "esc [] = []"
  "esc (b # bs) = (if b = HEADER then [HEADER, ESCAPE] else [b]) @ esc bs"
  "esc (as @ bs) = esc as @ esc bs"
  by (simp_all add: esc_def)

lemma esc_plain: "\<forall>b \<in> set bs. b \<noteq> HEADER \<Longrightarrow> esc bs = bs"
  by (induction bs) auto

lemma io_then_None [simp]: "io_then (w, None) f = f w"
  by (simp add: io_then_def)

text \<open>A writer that accepts everything and keeps it, as a vector or a compressor does.\<close>

locale append_writer =
  fixes wr :: "'w write_all"
    and content :: "'w \<Rightarrow> u8 list"
    and frame :: "'w \<Rightarrow> 'f"
  assumes wr_ok: "snd (wr w bs) = None"
    and content_wr: "content (fst (wr w bs)) = content w @ bs"
    and frame_wr: "frame (fst (wr w bs)) = frame w"
begin

definition appends :: "'w \<Rightarrow> u8 list \<Rightarrow> 'w \<times> io_error option \<Rightarrow> bool" where
  "appends w bs r \<longleftrightarrow>
     snd r = None \<and> content (fst r) = content w @ bs \<and> frame (fst r) = frame w"

lemma wr_appends: "appends w bs (wr w bs)"
  by (simp add: appends_def wr_ok content_wr frame_wr)

lemma appends_then:
  assumes "appends w as r" and "\<And>w'. appends w' bs (f w')"
  shows "appends w (as @ bs) (io_then r f)"
  using assms by (cases r) (auto simp: appends_def io_then_def)

lemma escaper_appends: "appends w (esc buf) (escaper_write wr w buf)"
proof (induction buf arbitrary: w rule: length_induct)
  case (1 buf)
  show ?case
  proof (cases "position (\<lambda>b. b = HEADER) buf")
    case None
    then have "esc buf = buf"
      by (simp add: position_None_iff esc_plain)
    with None show ?thesis
      by (simp add: escaper_write.simps [of wr w buf] wr_appends) (simp add: appends_def)
  next
    case (Some i)
    let ?rest = "drop (i + 1) buf"
    have len: "length ?rest < length buf" and ne: "buf \<noteq> []"
      using position_less [OF Some] by auto
    have "appends w (take i buf @ [HEADER, ESCAPE] @ esc ?rest)
        (io_then (wr w (take i buf)) (\<lambda>w. io_then (wr w [HEADER, ESCAPE]) (\<lambda>w.
          escaper_write wr w ?rest)))"
      using 1 len by (intro appends_then wr_appends) blast
    moreover have "esc buf = take i buf @ [HEADER, ESCAPE] @ esc ?rest"
    proof -
      have "esc buf = esc (take i buf @ buf ! i # drop (Suc i) buf)"
        using position_split [OF Some] by simp
      also have "\<dots> = take i buf @ [HEADER, ESCAPE] @ esc ?rest"
        using Some by (auto simp: position_Some_iff esc_plain)
      finally show ?thesis .
    qed
    ultimately show ?thesis
      using Some ne by (simp add: escaper_write.simps [of wr w buf])
  qed
qed

lemma serializer_appends: "appends w (esc (concat cs)) (serialize_into wr w cs None)"
proof (induction cs arbitrary: w)
  case Nil
  then show ?case by (simp add: appends_def)
next
  case (Cons c cs)
  then show ?case by (simp add: appends_then escaper_appends)
qed

end

text \<open>The plain text a compressor has been given.\<close>

definition written :: "zop list \<Rightarrow> u8 list" where
  "written ops = concat (map (\<lambda>z. case z of ZWrite bs \<Rightarrow> bs | ZFlush \<Rightarrow> []) ops)"

abbreviation enc_plain :: "encoder \<Rightarrow> u8 list" where
  "enc_plain e \<equiv> written (enc_ops e)"

interpretation enc: append_writer encoder_write enc_plain enc_out
  by unfold_locales (simp_all add: encoder_write_def written_def)

text \<open>The plain text of one message: the header byte, its type, its escaped payload.\<close>

definition wire :: "message_type \<times> u8 list \<Rightarrow> u8 list" where
  "wire m = HEADER # message_type_as_u8 (fst m) # esc (snd m)"

definition payload_bytes :: "'p serializer \<Rightarrow> 'p \<Rightarrow> u8 list" where
  "payload_bytes ser p = concat (fst (ser p))"

lemma write_message_appends:
  assumes "snd (ser p) = None"
  shows "\<exists>e'. write_message ser e t p = (e', None) \<and> enc_out e' = enc_out e \<and>
              enc_plain e' = enc_plain e @ wire (t, payload_bytes ser p)"
proof -
  have "enc.appends e ([HEADER, message_type_as_u8 t] @ esc (concat (fst (ser p))))
      (write_message ser e t p)"
    unfolding write_message_def assms
    by (intro enc.appends_then enc.wr_appends enc.serializer_appends)
  then show ?thesis
    by (cases "write_message ser e t p")
      (simp add: enc.appends_def wire_def payload_bytes_def)
qed

section \<open>Splitting\<close>

text \<open>
  The reference for the splitter reads byte by byte. \<open>push\<close> keeps a payload byte,
  \<open>start\<close> opens the next message at the current end of the buffer.
\<close>

definition push :: "u8 \<Rightarrow> message_splitter \<Rightarrow> message_splitter" where
  "push b s = s\<lparr>sp_buf := sp_buf s @ [b]\<rparr>"

definition start_msg :: "message_type \<Rightarrow> message_splitter \<Rightarrow> message_splitter" where
  "start_msg t s =
     s\<lparr>message_starts := message_starts s @ [length (sp_buf s)],
       message_types := message_types s @ [t]\<rparr>"

fun split_ref :: "message_splitter \<Rightarrow> u8 list \<Rightarrow> message_splitter option" where
  "split_ref s [] = Some s"
| "split_ref s (b # bs) =
     (if b \<noteq> HEADER then split_ref (push b s) bs
      else case bs of
          [] \<Rightarrow> None
        | c # cs \<Rightarrow>
            if c = ESCAPE then split_ref (push HEADER s) cs
            else case message_type_from_u8 c of
                None \<Rightarrow> None
              | Some t \<Rightarrow> split_ref (start_msg t s) cs)"

definition res_opt :: "'e + 'a \<Rightarrow> 'a option" where
  "res_opt r = (case r of Inl _ \<Rightarrow> None | Inr a \<Rightarrow> Some a)"

lemma res_opt_simps [simp]: "res_opt (Inl e) = None" "res_opt (Inr a) = Some a"
  by (simp_all add: res_opt_def)

lemma res_opt_Some [simp]: "res_opt r = Some a \<longleftrightarrow> r = Inr a"
  by (cases r) simp_all

lemma split_ref_plain:
  "\<forall>u \<in> set us. u \<noteq> HEADER \<Longrightarrow>
     split_ref s (us @ rest) = split_ref (s\<lparr>sp_buf := sp_buf s @ us\<rparr>) rest"
  by (induction us arbitrary: s) (simp_all add: push_def)

lemma split_ref_plain_end:
  "\<forall>u \<in> set us. u \<noteq> HEADER \<Longrightarrow> split_ref s us = Some (s\<lparr>sp_buf := sp_buf s @ us\<rparr>)"
  using split_ref_plain [of us s "[]"] by simp

lemma splitter_write_ref: "res_opt (splitter_write s buf) = split_ref s buf"
proof (induction s buf rule: splitter_write.induct)
  case (1 s buf)
  show ?case
  proof (cases "position (\<lambda>b. b = HEADER) buf")
    case None
    then have "\<forall>u \<in> set buf. u \<noteq> HEADER"
      by (simp add: position_None_iff)
    with None show ?thesis
      by (simp add: splitter_write.simps [of s buf] split_ref_plain_end)
  next
    case (Some i)
    then have i: "i < length buf" "buf ! i = HEADER" "\<forall>u \<in> set (take i buf). u \<noteq> HEADER"
      by (simp_all add: position_Some_iff)
    have buf: "split_ref s buf =
        split_ref (s\<lparr>sp_buf := sp_buf s @ take i buf\<rparr>) (HEADER # drop (Suc i) buf)"
      using split_ref_plain [OF i(3), of s "HEADER # drop (Suc i) buf"]
        position_split [OF Some] i(2) by (simp only:)
    show ?thesis
    proof (cases "i = length buf - 1")
      case True
      with i have "drop (Suc i) buf = []"
        by simp
      with True Some i show ?thesis
        by (auto simp: splitter_write.simps [of s buf] buf)
    next
      case False
      with i have d: "drop (Suc i) buf = buf ! (i + 1) # drop (i + 2) buf"
        using Cons_nth_drop_Suc [of "Suc i" buf] by simp
      have t: "take (Suc i) buf = take i buf @ [HEADER]"
        using i by (simp add: take_Suc_conv_app_nth)
      have u: "start_msg t (s\<lparr>sp_buf := sp_buf s @ take i buf\<rparr>) =
          s\<lparr>message_starts := message_starts s @ [length (sp_buf s) + i],
            message_types := message_types s @ [t], sp_buf := sp_buf s @ take i buf\<rparr>" for t
        using i by (simp add: start_msg_def)
      from False Some i show ?thesis
        using "1.IH"(1) [OF _ Some False refl] "1.IH"(2) [OF _ Some False refl]
        by (auto simp: splitter_write.simps [of s buf] buf d Let_def push_def t u
            split: option.splits)
    qed
  qed
qed

lemma split_ref_append:
  assumes "us = [] \<or> last us \<noteq> HEADER"
  shows "split_ref s (us @ vs) = Option.bind (split_ref s us) (\<lambda>s. split_ref s vs)"
  using assms
proof (induction s us rule: split_ref.induct)
  case (1 s)
  then show ?case by simp
next
  case (2 s b bs)
  then show ?case
    by (cases bs) (auto split: option.splits if_splits)
qed

definition pieces_ok :: "u8 list list \<Rightarrow> bool" where
  "pieces_ok cs \<longleftrightarrow> (\<forall>c \<in> set cs. c = [] \<or> last c \<noteq> HEADER)"

lemma splitter_write_all_ref:
  "pieces_ok cs \<Longrightarrow> res_opt (splitter_write_all s cs) = split_ref s (concat cs)"
proof (induction cs arbitrary: s)
  case Nil
  then show ?case by simp
next
  case (Cons c cs)
  have "split_ref s (concat (c # cs)) =
      Option.bind (res_opt (splitter_write s c)) (\<lambda>s. split_ref s (concat cs))"
    using Cons.prems by (simp add: pieces_ok_def split_ref_append splitter_write_ref)
  with Cons show ?case
    by (cases "splitter_write s c") (simp_all add: pieces_ok_def)
qed

section \<open>Messages in a splitter\<close>

definition add_msg :: "message_splitter \<Rightarrow> message_type \<times> u8 list \<Rightarrow> message_splitter" where
  "add_msg s m = (start_msg (fst m) s)\<lparr>sp_buf := sp_buf s @ snd m\<rparr>"

lemma split_ref_esc: "split_ref s (esc p @ rest) = split_ref (s\<lparr>sp_buf := sp_buf s @ p\<rparr>) rest"
  by (induction p arbitrary: s) (auto simp: push_def)

lemma split_ref_wire: "split_ref s (wire m @ rest) = split_ref (add_msg s m) rest"
  by (simp add: wire_def split_ref_esc add_msg_def start_msg_def)

lemma split_ref_stream:
  "split_ref s (concat (map wire ms)) = Some (foldl add_msg s ms)"
  by (induction ms arbitrary: s) (simp_all add: split_ref_wire)

definition msg_offset :: "(message_type \<times> u8 list) list \<Rightarrow> nat \<Rightarrow> nat" where
  "msg_offset ms k = length (concat (map snd (take k ms)))"

lemma foldl_add_msg:
  "foldl add_msg splitter_new ms =
     \<lparr>sp_buf = concat (map snd ms),
      message_starts = map (msg_offset ms) [0..<length ms],
      message_types = map fst ms\<rparr>"
proof (induction ms rule: rev_induct)
  case Nil
  then show ?case by (simp add: splitter_new_def)
next
  case (snoc m ms)
  have "map (msg_offset (ms @ [m])) [0..<length ms] = map (msg_offset ms) [0..<length ms]"
    by (simp add: msg_offset_def)
  with snoc show ?case
    by (simp add: add_msg_def start_msg_def msg_offset_def)
qed

lemma slice_message:
  assumes "k < length ms"
  shows "slice (concat (map snd ms)) (msg_offset ms k) (msg_offset ms (Suc k)) = Some (snd (ms ! k))"
proof -
  have "concat (map snd ms) =
      concat (map snd (take k ms)) @ snd (ms ! k) @ concat (map snd (drop (Suc k) ms))"
    using id_take_nth_drop [OF assms] by (metis concat.simps(2) concat_append list.simps(9) map_append)
  moreover have "msg_offset ms (Suc k) = msg_offset ms k + length (snd (ms ! k))"
    using assms by (simp add: msg_offset_def take_Suc_conv_app_nth)
  ultimately show ?thesis
    by (simp add: slice_def msg_offset_def)
qed

lemma msg_offset_all: "msg_offset ms (length ms) = length (concat (map snd ms))"
  by (simp add: msg_offset_def)

definition decoder_of :: "(message_type \<times> u8 list) list \<Rightarrow> nat \<Rightarrow> decoder" where
  "decoder_of ms k = \<lparr>splitter = foldl add_msg splitter_new ms, off = k\<rparr>"

lemma peek_decoder_of:
  "peek_type (decoder_of ms k) = (if k < length ms then Some (fst (ms ! k)) else None)"
  by (simp add: peek_type_def decoder_of_def foldl_add_msg get_nth_def)

lemma read_decoder_of:
  assumes "k < length ms"
  shows "read_next de (decoder_of ms k) =
      (case de (snd (ms ! k)) of
         Inl err \<Rightarrow> (decoder_of ms k, Inl (DecodeError err))
       | Inr v \<Rightarrow> (decoder_of ms (Suc k), Inr v))"
proof -
  have "(if Suc k < length ms then msg_offset ms (Suc k) else length (concat (map snd ms))) =
      msg_offset ms (Suc k)"
    using assms by (cases "Suc k = length ms") (auto simp flip: msg_offset_all)
  with assms slice_message [OF assms] show ?thesis
    by (auto simp: read_next_def decoder_of_def foldl_add_msg get_nth_def split: sum.splits)
qed

lemma read_decoder_of_end:
  "length ms \<le> k \<Longrightarrow> read_next de (decoder_of ms k) = (decoder_of ms k, Inl NotFound)"
  by (simp add: read_next_def decoder_of_def foldl_add_msg get_nth_def)

section \<open>Robustness of the decoder\<close>

text \<open>
  The message starts are in order and inside the buffer, one for each type. Every write keeps
  this, whatever the bytes are.
\<close>

definition sp_wf :: "message_splitter \<Rightarrow> bool" where
  "sp_wf s \<longleftrightarrow>
     length (message_starts s) = length (message_types s) \<and> sorted (message_starts s) \<and>
     (\<forall>i \<in> set (message_starts s). i \<le> length (sp_buf s))"

lemma sp_wf_new: "sp_wf splitter_new"
  by (simp add: sp_wf_def splitter_new_def)

lemma sp_wf_split_ref: "sp_wf s \<Longrightarrow> split_ref s bs = Some s' \<Longrightarrow> sp_wf s'"
proof (induction s bs rule: split_ref.induct)
  case (2 s b bs)
  have "sp_wf (push c s)" "sp_wf (start_msg t s)" for c t
    using "2.prems"(1) by (auto simp: sp_wf_def push_def start_msg_def sorted_append)
  with 2 show ?case
    by (auto split: if_splits list.splits option.splits)
qed simp

lemma sp_wf_splitter_write: "sp_wf s \<Longrightarrow> splitter_write s buf = Inr s' \<Longrightarrow> sp_wf s'"
  by (rule sp_wf_split_ref [of s buf]) (simp_all flip: splitter_write_ref)

lemma sp_wf_splitter_write_all: "sp_wf s \<Longrightarrow> splitter_write_all s cs = Inr s' \<Longrightarrow> sp_wf s'"
  by (induction cs arbitrary: s) (auto simp: rbind_eq_Inr dest: sp_wf_splitter_write)

lemma sp_wf_inflate_into: "sp_wf s \<Longrightarrow> inflate_into inflate s r = Inr s' \<Longrightarrow> sp_wf s'"
  by (auto simp: inflate_into_def rbind_eq_Inr split: option.splits
      dest: sp_wf_splitter_write_all)

lemma sp_wf_fill:
  "sp_wf s \<Longrightarrow> fill_splitter inflate s r = Inr s' \<Longrightarrow> sp_wf s'"
  "sp_wf s \<Longrightarrow> fill_vector inflate s r = Inr s' \<Longrightarrow> sp_wf s'"
proof (induction inflate s r and inflate s r arbitrary: s' and s'
    rule: fill_splitter_fill_vector.induct)
  case (2 inflate dst b r)
  then show ?case
    by (auto split: if_splits dest: sp_wf_inflate_into)
next
  case (3 inflate dst r)
  let ?len = "i32_as_usize (from_le_bytes (take 4 r))" and ?r = "drop 4 r"
  show ?case
  proof (cases "r = [] \<or> length r < 4 \<or> length ?r < ?len")
    case True
    with "3.prems" show ?thesis
      by (auto simp: fill_vector.simps [of inflate dst r] Let_def split: if_splits)
  next
    case False
    with "3.prems"(2) obtain s1
      where s1: "fill_splitter inflate dst (take ?len ?r) = Inr s1"
        and s': "fill_vector inflate s1 (drop ?len ?r) = Inr s'"
      by (auto simp: fill_vector.simps [of inflate dst r] Let_def rbind_eq_Inr)
    have "sp_wf s1"
      by (rule "3.IH"(1) [OF _ _ refl refl _ "3.prems"(1) s1]) (use False in auto)
    show ?thesis
      by (rule "3.IH"(2) [OF _ _ refl refl _ \<open>sp_wf s1\<close> s']) (use False in auto)
  qed
qed simp

lemma slice_ok:
  assumes "sp_wf s" "i < length (message_starts s)"
    "to = (case get_nth (message_starts s) (i + 1) of None \<Rightarrow> length (sp_buf s) | Some j \<Rightarrow> j)"
  shows "slice (sp_buf s) (message_starts s ! i) to \<noteq> None"
  using assms
  by (auto simp: slice_def get_nth_def sp_wf_def sorted_nth_mono split: if_splits)

text \<open>
  C3: decoding is safe on arbitrary received bytes. If \<open>Decoder::new\<close> accepts them, then at
  every position \<open>read_next\<close> takes a slice inside the buffer (the indexing in it cannot
  panic), and it reports \<open>NotFound\<close> exactly where \<open>peek_type\<close> reports the end.
\<close>

theorem decoder_never_out_of_bounds:
  assumes "decoder_new inflate r = Inr d"
  shows "snd (read_next de (d\<lparr>off := k\<rparr>)) \<noteq> Inl SliceOutOfBounds \<and>
         (snd (read_next de (d\<lparr>off := k\<rparr>)) = Inl NotFound \<longleftrightarrow> peek_type (d\<lparr>off := k\<rparr>) = None)"
proof -
  have wf: "sp_wf (splitter d)"
    using assms sp_wf_new by (auto simp: decoder_new_def rbind_eq_Inr dest: sp_wf_fill(1))
  let ?to = "case get_nth (message_starts (splitter d)) (k + 1) of
      None \<Rightarrow> length (sp_buf (splitter d)) | Some j \<Rightarrow> j"
  show ?thesis
  proof (cases "k < length (message_starts (splitter d))")
    case True
    then obtain buf where "slice (sp_buf (splitter d)) (message_starts (splitter d) ! k) ?to = Some buf"
      using slice_ok [OF wf True refl] by blast
    with True wf show ?thesis
      by (auto simp: read_next_def peek_type_def get_nth_def sp_wf_def Let_def split: sum.splits)
  next
    case False
    with wf show ?thesis
      by (simp add: read_next_def peek_type_def get_nth_def sp_wf_def)
  qed
qed

section \<open>Round trips\<close>

text \<open>
  What is documented of the compression library: finishing a stream succeeds, and inflating
  its bytes delivers the plain text, in pieces of the library's choosing, without an error.
\<close>

definition lossless :: "deflater \<Rightarrow> inflater \<Rightarrow> bool" where
  "lossless deflate inflate \<longleftrightarrow>
     (\<forall>ops. \<exists>z cs. deflate ops = Inr z \<and> inflate z = (cs, None) \<and> concat cs = written ops)"

text \<open>\<open>n\<close> calls of \<open>write_message\<close> on one encoder.\<close>

definition write_messages ::
  "'p serializer \<Rightarrow> encoder \<Rightarrow> (message_type \<times> 'p) list \<Rightarrow> encoder" where
  "write_messages ser e ms = foldl (\<lambda>e m. fst (write_message ser e (fst m) (snd m))) e ms"

definition wire_msgs :: "'p serializer \<Rightarrow> (message_type \<times> 'p) list \<Rightarrow> (message_type \<times> u8 list) list"
  where "wire_msgs ser ms = map (\<lambda>m. (fst m, payload_bytes ser (snd m))) ms"

lemma write_messages_plain:
  assumes "\<forall>p. snd (ser p) = None"
  shows "enc_plain (write_messages ser e ms) = enc_plain e @ concat (map wire (wire_msgs ser ms)) \<and>
         enc_out (write_messages ser e ms) = enc_out e"
proof (induction ms arbitrary: e)
  case Nil
  then show ?case by (simp add: write_messages_def wire_msgs_def)
next
  case (Cons m ms)
  obtain e' where e': "write_message ser e (fst m) (snd m) = (e', None)" "enc_out e' = enc_out e"
      "enc_plain e' = enc_plain e @ wire (fst m, payload_bytes ser (snd m))"
    using write_message_appends [of ser "snd m" e "fst m"] assms by auto
  with Cons [of e'] show ?case
    by (simp add: write_messages_def wire_msgs_def)
qed

lemma encode_single:
  assumes "\<forall>p. snd (ser p) = None"
  shows "encode deflate ser t p = encoder_finish deflate (write_messages ser (encoder_new []) [(t, p)])"
  using write_message_appends [of ser p "encoder_new []" t] assms
  by (auto simp: encode_def write_messages_def)

text \<open>A byte string that adds exactly the messages \<open>ms\<close> to any splitter.\<close>

definition decodes_to :: "inflater \<Rightarrow> u8 list \<Rightarrow> (message_type \<times> u8 list) list \<Rightarrow> bool" where
  "decodes_to inflate bs ms \<longleftrightarrow> (\<forall>s. fill_splitter inflate s bs = Inr (foldl add_msg s ms))"

lemma decodes_to_decoder:
  "decodes_to inflate bs ms \<Longrightarrow> decoder_new inflate bs = Inr (decoder_of ms 0)"
  by (simp add: decodes_to_def decoder_new_def decoder_of_def)

lemma finished_stream_decodes:
  assumes "lossless deflate inflate" and "\<forall>p. snd (ser p) = None"
    and "\<forall>z. deflate (enc_ops (write_messages ser (encoder_new []) ms)) = Inr z \<longrightarrow>
           pieces_ok (fst (inflate z))"
  shows "\<exists>bs. encoder_finish deflate (write_messages ser (encoder_new []) ms) = Inr bs \<and>
              decodes_to inflate bs (wire_msgs ser ms)"
proof -
  let ?e = "write_messages ser (encoder_new []) ms"
  obtain z cs where z: "deflate (enc_ops ?e) = Inr z" "inflate z = (cs, None)"
      "concat cs = enc_plain ?e"
    using assms(1) unfolding lossless_def by blast
  have plain: "enc_plain ?e = concat (map wire (wire_msgs ser ms))" and out: "enc_out ?e = [0]"
    using write_messages_plain [OF assms(2), of "encoder_new []" ms]
    by (simp_all add: encoder_new_def init_single_message_def written_def)
  have "pieces_ok cs"
    using assms(3) z by simp
  then have "res_opt (splitter_write_all s cs) = Some (foldl add_msg s (wire_msgs ser ms))" for s
    by (simp add: splitter_write_all_ref z plain split_ref_stream)
  then have "decodes_to inflate (0 # z) (wire_msgs ser ms)"
    using z by (simp add: decodes_to_def inflate_into_def)
  with z out show ?thesis
    by (simp add: encoder_finish_def)
qed

text \<open>Each message of a decoded stream reads back, in order, and then the stream ends.\<close>

definition reads_back ::
  "'p deserializer \<Rightarrow> decoder \<Rightarrow> (message_type \<times> 'p) list \<Rightarrow> bool" where
  "reads_back de d ms \<longleftrightarrow>
     (\<forall>k < length ms.
        peek_type (d\<lparr>off := k\<rparr>) = Some (fst (ms ! k)) \<and>
        read_next de (d\<lparr>off := k\<rparr>) = (d\<lparr>off := k + 1\<rparr>, Inr (snd (ms ! k)))) \<and>
     peek_type (d\<lparr>off := length ms\<rparr>) = None \<and>
     snd (read_next de (d\<lparr>off := length ms\<rparr>)) = Inl NotFound"

lemma decoder_of_off: "(decoder_of ms i)\<lparr>off := k\<rparr> = decoder_of ms k"
  by (simp add: decoder_of_def)

lemma reads_back_decoder_of:
  assumes "\<forall>p. de (payload_bytes ser p) = Inr p"
  shows "reads_back de (decoder_of (wire_msgs ser ms) i) ms"
  using assms
  by (simp add: reads_back_def decoder_of_off peek_decoder_of read_decoder_of read_decoder_of_end
      wire_msgs_def)


text \<open>A stored stream: the trivial compressor, as one piece.\<close>

definition store_deflate :: deflater where
  "store_deflate ops = Inr (written ops)"

definition store_inflate :: inflater where
  "store_inflate z = ([z], None)"

lemma lossless_store: "lossless store_deflate store_inflate"
  by (simp add: lossless_def store_deflate_def store_inflate_def)

theorem decoder_never_out_of_bounds_witness:
  "\<exists>d. decoder_new store_inflate [0, HEADER, 11, 5] = Inr d \<and>
       snd (read_next Inr (d\<lparr>off := 1\<rparr>)) \<noteq> Inl SliceOutOfBounds \<and>
       (snd (read_next Inr (d\<lparr>off := 1\<rparr>)) = Inl NotFound \<longleftrightarrow> peek_type (d\<lparr>off := 1\<rparr>) = None)"
proof -
  have "\<not> isl (decoder_new store_inflate [0, HEADER, 11, 5])"
    by code_simp
  then obtain d where d: "decoder_new store_inflate [0, HEADER, 11, 5] = Inr d"
    by (cases "decoder_new store_inflate [0, HEADER, 11, 5]") simp_all
  from decoder_never_out_of_bounds [OF this, of Inr 1] show ?thesis
    by (intro exI [of _ d] conjI d) (rule conjunct1, assumption, rule conjunct2, assumption)
qed


lemma from_to_le_bytes [simp]: "from_le_bytes (to_le_bytes n) = n"
proof (rule bit_eqI)
  fix k
  assume "possible_bit TYPE(32 word) k"
  then have k: "k < 32" by simp
  show "bit (from_le_bytes (to_le_bytes n)) k = bit n k"
    using k by (cases "k < 16"; cases "k < 24") (auto simp: from_le_bytes_def to_le_bytes_def bit_simps)
qed

lemma length_to_le_bytes [simp]: "length (to_le_bytes n) = 4"
  by (simp add: to_le_bytes_def)

lemma i32_as_usize_small: "n < 2 ^ 31 \<Longrightarrow> i32_as_usize (word_of_nat n) = n"
proof -
  assume n: "n < 2 ^ 31"
  have "sint (word_of_nat n :: u32) = int n"
    using n by (simp add: signed_of_nat signed_take_bit_int_eq_self)
  then have "(scast (word_of_nat n :: u32) :: u64) = word_of_nat n"
    by (simp add: scast_eq)
  with n show ?thesis
    by (simp add: i32_as_usize_def unsigned_of_nat take_bit_nat_eq_self)
qed

lemma fill_vector_frame:
  assumes "length b < 2 ^ 31"
  shows "fill_vector inflate s (to_le_bytes (word_of_nat (length b)) @ b @ rest) =
         rbind (fill_splitter inflate s b) (\<lambda>s. fill_vector inflate s rest)"
proof -
  have "to_le_bytes (word_of_nat (length b)) \<noteq> []"
    using length_to_le_bytes [of "word_of_nat (length b)"] by (metis list.size(3) zero_neq_numeral)
  then show ?thesis
    by (subst fill_vector.simps) (simp add: i32_as_usize_small [OF assms] Let_def)
qed

lemma join_decodes:
  assumes "list_all2 (decodes_to inflate) bs mss" and "\<forall>b \<in> set bs. length b < 2 ^ 31"
  shows "decodes_to inflate (encoder_join bs) (concat mss)"
proof -
  have "fill_vector inflate s (concat (map (\<lambda>b. to_le_bytes (word_of_nat (length b)) @ b) bs)) =
      Inr (foldl add_msg s (concat mss))" for s
    using assms
  proof (induction bs mss arbitrary: s rule: list_all2_induct)
    case Nil
    then show ?case by (simp add: fill_vector.simps)
  next
    case (Cons b bs ms mss)
    then show ?case by (simp add: fill_vector_frame decodes_to_def)
  qed
  then show ?thesis
    by (simp add: decodes_to_def encoder_join_def)
qed



lemma splitter_write_ends_with_header:
  assumes "splitter_write s us = Inr s'" and "us = [] \<or> last us \<noteq> HEADER"
  shows "splitter_write s (us @ [HEADER]) = Inl EndsWithHeader"
  using assms
proof (induction us arbitrary: s rule: length_induct)
  case (1 us)
  let ?p = "position (\<lambda>b. b = HEADER)"
  show ?case
  proof (cases "?p us")
    case None
    then have "?p (us @ [HEADER]) = Some (length us)"
      by (simp add: position_None_iff position_append_cons)
    then show ?thesis
      by (simp add: splitter_write.simps [of s "us @ [HEADER]"])
  next
    case (Some i)
    then have i: "i < length us" "us ! i = HEADER" "\<forall>u \<in> set (take i us). u \<noteq> HEADER"
      by (simp_all add: position_Some_iff)
    have "i \<noteq> length us - 1"
      using i "1.prems"(2) by (cases us rule: rev_cases) auto
    with i have j: "i + 1 < length us" by simp
    then have p: "?p (us @ [HEADER]) = Some i" and n: "(us @ [HEADER]) ! (i + 1) = us ! (i + 1)"
      and d: "drop (i + 2) (us @ [HEADER]) = drop (i + 2) us @ [HEADER]"
      and t: "take k (us @ [HEADER]) = take k us" if "k \<le> i + 1" for k
      using i that by (auto simp: position_Some_iff nth_append)
    have l: "drop (i + 2) us = [] \<or> last (drop (i + 2) us) \<noteq> HEADER"
      using "1.prems"(2) by (auto simp: last_drop)
    have step: "splitter_write s2 (drop (i + 2) us @ [HEADER]) = Inl EndsWithHeader"
      if "splitter_write s2 (drop (i + 2) us) = Inr s'" for s2
      using "1.IH" [rule_format, OF _ that l] i by simp
    show ?thesis
      using "1.prems"(1) step i j p [of 0] n [of 0] d [of 0] t [of i] t [of "i + 1"]
      by (subst (asm) splitter_write.simps, subst splitter_write.simps)
        (auto simp: Some Let_def split: if_splits option.splits)
  qed
qed

text \<open>
  The splitter cannot take a piece that ends inside an escape or a message header. A piece
  boundary right after a header byte makes it report an error, although the same bytes in one
  piece are the plain text of a valid message: whether a stream decodes depends on where the
  compression library cuts its output.
\<close>

theorem piece_boundary_breaks_decoding:
  "splitter_write_all splitter_new [wire (t, p) @ [HEADER], ESCAPE # esc q] = Inl EndsWithHeader \<and>
   splitter_write_all splitter_new [(wire (t, p) @ [HEADER]) @ ESCAPE # esc q] =
     Inr (add_msg splitter_new (t, p @ HEADER # q))"
proof
  have last: "last (wire (t, p)) \<noteq> HEADER"
  proof (cases p rule: rev_cases)
    case Nil
    then show ?thesis by (simp add: wire_def)
  next
    case (snoc r b)
    then show ?thesis by (simp add: wire_def)
  qed
  have "res_opt (splitter_write splitter_new (wire (t, p))) = Some (add_msg splitter_new (t, p))"
    using split_ref_wire [of splitter_new "(t, p)" "[]"] by (simp add: splitter_write_ref)
  then have "splitter_write splitter_new (wire (t, p) @ [HEADER]) = Inl EndsWithHeader"
    using last by (intro splitter_write_ends_with_header) simp_all
  then show "splitter_write_all splitter_new [wire (t, p) @ [HEADER], ESCAPE # esc q] =
      Inl EndsWithHeader"
    by simp
  have "(wire (t, p) @ [HEADER]) @ ESCAPE # esc q = wire (t, p @ HEADER # q) @ []"
    by (simp add: wire_def)
  then have "res_opt (splitter_write splitter_new ((wire (t, p) @ [HEADER]) @ ESCAPE # esc q)) =
      Some (add_msg splitter_new (t, p @ HEADER # q))"
    unfolding splitter_write_ref by (simp only: split_ref_wire) simp
  then show "splitter_write_all splitter_new [(wire (t, p) @ [HEADER]) @ ESCAPE # esc q] =
      Inr (add_msg splitter_new (t, p @ HEADER # q))"
    by simp
qed

end
