(* ===== verification/Payloads.thy ===== *)
theory Payloads
  imports Prelude
begin

text \<open>
  The payloads exchanged between client and server: \<^verbatim>\<open>protocol/src/payloads/mod.rs\<close> and the
  post body tree of \<^verbatim>\<open>protocol/src/payloads/post_body.rs\<close>. A Rust string is the list of its
  UTF-8 bytes, a \<^verbatim>\<open>Uuid\<close> is its 128 bits, \<^verbatim>\<open>i16\<close> is a 16 bit word read with \<open>sint\<close>. Record
  fields carry a prefix where two structs share a field name.
\<close>

type_synonym uuid = "128 word"

text \<open>The bytes of a \<^verbatim>\<open>Uuid\<close>, most significant first.\<close>

definition uuid_bytes :: "uuid \<Rightarrow> u8 list" where
  "uuid_bytes u = map (\<lambda>i. ucast (drop_bit (8 * (15 - i)) u)) [0..<16]"

definition PROTOCOL_VERSION :: u16 where "PROTOCOL_VERSION = 1"

section \<open>Post body tree\<close>

datatype pending_node =
    PFlip
  | PEightBall
  | PPyu
  | PPCount
  | PCountdown u64
  | PAutobahn u16
  | PDice (pd_offset: "16 word") (pd_faces: u16) (pd_rolls: u8)

record post_link =
  pl_id :: u64
  pl_thread :: u64
  pl_page :: u32

datatype command =
    Dice (d_offset: "16 word") (d_faces: u16) (d_results: "u16 list")
  | Flip bool
  | EightBall string
  | Countdown (cd_start: u32) (cd_secs: u32)
  | Autobahn u16
  | Pyu u64
  | PCount u64

datatype embed_provider =
    YouTube
  | SoundCloud
  | Vimeo
  | Coub
  | Twitter
  | Imgur
  | BitChute
  | Invidious

record embed =
  provider :: embed_provider
  embed_data :: string

datatype node =
    Empty
  | NewLine
  | Siblings node node
  | Text string
  | PostLink post_link
  | Command command
  | URL string
  | Reference (label: string) (url: string)
  | Embed embed
  | Code string
  | Spoiler node
  | Bold node
  | Italic node
  | Quoted node
  | Pending pending_node

record text_patch =
  patch_position :: u16
  patch_remove :: u16
  patch_insert :: string

datatype patch_node =
    Replace node
  | PatchSiblings "patch_node option" "patch_node option"
  | Patch text_patch

section \<open>Requests and notices\<close>

datatype authorization =
    NewPubKey "u8 list"
  | Saved (auth_id: uuid) (auth_nonce: "u8 list") (auth_signature: "u8 list")

record handshake_req =
  protocol_version :: u16
  auth :: authorization

record handshake_res =
  need_resend :: bool
  hr_id :: uuid

record new_post_opts =
  opts_name :: string

record thread_creation_req =
  tcr_subject :: string
  tcr_tags :: "string list"
  captcha_solution :: "u8 list"
  tcr_opts :: new_post_opts

record thread_creation_notice =
  tcn_id :: u64
  tcn_subject :: string
  tcn_tags :: "string list"
  tcn_time :: u32

record post_creation_req =
  sage :: bool
  pcr_thread :: u64
  pcr_opts :: new_post_opts

record post_creation_notice =
  pcn_id :: u64
  pcn_thread :: u64
  pcn_time :: u32
  pcn_page :: u32

section \<open>Feed data\<close>

record open_post =
  has_image :: bool
  image_spoilered :: bool
  created_on :: u32
  op_thread :: u64
  op_body :: node

definition open_post_new :: "u64 \<Rightarrow> u32 \<Rightarrow> open_post" where
  "open_post_new thread created =
     \<lparr>has_image = False, image_spoilered = False, created_on = created, op_thread = thread,
      op_body = Empty\<rparr>"

record feed_data =
  fd_thread :: u64
  recent_posts :: "u64 \<rightharpoonup> u32"
  open_posts :: "u64 \<rightharpoonup> open_post"

section \<open>Images\<close>

datatype file_type =
    JPEG | PNG | GIF | WEBM | PDF | SVG | MP4 | MP3 | OGG | ZIP | SevenZip | TGZ | TXZ | FLAC
  | NoFile | TXT | WEBP | RAR | CBZ | CBR

fun extension :: "file_type \<Rightarrow> string" where
  "extension JPEG = ''jpg''"
| "extension PNG = ''png''"
| "extension GIF = ''gif''"
| "extension WEBP = ''webp''"
| "extension MP3 = ''mp3''"
| "extension MP4 = ''mp4''"
| "extension WEBM = ''webm''"
| "extension OGG = ''ogg''"
| "extension PDF = ''pdf''"
| "extension ZIP = ''zip''"
| "extension SevenZip = ''7z''"
| "extension TGZ = ''tar.gz''"
| "extension TXZ = ''tar.xz''"
| "extension FLAC = ''flac''"
| "extension TXT = ''txt''"
| "extension RAR = ''rar''"
| "extension CBZ = ''cbz''"
| "extension CBR = ''cbr''"
| "extension SVG = ''svg''"
| "extension NoFile = ''''"

record image_common =
  audio :: bool
  video :: bool
  file_type :: file_type
  thumb_type :: file_type
  width :: u16
  height :: u16
  thumb_width :: u16
  thumb_height :: u16
  duration :: u32
  img_size :: u64
  artist :: "string option"
  title :: "string option"
  img_name :: string
  spoilered :: bool

record image_json =
  json_common :: image_common
  json_sha1 :: "u8 list"
  json_md5 :: "u8 list"

record image =
  img_common :: image_common
  sha1 :: "u8 list"
  md5 :: "u8 list"

definition image_json_into :: "image_json \<Rightarrow> image" where
  "image_json_into j =
     \<lparr>img_common = json_common j, sha1 = json_sha1 j, md5 = json_md5 j\<rparr>"

record insert_image =
  ii_post :: u64
  ii_image :: image

end
