(* ===== verification/Rust_Str.thy ===== *)
theory Rust_Str
  imports Prelude
begin

text \<open>
  What the sources use of Rust's \<^verbatim>\<open>str\<close>: a string is the list of its UTF-8 bytes. A byte
  starts a character unless its top bits are \<open>10\<close>; \<open>chars\<close> cuts a string before every such
  byte, so a character is the list of its one to four bytes.
\<close>

unbundle bit_operations_syntax

section \<open>Characters of a string\<close>

definition char_start :: "char \<Rightarrow> bool" where
  "char_start c \<longleftrightarrow> (of_char c AND 0xC0 :: u8) \<noteq> 0x80"

lemma length_dropWhile_less [termination_simp]: "length (dropWhile P xs) < Suc (length xs)"
  by (simp add: length_dropWhile_le le_imp_less_Suc)

fun chars :: "string \<Rightarrow> string list" where
  "chars [] = []"
| "chars (c # cs) =
     (c # takeWhile (\<lambda>b. \<not> char_start b) cs) # chars (dropWhile (\<lambda>b. \<not> char_start b) cs)"

text \<open>Every Rust string begins on a character boundary.\<close>

definition at_boundary :: "string \<Rightarrow> bool" where
  "at_boundary s \<longleftrightarrow> (case s of [] \<Rightarrow> True | c # _ \<Rightarrow> char_start c)"

definition char_count :: "string \<Rightarrow> nat" where
  "char_count s = length (chars s)"

lemma chars_eq_Nil [simp]: "chars s = [] \<longleftrightarrow> s = []"
  by (cases s) simp_all

lemma concat_chars [simp]: "concat (chars s) = s"
  by (induction s rule: chars.induct) simp_all

lemma chars_inj: "chars s = chars t \<Longrightarrow> s = t"
  by (metis concat_chars)

lemma chars_append:
  "at_boundary t \<Longrightarrow> chars (s @ t) = chars s @ chars t"
proof (induction s rule: chars.induct)
  case (2 c cs)
  show ?case
  proof (cases "\<exists>b \<in> set cs. char_start b")
    case True
    with 2 show ?thesis
      by (auto simp: takeWhile_append dropWhile_append)
  next
    case False
    then have all: "\<forall>b \<in> set cs. \<not> char_start b" by blast
    then have tw: "takeWhile (\<lambda>b. \<not> char_start b) (cs @ t) = cs @ takeWhile (\<lambda>b. \<not> char_start b) t"
      and dw: "dropWhile (\<lambda>b. \<not> char_start b) (cs @ t) = dropWhile (\<lambda>b. \<not> char_start b) t"
      and cs: "takeWhile (\<lambda>b. \<not> char_start b) cs = cs" "dropWhile (\<lambda>b. \<not> char_start b) cs = []"
      by (simp_all add: takeWhile_append2 dropWhile_append2 takeWhile_eq_all_conv)
    have "takeWhile (\<lambda>b. \<not> char_start b) t = []" "dropWhile (\<lambda>b. \<not> char_start b) t = t"
      using "2.prems" by (cases t; simp add: at_boundary_def)+
    then show ?thesis
      by (simp add: tw dw cs)
  qed
qed simp

text \<open>A list of characters: each starts with its only starting byte.\<close>

definition char_list :: "string list \<Rightarrow> bool" where
  "char_list cs \<longleftrightarrow>
     (\<forall>c \<in> set cs. c \<noteq> [] \<and> char_start (hd c) \<and> (\<forall>b \<in> set (tl c). \<not> char_start b))"

lemma takeWhile_all: "\<forall>b \<in> set (takeWhile P xs). P b"
  using set_takeWhileD by fastforce

lemma at_boundary_dropWhile: "at_boundary (dropWhile (\<lambda>b. \<not> char_start b) cs)"
  by (induction cs) (simp_all add: at_boundary_def)

lemma char_list_Cons:
  "char_list (c # cs) \<longleftrightarrow>
     c \<noteq> [] \<and> char_start (hd c) \<and> (\<forall>b \<in> set (tl c). \<not> char_start b) \<and> char_list cs"
  by (auto simp: char_list_def)

lemma char_list_chars: "at_boundary s \<Longrightarrow> char_list (chars s)"
proof (induction s rule: chars.induct)
  case (2 c cs)
  from 2 have "char_list (chars (dropWhile (\<lambda>b. \<not> char_start b) cs))"
    by (simp add: at_boundary_dropWhile)
  moreover have "char_start c"
    using "2.prems" by (simp add: at_boundary_def)
  moreover note takeWhile_all [of "\<lambda>b. \<not> char_start b" cs]
  ultimately show ?case
    by (simp only: chars.simps char_list_Cons list.sel) simp
qed (simp add: char_list_def)

lemma char_list_single: "char_list [c] \<Longrightarrow> chars c = [c]"
  by (cases c) (simp_all add: char_list_def takeWhile_eq_all_conv [THEN iffD2] dropWhile_eq_Nil_conv [THEN iffD2])

lemma char_list_boundary: "char_list cs \<Longrightarrow> at_boundary (concat cs)"
proof (cases cs)
  case (Cons c ds)
  moreover assume "char_list cs"
  ultimately show ?thesis by (cases c) (auto simp: char_list_def at_boundary_def)
qed (simp add: at_boundary_def)

lemma chars_concat: "char_list cs \<Longrightarrow> chars (concat cs) = cs"
proof (induction cs)
  case (Cons c cs)
  then have "char_list [c]" "char_list cs"
    by (simp_all add: char_list_def)
  then show ?case
    using Cons.IH by (simp add: chars_append char_list_boundary char_list_single)
qed simp

lemma char_list_append [simp]: "char_list (cs @ ds) \<longleftrightarrow> char_list cs \<and> char_list ds"
  by (auto simp: char_list_def)

lemma char_list_take [simp]: "char_list cs \<Longrightarrow> char_list (take n cs)"
  by (auto simp: char_list_def dest: in_set_takeD)

lemma char_list_drop [simp]: "char_list cs \<Longrightarrow> char_list (drop n cs)"
  by (auto simp: char_list_def dest: in_set_dropD)

section \<open>Unicode trimming\<close>

text \<open>The UTF-8 encodings of the characters with the property White\_Space.\<close>

definition whitespace_chars :: "string list" where
  "whitespace_chars =
     [[CHR 0x09], [CHR 0x0A], [CHR 0x0B], [CHR 0x0C], [CHR 0x0D], [CHR 0x20],
      [CHR 0xC2, CHR 0x85], [CHR 0xC2, CHR 0xA0], [CHR 0xE1, CHR 0x9A, CHR 0x80],
      [CHR 0xE2, CHR 0x80, CHR 0x80], [CHR 0xE2, CHR 0x80, CHR 0x81],
      [CHR 0xE2, CHR 0x80, CHR 0x82], [CHR 0xE2, CHR 0x80, CHR 0x83],
      [CHR 0xE2, CHR 0x80, CHR 0x84], [CHR 0xE2, CHR 0x80, CHR 0x85],
      [CHR 0xE2, CHR 0x80, CHR 0x86], [CHR 0xE2, CHR 0x80, CHR 0x87],
      [CHR 0xE2, CHR 0x80, CHR 0x88], [CHR 0xE2, CHR 0x80, CHR 0x89],
      [CHR 0xE2, CHR 0x80, CHR 0x8A], [CHR 0xE2, CHR 0x80, CHR 0xA8],
      [CHR 0xE2, CHR 0x80, CHR 0xA9], [CHR 0xE2, CHR 0x80, CHR 0xAF],
      [CHR 0xE2, CHR 0x81, CHR 0x9F], [CHR 0xE3, CHR 0x80, CHR 0x80]]"

definition is_whitespace :: "string \<Rightarrow> bool" where
  "is_whitespace c \<longleftrightarrow> c \<in> set whitespace_chars"

definition trim_ws :: "string list \<Rightarrow> string list" where
  "trim_ws cs = rev (dropWhile is_whitespace (rev (dropWhile is_whitespace cs)))"

definition str_trim :: "string \<Rightarrow> string" where
  "str_trim s = concat (trim_ws (chars s))"

lemma trim_ws_ends:
  "trim_ws cs = [] \<or> \<not> is_whitespace (hd (trim_ws cs)) \<and> \<not> is_whitespace (last (trim_ws cs))"
proof -
  define ds where "ds = dropWhile is_whitespace cs"
  define es where "es = dropWhile is_whitespace (rev ds)"
  have t: "trim_ws cs = rev es"
    by (simp add: trim_ws_def es_def ds_def)
  show ?thesis
  proof (cases "es = []")
    case False
    then have "\<not> is_whitespace (hd es)"
      unfolding es_def by (rule hd_dropWhile)
    moreover have "ds \<noteq> []" using False es_def by auto
    then have "\<not> is_whitespace (hd ds)"
      unfolding ds_def by (rule hd_dropWhile)
    moreover have "last es = last (rev ds)"
      using False unfolding es_def by (metis last_append takeWhile_dropWhile_id)
    ultimately show ?thesis
      using False \<open>ds \<noteq> []\<close> by (simp add: t hd_rev last_rev)
  qed (simp add: t)
qed

lemma trim_ws_idem [simp]: "trim_ws (trim_ws cs) = trim_ws cs"
proof -
  have "dropWhile P xs = xs" if "xs = [] \<or> \<not> P (hd xs)" for P and xs :: "string list"
    using that by (cases xs) auto
  then show ?thesis
    using trim_ws_ends [of cs] by (subst trim_ws_def) (auto simp: hd_rev)
qed

lemma char_list_dropWhile: "char_list cs \<Longrightarrow> char_list (dropWhile P cs)"
  by (auto simp: char_list_def dest: set_dropWhileD)

lemma char_list_trim: "char_list cs \<Longrightarrow> char_list (trim_ws cs)"
  by (auto simp: trim_ws_def char_list_def dest!: set_dropWhileD)

lemma chars_str_trim: "at_boundary s \<Longrightarrow> chars (str_trim s) = trim_ws (chars s)"
  by (simp add: str_trim_def chars_concat char_list_trim char_list_chars)

section \<open>Bytes and strings\<close>

text \<open>The byte sequences \<^verbatim>\<open>String::from_utf8\<close> accepts.\<close>

definition utf8_cont :: "nat \<Rightarrow> bool" where
  "utf8_cont b \<longleftrightarrow> 0x80 \<le> b \<and> b \<le> 0xBF"

definition utf8_second :: "nat \<Rightarrow> nat \<Rightarrow> bool" where
  "utf8_second a b \<longleftrightarrow> utf8_cont b \<and>
     (a = 0xE0 \<longrightarrow> 0xA0 \<le> b) \<and> (a = 0xED \<longrightarrow> b \<le> 0x9F) \<and>
     (a = 0xF0 \<longrightarrow> 0x90 \<le> b) \<and> (a = 0xF4 \<longrightarrow> b \<le> 0x8F)"

fun utf8_valid :: "nat list \<Rightarrow> bool" where
  "utf8_valid [] = True"
| "utf8_valid (a # bs) =
     (if a < 0x80 then utf8_valid bs
      else case bs of
        b # cs \<Rightarrow>
          if 0xC2 \<le> a \<and> a \<le> 0xDF then utf8_cont b \<and> utf8_valid cs
          else (case cs of
            c # ds \<Rightarrow>
              if 0xE0 \<le> a \<and> a \<le> 0xEF then utf8_second a b \<and> utf8_cont c \<and> utf8_valid ds
              else (case ds of
                d # es \<Rightarrow>
                  0xF0 \<le> a \<and> a \<le> 0xF4 \<and> utf8_second a b \<and> utf8_cont c \<and> utf8_cont d \<and> utf8_valid es
              | [] \<Rightarrow> False)
          | [] \<Rightarrow> False)
      | [] \<Rightarrow> False)"

definition as_bytes :: "string \<Rightarrow> u8 list" where
  "as_bytes s = map (\<lambda>c. of_nat (of_char c)) s"

definition from_bytes :: "u8 list \<Rightarrow> string" where
  "from_bytes bs = map (\<lambda>b. char_of (unat b)) bs"

lemma as_bytes_from_bytes [simp]: "as_bytes (from_bytes bs) = bs"
proof -
  have "unat b < 256" for b :: u8 by (rule order_less_le_trans [OF unsigned_less]) simp
  then have "(of_nat (of_char (char_of (unat b) :: char)) :: u8) = b" for b :: u8
    by (simp add: of_char_of)
  then show ?thesis by (induction bs) (simp_all add: as_bytes_def from_bytes_def)
qed

end
