(* ===== verification/Diff.thy ===== *)
theory Diff
  imports Payloads Rust_Str
begin

text \<open>
  The post body differ, \<^verbatim>\<open>websockets/websockets/src/body/diff.rs\<close>. It compares an old and a
  new body tree and returns a patch. The text differ works on characters; its search loop does
  not end on two equal character sequences, so it is a partial function.
\<close>

section \<open>Text\<close>

text \<open>
  \<^verbatim>\<open>diff_i\<close>: the loop reads both iterators until they differ. An exhausted iterator keeps
  returning \<^verbatim>\<open>None\<close>. The counter is started at \<open>i\<close>.
\<close>

definition iter_next :: "'a list \<Rightarrow> 'a option" where
  "iter_next xs = (case xs of [] \<Rightarrow> None | x # _ \<Rightarrow> Some x)"

partial_function (option) diff_i :: "'a list \<Rightarrow> 'a list \<Rightarrow> nat \<Rightarrow> nat option" where
  "diff_i a b i = (if iter_next a \<noteq> iter_next b then Some i else diff_i (tl a) (tl b) (i + 1))"

text \<open>
  \<^verbatim>\<open>start\<close> is the first difference; \<^verbatim>\<open>end\<close> compares the rest of the old text read backwards
  with the rest of the new text read forwards. Subtractions of \<^verbatim>\<open>usize\<close> below zero and slices
  out of range panic.
\<close>

definition diff_text :: "string \<Rightarrow> string \<Rightarrow> patch_node option run" where
  "diff_text old new =
     (if old = new then Done None
      else let old_r = chars old; new_r = chars new in
        case diff_i old_r new_r 0 of
          None \<Rightarrow> Diverged
        | Some start \<Rightarrow>
            (case diff_i (rev (drop start old_r)) (drop start new_r) 0 of
               None \<Rightarrow> Diverged
             | Some e \<Rightarrow>
                 if length old_r < e + start \<or> length new_r < e \<or> length new_r - e < start
                 then Panicked
                 else Done (Some (Patch
                   \<lparr>patch_position = word_of_nat start,
                    patch_remove = word_of_nat (length old_r - e - start),
                    patch_insert = concat (drop start (take (length new_r - e) new_r))\<rparr>))))"

section \<open>Nodes\<close>

text \<open>\<^verbatim>\<open>rayon::join\<close> returns when both sides have; a panic of either side is propagated.\<close>

definition join_run :: "'a run \<Rightarrow> 'b run \<Rightarrow> ('a \<times> 'b) run" where
  "join_run l r =
     (case (l, r) of
        (Diverged, _) \<Rightarrow> Diverged
      | (_, Diverged) \<Rightarrow> Diverged
      | (Panicked, _) \<Rightarrow> Panicked
      | (_, Panicked) \<Rightarrow> Panicked
      | (Done a, Done b) \<Rightarrow> Done (a, b))"

definition pair_siblings :: "(patch_node option \<times> patch_node option) \<Rightarrow> patch_node option" where
  "pair_siblings lr =
     (case lr of (None, None) \<Rightarrow> None | (l, r) \<Rightarrow> Some (PatchSiblings l r))"

fun map_run :: "('a \<Rightarrow> 'b) \<Rightarrow> 'a run \<Rightarrow> 'b run" where
  "map_run f (Done a) = Done (f a)"
| "map_run f Panicked = Panicked"
| "map_run f Diverged = Diverged"

text \<open>The last arm: nodes of different kinds, and kinds that are compared as a whole.\<close>

definition diff_whole :: "node \<Rightarrow> node \<Rightarrow> patch_node option run" where
  "diff_whole old new = (if old \<noteq> new then Done (Some (Replace new)) else Done None)"

text \<open>
  One equation for each kind of the old node, with the source's arm for two nodes of that kind
  and its last arm for all others. The source's arm for two texts binds its names the other way
  round (\<^verbatim>\<open>(Text(new), Text(old))\<close> matches the pair \<^verbatim>\<open>(old, new)\<close>), so the two strings
  reach \<open>diff_text\<close> swapped.
\<close>

primrec diff :: "node \<Rightarrow> node \<Rightarrow> patch_node option run" where
  "diff Empty new = (case new of Empty \<Rightarrow> Done None | _ \<Rightarrow> diff_whole Empty new)"
| "diff NewLine new = (case new of NewLine \<Rightarrow> Done None | _ \<Rightarrow> diff_whole NewLine new)"
| "diff (Siblings old0 old1) new =
     (case new of
        Siblings new0 new1 \<Rightarrow>
          map_run pair_siblings (join_run (diff old0 new0) (diff old1 new1))
      | _ \<Rightarrow> diff_whole (Siblings old0 old1) new)"
| "diff (Text a) new = (case new of Text b \<Rightarrow> diff_text b a | _ \<Rightarrow> diff_whole (Text a) new)"
| "diff (URL a) new = (case new of URL b \<Rightarrow> diff_text a b | _ \<Rightarrow> diff_whole (URL a) new)"
| "diff (Code a) new = (case new of Code b \<Rightarrow> diff_text a b | _ \<Rightarrow> diff_whole (Code a) new)"
| "diff (Spoiler a) new = (case new of Spoiler b \<Rightarrow> diff a b | _ \<Rightarrow> diff_whole (Spoiler a) new)"
| "diff (Bold a) new = (case new of Bold b \<Rightarrow> diff a b | _ \<Rightarrow> diff_whole (Bold a) new)"
| "diff (Italic a) new = (case new of Italic b \<Rightarrow> diff a b | _ \<Rightarrow> diff_whole (Italic a) new)"
| "diff (Quoted a) new = (case new of Quoted b \<Rightarrow> diff a b | _ \<Rightarrow> diff_whole (Quoted a) new)"
| "diff (PostLink l) new = diff_whole (PostLink l) new"
| "diff (Command c) new = diff_whole (Command c) new"
| "diff (Reference l u) new = diff_whole (Reference l u) new"
| "diff (Embed e) new = diff_whole (Embed e) new"
| "diff (Pending p) new = diff_whole (Pending p) new"

section \<open>The search loop\<close>

fun common_prefix :: "'a list \<Rightarrow> 'a list \<Rightarrow> nat" where
  "common_prefix (x # xs) (y # ys) = (if x = y then Suc (common_prefix xs ys) else 0)"
| "common_prefix _ _ = 0"

lemma common_prefix_le: "common_prefix xs ys \<le> length xs" "common_prefix xs ys \<le> length ys"
  by (induction xs ys rule: common_prefix.induct) auto

lemma common_prefix_take: "take (common_prefix xs ys) xs = take (common_prefix xs ys) ys"
  by (induction xs ys rule: common_prefix.induct) auto

lemma diff_i_Some: "a \<noteq> b \<Longrightarrow> diff_i a b i = Some (i + common_prefix a b)"
proof (induction a b arbitrary: i rule: common_prefix.induct)
  case (1 x xs y ys)
  then show ?case
    by (subst diff_i.simps) (simp add: iter_next_def)
qed (subst diff_i.simps; simp add: iter_next_def split: list.splits)+

lemma diff_i_returns: "diff_i a b i = Some k \<Longrightarrow> a \<noteq> b"
proof (rule diff_i.raw_induct [where P = "\<lambda>a b i k. a \<noteq> b"])
  fix f :: "'a list \<Rightarrow> 'a list \<Rightarrow> nat \<Rightarrow> nat option" and a b :: "'a list" and i k
  assume IH: "\<And>a b i k. f a b i = Some k \<Longrightarrow> a \<noteq> b"
    and eq: "(if iter_next a \<noteq> iter_next b then Some i else f (tl a) (tl b) (i + 1)) = Some k"
  show "a \<noteq> b"
  proof (cases "iter_next a = iter_next b")
    case True
    with eq have "tl a \<noteq> tl b" by (auto dest: IH)
    then show ?thesis by auto
  qed auto
qed

lemma diff_i_eq: "diff_i a b i = (if a = b then None else Some (i + common_prefix a b))"
proof (cases "a = b")
  case True
  then show ?thesis using diff_i_returns [of a b i] by (cases "diff_i a b i") auto
qed (simp add: diff_i_Some)

section \<open>What the text differ returns\<close>

text \<open>
  The two lengths the text differ computes: the common beginning, and the common beginning of
  the reversed rest of the old text and the rest of the new text.
\<close>

definition diff_start :: "string \<Rightarrow> string \<Rightarrow> nat" where
  "diff_start old new = common_prefix (chars old) (chars new)"

abbreviation old_rest :: "string \<Rightarrow> string \<Rightarrow> string list" where
  "old_rest old new \<equiv> drop (diff_start old new) (chars old)"

abbreviation new_rest :: "string \<Rightarrow> string \<Rightarrow> string list" where
  "new_rest old new \<equiv> drop (diff_start old new) (chars new)"

definition diff_end :: "string \<Rightarrow> string \<Rightarrow> nat" where
  "diff_end old new = common_prefix (rev (old_rest old new)) (new_rest old new)"

definition text_patch_of :: "string \<Rightarrow> string \<Rightarrow> text_patch" where
  "text_patch_of old new =
     \<lparr>patch_position = word_of_nat (diff_start old new),
      patch_remove = word_of_nat (length (old_rest old new) - diff_end old new),
      patch_insert = concat (take (length (new_rest old new) - diff_end old new) (new_rest old new))\<rparr>"

lemma diff_start_le: "diff_start old new \<le> length (chars old)" "diff_start old new \<le> length (chars new)"
  by (simp_all add: diff_start_def common_prefix_le)

lemma diff_end_le: "diff_end old new \<le> length (old_rest old new)" "diff_end old new \<le> length (new_rest old new)"
  using common_prefix_le [of "rev (old_rest old new)" "new_rest old new"]
  by (simp_all only: diff_end_def length_rev)

lemma diff_text_eq:
  "diff_text old new =
     (if old = new then Done None
      else if rev (old_rest old new) = new_rest old new then Diverged
      else Done (Some (Patch (text_patch_of old new))))"
proof (cases "old = new")
  case True
  then show ?thesis by (simp add: diff_text_def)
next
  case False
  then have ne: "chars old \<noteq> chars new"
    using chars_inj by blast
  have start: "diff_i (chars old) (chars new) 0 = Some (diff_start old new)"
    by (simp add: diff_i_eq ne diff_start_def)
  show ?thesis
  proof (cases "rev (old_rest old new) = new_rest old new")
    case True
    with False start show ?thesis
      by (simp add: diff_text_def diff_i_eq Let_def)
  next
    case differ: False
    have e: "diff_i (rev (old_rest old new)) (new_rest old new) 0 = Some (diff_end old new)"
      using differ by (simp add: diff_i_eq diff_end_def)
    have bounds: "\<not> length (chars old) < diff_end old new + diff_start old new"
      "\<not> length (chars new) < diff_end old new"
      "\<not> length (chars new) - diff_end old new < diff_start old new"
      using diff_start_le [of old new] diff_end_le [of old new] by auto
    have "length (chars old) - diff_end old new - diff_start old new =
        length (old_rest old new) - diff_end old new"
      by simp
    moreover have "drop (diff_start old new) (take (length (chars new) - diff_end old new) (chars new)) =
        take (length (new_rest old new) - diff_end old new) (new_rest old new)"
      by (simp add: drop_take add.commute)
    ultimately show ?thesis
      using False differ start e bounds by (simp add: diff_text_def Let_def text_patch_of_def)
  qed
qed

lemma diff_text_not_panicked: "diff_text old new \<noteq> Panicked"
  by (simp add: diff_text_eq)

section \<open>What a text patch means\<close>

text \<open>
  The documented meaning of a text patch: remove \<open>remove\<close> characters after \<open>position\<close>,
  then insert the text there.
\<close>

definition apply_text_patch :: "text_patch \<Rightarrow> string \<Rightarrow> string" where
  "apply_text_patch p s =
     (let cs = chars s; i = unat (patch_position p); n = unat (patch_remove p)
      in concat (take i cs) @ patch_insert p @ concat (drop (i + n) cs))"

lemma unat_u16_small: "n < 65536 \<Longrightarrow> unat (word_of_nat n :: u16) = n"
  by (simp add: unsigned_of_nat take_bit_nat_eq_self)

lemma apply_text_patch_of:
  assumes "char_count old < 65536"
  shows "apply_text_patch (text_patch_of old new) old =
      concat (take (diff_start old new) (chars new)) @
      concat (take (length (new_rest old new) - diff_end old new) (new_rest old new)) @
      concat (rev (take (diff_end old new) (new_rest old new)))"
proof -
  let ?k = "diff_start old new" and ?e = "diff_end old new"
  let ?n = "length (old_rest old new) - ?e"
  have u: "unat (word_of_nat ?k :: u16) = ?k" "unat (word_of_nat ?n :: u16) = ?n"
    using assms diff_start_le(1) [of old new] by (auto intro!: unat_u16_small simp: char_count_def)
  have head: "take ?k (chars old) = take ?k (chars new)"
    by (simp add: diff_start_def common_prefix_take)
  have "take ?e (rev (old_rest old new)) = take ?e (new_rest old new)"
    by (simp only: diff_end_def common_prefix_take)
  then have "drop ?n (old_rest old new) = rev (take ?e (new_rest old new))"
    by (metis rev_rev_ident take_rev)
  then have "drop (?k + ?n) (chars old) = rev (take ?e (new_rest old new))"
    by (simp add: add.commute)
  then show ?thesis
    by (simp add: apply_text_patch_def text_patch_of_def u head Let_def del: length_drop)
qed

lemma char_list_rev [simp]: "char_list (rev cs) = char_list cs"
  by (simp add: char_list_def)

text \<open>
  C6: exactly when the text differ's patch is right. For two different texts (of Rust strings
  below 65536 characters) on which it returns, applying its patch to the old text gives the new
  text if and only if the last \<open>end\<close> characters of the new text are the first \<open>end\<close>
  characters of its changed part in reverse: the source compares the reversed old text with the
  new text read forwards instead of reversed.
\<close>

theorem text_patch_correct_iff:
  assumes "at_boundary new" "char_count old < 65536" "diff_text old new = Done (Some (Patch p))"
  shows "apply_text_patch p old = new \<longleftrightarrow>
         drop (length (new_rest old new) - diff_end old new) (new_rest old new) =
         rev (take (diff_end old new) (new_rest old new))"
proof -
  let ?N = "new_rest old new" and ?e = "diff_end old new" and ?k = "diff_start old new"
  let ?L = "take ?k (chars new) @ take (length ?N - ?e) ?N @ rev (take ?e ?N)"
  have p: "p = text_patch_of old new"
    using assms(3) by (auto simp: diff_text_eq split: if_splits)
  have cl: "char_list ?L"
    using char_list_chars [OF assms(1)] by simp
  have "apply_text_patch p old = concat ?L"
    by (simp only: p apply_text_patch_of [OF assms(2)] concat_append)
  moreover have "concat ?L = new \<longleftrightarrow> ?L = chars new"
    using chars_concat [OF cl] concat_chars [of new] by metis
  moreover have "chars new = take ?k (chars new) @ take (length ?N - ?e) ?N @ drop (length ?N - ?e) ?N"
    by (simp only: append_take_drop_id)
  then have "?L = chars new \<longleftrightarrow> rev (take ?e ?N) = drop (length ?N - ?e) ?N"
    by (metis same_append_eq)
  ultimately show ?thesis by auto
qed

theorem text_patch_correct_iff_witness:
  "apply_text_patch (text_patch_of ''ab'' ''abc'') ''ab'' = ''abc'' \<longleftrightarrow>
   drop (length (new_rest ''ab'' ''abc'') - diff_end ''ab'' ''abc'') (new_rest ''ab'' ''abc'') =
   rev (take (diff_end ''ab'' ''abc'') (new_rest ''ab'' ''abc''))"
  by (rule text_patch_correct_iff)
    (simp_all add: diff_text_eq at_boundary_def char_count_def char_start_def diff_start_def)

lemma common_prefix_append [simp]: "common_prefix xs (xs @ ys) = length xs" "common_prefix (xs @ ys) xs = length xs"
  by (induction xs; cases ys; simp)+

lemma Nil_eq_chars [simp]: "[] = chars s \<longleftrightarrow> s = []"
  using chars_eq_Nil [of s] by metis

lemma diff_text_append:
  assumes "at_boundary old" "at_boundary t" "t \<noteq> []"
  shows "diff_text old (old @ t) = Done (Some (Patch
      \<lparr>patch_position = word_of_nat (char_count old), patch_remove = 0, patch_insert = t\<rparr>))"
  using assms
  by (simp add: diff_text_eq text_patch_of_def diff_end_def diff_start_def chars_append char_count_def)

lemma diff_text_truncate:
  assumes "at_boundary old" "at_boundary t" "t \<noteq> []"
  shows "diff_text (old @ t) old = Done (Some (Patch
      \<lparr>patch_position = word_of_nat (char_count old), patch_remove = word_of_nat (char_count t),
       patch_insert = []\<rparr>))"
  using assms
  by (simp add: diff_text_eq text_patch_of_def diff_end_def diff_start_def chars_append char_count_def
      common_prefix.simps)

text \<open>
  Appending to a code or URL node and cutting off its end are patched correctly: the
  differ returns a text patch, and applying it to the old text gives the new text.
\<close>

theorem append_and_truncate_patch_correct:
  assumes "at_boundary s" "at_boundary t" "t \<noteq> []" "char_count (s @ t) < 65536"
  shows "(\<exists>p. diff (Code s) (Code (s @ t)) = Done (Some (Patch p)) \<and> apply_text_patch p s = s @ t) \<and>
         (\<exists>p. diff (Code (s @ t)) (Code s) = Done (Some (Patch p)) \<and> apply_text_patch p (s @ t) = s)"
proof -
  have n: "char_count s < 65536" "char_count t < 65536"
    using assms by (simp_all add: char_count_def chars_append)
  show ?thesis
    using assms n
    by (simp add: diff_text_append diff_text_truncate apply_text_patch_def unat_u16_small Let_def
        chars_append char_count_def)
qed

theorem append_and_truncate_patch_correct_witness:
  "(\<exists>p. diff (Code ''ab'') (Code (''ab'' @ ''c'')) = Done (Some (Patch p)) \<and>
        apply_text_patch p ''ab'' = ''ab'' @ ''c'') \<and>
   (\<exists>p. diff (Code (''ab'' @ ''c'')) (Code ''ab'') = Done (Some (Patch p)) \<and>
        apply_text_patch p (''ab'' @ ''c'') = ''ab'')"
  by (rule append_and_truncate_patch_correct)
    (simp_all add: at_boundary_def char_count_def char_start_def)

text \<open>
  Text nodes are diffed the wrong way round. After the user appends to a text node the
  differ returns the patch that removes the appended characters again; applied to the old text
  it changes nothing, so the appended text does not reach the readers.
\<close>

theorem text_node_append_is_lost:
  assumes "at_boundary s" "at_boundary t" "t \<noteq> []" "char_count (s @ t) < 65536"
  shows "\<exists>p. diff (Text s) (Text (s @ t)) = Done (Some (Patch p)) \<and>
             apply_text_patch p (s @ t) = s \<and> apply_text_patch p s = s \<and> s @ t \<noteq> s"
proof -
  have n: "char_count s < 65536" "char_count t < 65536"
    using assms by (simp_all add: char_count_def chars_append)
  show ?thesis
    using assms n
    by (simp add: diff_text_truncate apply_text_patch_def unat_u16_small Let_def
        chars_append char_count_def)
qed

theorem text_node_append_is_lost_witness:
  "\<exists>p. diff (Text ''ab'') (Text (''ab'' @ ''c'')) = Done (Some (Patch p)) \<and>
       apply_text_patch p (''ab'' @ ''c'') = ''ab'' \<and> apply_text_patch p ''ab'' = ''ab'' \<and>
       ''ab'' @ ''c'' \<noteq> ''ab''"
  by (rule text_node_append_is_lost)
    (simp_all add: at_boundary_def char_count_def char_start_def)

text \<open>
  C7: when the text differ hangs. It does not return exactly if the texts differ and, after
  their common beginning, one is the other read backwards (both search iterators then end
  together); the feed thread that called it never continues. It never panics.
\<close>

theorem diff_text_diverges_iff:
  "(diff_text old new = Diverged \<longleftrightarrow>
      old \<noteq> new \<and> rev (old_rest old new) = new_rest old new) \<and>
   diff_text old new \<noteq> Panicked \<and>
   diff (Code ''ab'') (Code ''ba'') = Diverged"
proof -
  have "diff_text ''ab'' ''ba'' = Diverged"
    by (simp add: diff_text_eq diff_start_def char_start_def)
  then show ?thesis
    by (simp add: diff_text_eq)
qed

section \<open>What the node differ returns\<close>

lemma join_run_Done_iff: "join_run l r = Done (a, b) \<longleftrightarrow> l = Done a \<and> r = Done b"
  by (cases l; cases r) (auto simp: join_run_def)

lemma map_run_Done_iff: "map_run f r = Done b \<longleftrightarrow> (\<exists>a. r = Done a \<and> f a = b)"
  by (cases r) auto

lemma pair_siblings_None: "pair_siblings lr = None \<longleftrightarrow> lr = (None, None)"
  by (auto simp: pair_siblings_def split: prod.splits option.splits)

lemma diff_whole_None: "diff_whole old new = Done None \<longleftrightarrow> old = new"
  by (simp add: diff_whole_def)

lemma diff_text_None: "diff_text old new = Done None \<longleftrightarrow> old = new"
  by (simp add: diff_text_eq)

text \<open>
  No patch means no change. The differ returns \<open>None\<close> exactly for two equal trees, so an
  edit that changes the tree is never silently dropped as unchanged, and an unchanged body is
  never sent.
\<close>

theorem diff_None_iff: "diff old new = Done None \<longleftrightarrow> old = new"
proof (induction old arbitrary: new)
  case (Siblings old0 old1)
  then show ?case
    by (cases new)
      (auto simp: diff_whole_None map_run_Done_iff pair_siblings_None join_run_Done_iff)
qed (auto simp: diff_whole_None diff_text_None split: node.splits)

text \<open>
  The patches do not determine the new body. A change inside a formatting tag is returned
  without the tag, so one patch for one old body stands for two different new bodies, and no
  client can apply patches correctly.
\<close>

theorem diff_patches_ambiguous:
  "diff (Spoiler Empty) (Spoiler NewLine) = Done (Some (Replace NewLine)) \<and>
   diff (Spoiler Empty) NewLine = Done (Some (Replace NewLine)) \<and>
   (\<forall>f. \<exists>old new p. diff old new = Done (Some p) \<and> f old p \<noteq> new)"
proof -
  have a: "diff (Spoiler Empty) (Spoiler NewLine) = Done (Some (Replace NewLine))"
    and b: "diff (Spoiler Empty) NewLine = Done (Some (Replace NewLine))"
    by (simp_all add: diff_whole_def)
  have "\<exists>old new p. diff old new = Done (Some p) \<and> f old p \<noteq> new" for f
  proof (cases "f (Spoiler Empty) (Replace NewLine) = NewLine")
    case True
    with a show ?thesis
      by (intro exI [of _ "Spoiler Empty"] exI [of _ "Spoiler NewLine"] exI [of _ "Replace NewLine"]) simp
  next
    case False
    with b show ?thesis by blast
  qed
  with a b show ?thesis by blast
qed

end
