(* ===== verification/Registry.thy ===== *)
theory Registry
  imports Set_Map
begin

text \<open>
  The client registry of the websocket server, \<^verbatim>\<open>websockets/websockets/src/registry.rs\<close>: the
  descriptors of all connected clients with three indexes on them. The global registry behind
  the lock is the state passed to every operation; each operation runs under the write lock, so
  it is one atomic step. A client is held by reference (\<^verbatim>\<open>Rc<Mutex<Client>>\<close>), here a value
  of the type \<open>'c\<close>.
\<close>

section \<open>State and operations\<close>

record 'c client_descriptor =
  desc_thread :: "u64 option"
  desc_pub_key :: "u64 option"
  desc_client :: 'c

record 'c registry =
  clients :: "u64 \<rightharpoonup> 'c client_descriptor"
  by_thread :: "(u64, u64) set_map"
  by_pub_key :: "(u64, u64) set_map"
  need_init :: "(u64, u64) set_map"

definition registry_default :: "'c registry" where
  "registry_default =
     \<lparr>clients = Map.empty, by_thread = sm_default, by_pub_key = sm_default, need_init = sm_default\<rparr>"

definition client_descriptor_new :: "'c \<Rightarrow> 'c client_descriptor" where
  "client_descriptor_new c = \<lparr>desc_thread = None, desc_pub_key = None, desc_client = c\<rparr>"

definition remove_from_thread :: "u64 \<Rightarrow> u64 option \<Rightarrow> 'c registry \<Rightarrow> 'c registry" where
  "remove_from_thread client thread r =
     (case thread of
        None \<Rightarrow> r
      | Some t \<Rightarrow>
          r\<lparr>by_thread := sm_remove t client (by_thread r),
            need_init := sm_remove t client (need_init r)\<rparr>)"

definition remove_client :: "u64 \<Rightarrow> 'c registry \<Rightarrow> 'c registry" where
  "remove_client cid r =
     (case clients r cid of
        None \<Rightarrow> r
      | Some desc \<Rightarrow>
          let r = r\<lparr>clients := (clients r)(cid := None)\<rparr>;
              r = (case desc_pub_key desc of
                     None \<Rightarrow> r
                   | Some k \<Rightarrow> r\<lparr>by_pub_key := sm_remove k cid (by_pub_key r)\<rparr>)
          in remove_from_thread cid (desc_thread desc) r)"

definition get_client :: "u64 \<Rightarrow> 'c registry \<Rightarrow> 'c option" where
  "get_client cid r = map_option desc_client (clients r cid)"

text \<open>\<open>c\<close> refers to the new \<^verbatim>\<open>Client::new(id)\<close>.\<close>

definition add_client :: "u64 \<Rightarrow> 'c \<Rightarrow> 'c registry \<Rightarrow> 'c registry" where
  "add_client cid c r = r\<lparr>clients := (clients r)(cid \<mapsto> client_descriptor_new c)\<rparr>"

definition set_client_key :: "u64 \<Rightarrow> u64 \<Rightarrow> 'c registry \<Rightarrow> 'c registry" where
  "set_client_key cid k r =
     (case clients r cid of
        None \<Rightarrow> r
      | Some desc \<Rightarrow>
          r\<lparr>by_pub_key := sm_insert k cid (by_pub_key r),
            clients := (clients r)(cid \<mapsto> desc\<lparr>desc_pub_key := Some k\<rparr>)\<rparr>)"

definition set_client_thread :: "u64 \<Rightarrow> u64 \<Rightarrow> 'c registry \<Rightarrow> 'c registry" where
  "set_client_thread client thread r =
     (case clients r client of
        None \<Rightarrow> r
      | Some desc \<Rightarrow>
          let old = desc_thread desc;
              r = r\<lparr>clients := (clients r)(client \<mapsto> desc\<lparr>desc_thread := Some thread\<rparr>)\<rparr>;
              r = remove_from_thread client old r
          in r\<lparr>by_thread := sm_insert thread client (by_thread r),
               need_init := sm_insert thread client (need_init r)\<rparr>)"

text \<open>
  The drainer is the caller's closure on the clients that need a feed initialisation; its own
  state is returned with the snapshot.
\<close>

definition snapshot_threads ::
  "((u64, u64) set_map \<Rightarrow> 'p \<times> (u64, u64) set_map) \<Rightarrow> 'c registry \<Rightarrow>
     'p \<times> (u64 set \<times> (u64, u64) set_map) \<times> 'c registry" where
  "snapshot_threads drainer r =
     (case drainer (need_init r) of
        (p, ni) \<Rightarrow> (p, (dom (clients r), by_thread r), r\<lparr>need_init := ni\<rparr>))"

section \<open>Invariant\<close>

text \<open>
  Both indexes hold exactly what the descriptors say, and only clients that are on a thread
  wait for its initialisation message.
\<close>

definition thread_pairs :: "'c registry \<Rightarrow> (u64 \<times> u64) set" where
  "thread_pairs r = {(t, c). \<exists>d. clients r c = Some d \<and> desc_thread d = Some t}"

definition key_pairs :: "'c registry \<Rightarrow> (u64 \<times> u64) set" where
  "key_pairs r = {(k, c). \<exists>d. clients r c = Some d \<and> desc_pub_key d = Some k}"

definition reg_inv :: "'c registry \<Rightarrow> bool" where
  "reg_inv r \<longleftrightarrow>
     finite (dom (clients r)) \<and> sm_wf (by_thread r) \<and> sm_wf (by_pub_key r) \<and> sm_wf (need_init r) \<and>
     sm_rel (by_thread r) = thread_pairs r \<and> sm_rel (by_pub_key r) = key_pairs r \<and>
     sm_rel (need_init r) \<subseteq> thread_pairs r"

text \<open>
  The steps of the registry: the server numbers its connections uniquely, sets the key of a
  client once, and its drainer only takes waiting clients out.
\<close>

inductive reg_step :: "'c registry \<Rightarrow> 'c registry \<Rightarrow> bool" where
  add: "clients r cid = None \<Longrightarrow> reg_step r (add_client cid c r)"
| remove: "reg_step r (remove_client cid r)"
| key: "(\<And>d. clients r cid = Some d \<Longrightarrow> desc_pub_key d = None) \<Longrightarrow>
    reg_step r (set_client_key cid k r)"
| thread: "reg_step r (set_client_thread cid t r)"
| snapshot: "sm_wf ni \<Longrightarrow> sm_rel ni \<subseteq> sm_rel (need_init r) \<Longrightarrow>
    reg_step r (snd (snd (snapshot_threads (\<lambda>m. ((), ni)) r)))"

inductive reg_reachable :: "'c registry \<Rightarrow> bool" where
  start: "reg_reachable registry_default"
| step: "reg_reachable r \<Longrightarrow> reg_step r r' \<Longrightarrow> reg_reachable r'"

lemmas sm_specs = sm.rel_ins sm.rel_del sm.wf_ins sm.wf_del

lemma reg_inv_default: "reg_inv registry_default"
  by (simp add: reg_inv_def registry_default_def thread_pairs_def key_pairs_def sm.rel_empty
      sm.wf_empty)

lemma reg_inv_add: "reg_inv r \<Longrightarrow> clients r cid = None \<Longrightarrow> reg_inv (add_client cid c r)"
proof -
  assume "reg_inv r" "clients r cid = None"
  then have "thread_pairs (add_client cid c r) = thread_pairs r"
    "key_pairs (add_client cid c r) = key_pairs r"
    by (auto simp: add_client_def client_descriptor_new_def thread_pairs_def key_pairs_def)
  with \<open>reg_inv r\<close> show ?thesis by (simp add: reg_inv_def add_client_def)
qed

lemma remove_from_thread_frame [simp]:
  "clients (remove_from_thread c t r) = clients r"
  "by_pub_key (remove_from_thread c t r) = by_pub_key r"
  by (simp_all add: remove_from_thread_def split: option.splits)

lemma remove_from_thread_rel:
  "sm_rel (by_thread (remove_from_thread c t r)) = sm_rel (by_thread r) - {(k, c) | k. t = Some k}"
  "sm_rel (need_init (remove_from_thread c t r)) = sm_rel (need_init r) - {(k, c) | k. t = Some k}"
  by (auto simp: remove_from_thread_def sm_specs split: option.splits)

lemma remove_from_thread_wf:
  "sm_wf (by_thread r) \<Longrightarrow> sm_wf (by_thread (remove_from_thread c t r))"
  "sm_wf (need_init r) \<Longrightarrow> sm_wf (need_init (remove_from_thread c t r))"
  by (simp_all add: remove_from_thread_def sm_specs split: option.splits)

lemma reg_inv_key:
  assumes "reg_inv r" and "\<And>d. clients r cid = Some d \<Longrightarrow> desc_pub_key d = None"
  shows "reg_inv (set_client_key cid k r)"
proof (cases "clients r cid")
  case None
  with assms show ?thesis by (simp add: set_client_key_def)
next
  case (Some d)
  let ?r = "set_client_key cid k r"
  have "thread_pairs ?r = thread_pairs r" "key_pairs ?r = insert (k, cid) (key_pairs r)"
    using Some assms(2) by (auto simp: set_client_key_def thread_pairs_def key_pairs_def)
  with Some assms(1) show ?thesis
    by (simp add: reg_inv_def set_client_key_def sm_specs)
qed

lemma reg_inv_thread:
  assumes "reg_inv r"
  shows "reg_inv (set_client_thread cid t r)"
proof (cases "clients r cid")
  case None
  with assms show ?thesis by (simp add: set_client_thread_def)
next
  case (Some d)
  let ?r = "set_client_thread cid t r"
  have tp: "thread_pairs ?r = insert (t, cid) (thread_pairs r - {(k, cid) | k. desc_thread d = Some k})"
    and kp: "key_pairs ?r = key_pairs r"
    using Some by (auto simp: set_client_thread_def Let_def thread_pairs_def key_pairs_def)
  have "finite (dom (clients ?r))" "sm_wf (by_pub_key ?r)" "sm_rel (by_pub_key ?r) = key_pairs ?r"
    using Some assms by (simp_all add: reg_inv_def set_client_thread_def Let_def flip: kp)
  moreover have "sm_wf (by_thread ?r)" "sm_wf (need_init ?r)"
    using Some assms
    by (simp_all add: reg_inv_def set_client_thread_def Let_def sm_specs remove_from_thread_wf)
  moreover have "sm_rel (by_thread ?r) = thread_pairs ?r" "sm_rel (need_init ?r) \<subseteq> thread_pairs ?r"
    using Some assms unfolding tp
    by (auto simp: reg_inv_def set_client_thread_def Let_def sm_specs remove_from_thread_rel)
  ultimately show ?thesis by (simp add: reg_inv_def)
qed

lemma reg_inv_remove:
  assumes "reg_inv r"
  shows "reg_inv (remove_client cid r)"
proof (cases "clients r cid")
  case None
  with assms show ?thesis by (simp add: remove_client_def)
next
  case (Some d)
  let ?r = "remove_client cid r"
  have tp: "thread_pairs ?r = thread_pairs r - {(k, cid) | k. desc_thread d = Some k}"
    and kp: "key_pairs ?r = key_pairs r - {(k, cid) | k. desc_pub_key d = Some k}"
    using Some
    by (auto simp: remove_client_def Let_def thread_pairs_def key_pairs_def split: option.splits
        if_splits)
  have "finite (dom (clients ?r))"
    using Some assms by (simp add: reg_inv_def remove_client_def Let_def split: option.splits)
  moreover have "sm_wf (by_pub_key ?r)" "sm_rel (by_pub_key ?r) = key_pairs ?r"
    using Some assms unfolding kp
    by (auto simp: reg_inv_def remove_client_def Let_def sm_specs split: option.splits)
  moreover have "sm_wf (by_thread ?r)" "sm_wf (need_init ?r)"
    using Some assms
    by (auto simp: reg_inv_def remove_client_def Let_def remove_from_thread_wf split: option.splits)
  moreover have "sm_rel (by_thread ?r) = thread_pairs ?r" "sm_rel (need_init ?r) \<subseteq> thread_pairs ?r"
    using Some assms unfolding tp
    by (auto simp: reg_inv_def remove_client_def Let_def remove_from_thread_rel split: option.splits)
  ultimately show ?thesis by (simp add: reg_inv_def)
qed

lemma reg_inv_snapshot:
  assumes "reg_inv r" "sm_wf (snd (drainer (need_init r)))"
    "sm_rel (snd (drainer (need_init r))) \<subseteq> sm_rel (need_init r)"
  shows "reg_inv (snd (snd (snapshot_threads drainer r)))"
  using assms
  by (auto simp: reg_inv_def snapshot_threads_def thread_pairs_def key_pairs_def split: prod.splits)

lemma reg_step_inv: "reg_step r r' \<Longrightarrow> reg_inv r \<Longrightarrow> reg_inv r'"
proof (induction rule: reg_step.induct)
  case (snapshot ni r)
  then show ?case by (intro reg_inv_snapshot) simp_all
qed (auto intro: reg_inv_add reg_inv_remove reg_inv_key reg_inv_thread)

lemma reg_reachable_inv: "reg_reachable r \<Longrightarrow> reg_inv r"
  by (induction rule: reg_reachable.induct) (auto intro: reg_inv_default reg_step_inv)

section \<open>Properties\<close>

lemma reg_inv_get_thread:
  "reg_inv r \<Longrightarrow> sm_get (by_thread r) t =
     (if \<exists>c. (t, c) \<in> thread_pairs r then Some {c. (t, c) \<in> thread_pairs r} else None)"
  by (auto simp: sm_get_rel reg_inv_def)

text \<open>
  C4: the indexes never drift from the descriptors. In every state the registry can reach, the
  clients found for a thread are exactly the registered clients synced to it, those found for
  a key exactly the ones that authenticated with it, and a client waits for the initialisation
  of a feed only while it is registered on that feed.
\<close>

theorem registry_indexes_exact:
  assumes "reg_reachable r"
  shows "(sm_get (by_thread r) t =
            (let cs = {c. \<exists>d. clients r c = Some d \<and> desc_thread d = Some t}
             in if cs = {} then None else Some cs)) \<and>
         (sm_get (by_pub_key r) k =
            (let cs = {c. \<exists>d. clients r c = Some d \<and> desc_pub_key d = Some k}
             in if cs = {} then None else Some cs)) \<and>
         (\<forall>s. sm_get (need_init r) t = Some s \<longrightarrow>
            (\<forall>c \<in> s. \<exists>d. clients r c = Some d \<and> desc_thread d = Some t))"
proof -
  have inv: "reg_inv r"
    by (rule reg_reachable_inv [OF assms])
  show ?thesis
    using inv
    by (auto simp: reg_inv_def sm_get_rel thread_pairs_def key_pairs_def Let_def subset_iff
        split: if_splits)
qed

theorem registry_indexes_exact_witness:
  "let r = set_client_thread 5 9 (set_client_key 5 77 (add_client 5 (0::nat) registry_default)) in
   (sm_get (by_thread r) 9 =
      (let cs = {c. \<exists>d. clients r c = Some d \<and> desc_thread d = Some 9}
       in if cs = {} then None else Some cs)) \<and>
   (sm_get (by_pub_key r) 77 =
      (let cs = {c. \<exists>d. clients r c = Some d \<and> desc_pub_key d = Some 77}
       in if cs = {} then None else Some cs)) \<and>
   (\<forall>s. sm_get (need_init r) 9 = Some s \<longrightarrow>
      (\<forall>c \<in> s. \<exists>d. clients r c = Some d \<and> desc_thread d = Some 9))"
proof -
  have "reg_reachable (add_client 5 (0::nat) registry_default)"
    by (rule reg_reachable.step [OF reg_reachable.start reg_step.add])
      (simp add: registry_default_def)
  then have "reg_reachable (set_client_key 5 77 (add_client 5 (0::nat) registry_default))"
    by (rule reg_reachable.step [OF _ reg_step.key])
      (simp add: registry_default_def add_client_def client_descriptor_new_def)
  then have "reg_reachable
      (set_client_thread 5 9 (set_client_key 5 77 (add_client 5 (0::nat) registry_default)))"
    by (rule reg_reachable.step [OF _ reg_step.thread])
  then show ?thesis
    unfolding Let_def using registry_indexes_exact [unfolded Let_def] by blast
qed

text \<open>
  Switching threads moves a client. After \<open>set_client_thread\<close> a registered client is
  found under the new thread and waits for its initialisation message, is found under no other
  thread, waits for no other, and all other clients are where they were.
\<close>

theorem set_client_thread_moves:
  assumes "reg_inv r" "clients r c = Some d"
  shows "let r' = set_client_thread c t r in
         (\<forall>t'. (t', c) \<in> sm_rel (by_thread r') \<longleftrightarrow> t' = t) \<and>
         (\<forall>t'. (t', c) \<in> sm_rel (need_init r') \<longleftrightarrow> t' = t) \<and>
         (\<forall>t' c'. c' \<noteq> c \<longrightarrow> ((t', c') \<in> sm_rel (by_thread r') \<longleftrightarrow> (t', c') \<in> sm_rel (by_thread r)) \<and>
            ((t', c') \<in> sm_rel (need_init r') \<longleftrightarrow> (t', c') \<in> sm_rel (need_init r))) \<and>
         sm_rel (by_pub_key r') = sm_rel (by_pub_key r)"
proof -
  have old: "(t', c) \<in> sm_rel (by_thread r) \<longleftrightarrow> desc_thread d = Some t'"
    "(t', c) \<in> sm_rel (need_init r) \<Longrightarrow> desc_thread d = Some t'" for t'
    using assms by (force simp: reg_inv_def thread_pairs_def)+
  show ?thesis
    using assms(2)
    by (auto simp: Let_def set_client_thread_def sm_specs remove_from_thread_rel old dest: old(2))
qed

theorem set_client_thread_moves_witness:
  "let r = set_client_thread 5 9 (add_client 5 (0::nat) registry_default);
       r' = set_client_thread 5 3 r in
   (\<forall>t'. (t', 5) \<in> sm_rel (by_thread r') \<longleftrightarrow> t' = 3) \<and>
   (\<forall>t'. (t', 5) \<in> sm_rel (need_init r') \<longleftrightarrow> t' = 3) \<and>
   (\<forall>t' c'. c' \<noteq> 5 \<longrightarrow> ((t', c') \<in> sm_rel (by_thread r') \<longleftrightarrow> (t', c') \<in> sm_rel (by_thread r)) \<and>
      ((t', c') \<in> sm_rel (need_init r') \<longleftrightarrow> (t', c') \<in> sm_rel (need_init r))) \<and>
   sm_rel (by_pub_key r') = sm_rel (by_pub_key r)"
proof -
  have "reg_inv (set_client_thread 5 9 (add_client 5 (0::nat) registry_default))"
    by (intro reg_inv_thread reg_inv_add reg_inv_default) (simp add: registry_default_def)
  moreover have "clients (set_client_thread 5 9 (add_client 5 (0::nat) registry_default)) 5 =
      Some \<lparr>desc_thread = Some 9, desc_pub_key = None, desc_client = 0\<rparr>"
    by (simp add: set_client_thread_def add_client_def client_descriptor_new_def Let_def)
  ultimately show ?thesis
    unfolding Let_def by (rule set_client_thread_moves [unfolded Let_def])
qed

text \<open>
  A removed client leaves no trace. After \<open>remove_client\<close> the client is in no index and
  cannot be looked up, so no later message is addressed to it; the others stay.
\<close>

theorem remove_client_leaves_no_trace:
  assumes "reg_inv r"
  shows "let r' = remove_client c r in
         get_client c r' = None \<and>
         (\<forall>k. (k, c) \<notin> sm_rel (by_thread r') \<and> (k, c) \<notin> sm_rel (need_init r') \<and>
              (k, c) \<notin> sm_rel (by_pub_key r')) \<and>
         (\<forall>c'. c' \<noteq> c \<longrightarrow> get_client c' r' = get_client c' r)"
proof -
  have inv: "reg_inv (remove_client c r)"
    by (rule reg_inv_remove [OF assms])
  have gone: "clients (remove_client c r) = (clients r)(c := None)"
    by (cases "clients r c") (auto simp: remove_client_def Let_def split: option.splits)
  have "(k, c) \<notin> thread_pairs (remove_client c r)" "(k, c) \<notin> key_pairs (remove_client c r)" for k
    by (simp_all add: thread_pairs_def key_pairs_def gone)
  moreover from this inv have "(k, c) \<notin> sm_rel (need_init (remove_client c r))" for k
    unfolding reg_inv_def by blast
  ultimately show ?thesis
    using inv by (simp add: Let_def reg_inv_def get_client_def gone)
qed

theorem remove_client_leaves_no_trace_witness:
  "let r = set_client_thread 5 9 (add_client 5 (0::nat) registry_default);
       r' = remove_client 5 r in
   get_client 5 r' = None \<and>
   (\<forall>k. (k, 5) \<notin> sm_rel (by_thread r') \<and> (k, 5) \<notin> sm_rel (need_init r') \<and>
        (k, 5) \<notin> sm_rel (by_pub_key r')) \<and>
   (\<forall>c'. c' \<noteq> 5 \<longrightarrow> get_client c' r' = get_client c' r)"
proof -
  have "reg_inv (set_client_thread 5 9 (add_client 5 (0::nat) registry_default))"
    by (intro reg_inv_thread reg_inv_add reg_inv_default) (simp add: registry_default_def)
  then show ?thesis
    unfolding Let_def by (rule remove_client_leaves_no_trace [unfolded Let_def])
qed

end
