(* ===== verification/Time_Queue.thy ===== *)
theory Time_Queue
  imports Prelude
begin

text \<open>
  The min-queue behind the timer agent, \<^verbatim>\<open>client/src/time/queue.rs\<close>: a singly linked list
  kept in order of the elements. The comparison of the element type (its \<^verbatim>\<open>PartialOrd\<close>) and
  the removal key (its \<^verbatim>\<open>PartialEq\<close> with an element) are arguments. The interface
  \<open>min_queue\<close> says what a client may rely on.
\<close>

section \<open>Operations\<close>

text \<open>
  \<^verbatim>\<open>Option<Box<Node<T>>>\<close> is a list: \<^verbatim>\<open>None\<close> is the empty list and a node with its
  \<^verbatim>\<open>next\<close> is a cons cell.
\<close>

type_synonym 'a queue = "'a list"

definition queue_default :: "'a queue" where
  "queue_default = []"

fun insert_before :: "('a \<Rightarrow> 'a \<Rightarrow> bool) \<Rightarrow> 'a \<Rightarrow> 'a queue \<Rightarrow> 'a queue" where
  "insert_before lt val [] = [val]"
| "insert_before lt val (cur # nxt) =
     (if lt val cur then val # cur # nxt else cur # insert_before lt val nxt)"

fun queue_remove :: "('a \<Rightarrow> bool) \<Rightarrow> 'a queue \<Rightarrow> 'a queue" where
  "queue_remove key [] = []"
| "queue_remove key (cur # nxt) = (if key cur then nxt else cur # queue_remove key nxt)"

definition queue_peek :: "'a queue \<Rightarrow> 'a option" where
  "queue_peek q = (case q of [] \<Rightarrow> None | n # _ \<Rightarrow> Some n)"

definition queue_pop :: "'a queue \<Rightarrow> 'a option \<times> 'a queue" where
  "queue_pop q = (case q of [] \<Rightarrow> (None, []) | n # nxt \<Rightarrow> (Some n, nxt))"

text \<open>
  The iterator is the node it stands on. \<open>iter_next\<close> returns the value of that node and sets
  the current node to \<^verbatim>\<open>n.into()\<close>, that is to the same node.
\<close>

definition queue_iter :: "'a queue \<Rightarrow> 'a queue" where
  "queue_iter q = q"

definition iter_next :: "'a queue \<Rightarrow> 'a option \<times> 'a queue" where
  "iter_next cur = (case cur of [] \<Rightarrow> (None, []) | n # nxt \<Rightarrow> (Some n, n # nxt))"

text \<open>A \<^verbatim>\<open>for\<close> loop over the iterator; \<open>None\<close> when it never ends.\<close>

partial_function (option) iter_for :: "('a \<Rightarrow> 's \<Rightarrow> 's) \<Rightarrow> 'a queue \<Rightarrow> 's \<Rightarrow> 's option" where
  "iter_for body cur s =
     (case iter_next cur of
        (None, _) \<Rightarrow> Some s
      | (Some v, cur') \<Rightarrow> iter_for body cur' (body v s))"

text \<open>What \<open>n\<close> calls of \<open>pop\<close> return, up to the first \<^verbatim>\<open>None\<close>.\<close>

primrec pops :: "('q \<Rightarrow> 'a option \<times> 'q) \<Rightarrow> nat \<Rightarrow> 'q \<Rightarrow> 'a list" where
  "pops pop 0 q = []"
| "pops pop (Suc n) q =
     (case fst (pop q) of None \<Rightarrow> [] | Some x \<Rightarrow> x # pops pop n (snd (pop q)))"

section \<open>Interface of a min-queue\<close>

text \<open>
  Elements are ordered by a rank. \<open>contents\<close> is the abstraction of a queue: the multiset of its
  elements. The client lemma says that popping repeatedly delivers the contents by rank.
\<close>

locale min_queue =
  fixes rank :: "'a \<Rightarrow> 'k::linorder"
    and valid :: "'q \<Rightarrow> bool"
    and contents :: "'q \<Rightarrow> 'a multiset"
    and empty :: 'q
    and ins :: "'a \<Rightarrow> 'q \<Rightarrow> 'q"
    and del :: "('a \<Rightarrow> bool) \<Rightarrow> 'q \<Rightarrow> 'q"
    and peek :: "'q \<Rightarrow> 'a option"
    and pop :: "'q \<Rightarrow> 'a option \<times> 'q"
  assumes valid_empty: "valid empty" and contents_empty: "contents empty = {#}"
    and valid_ins: "valid q \<Longrightarrow> valid (ins x q)"
    and contents_ins: "contents (ins x q) = add_mset x (contents q)"
    and valid_del: "valid q \<Longrightarrow> valid (del p q)"
    and contents_del_none: "(\<forall>x \<in># contents q. \<not> p x) \<Longrightarrow> contents (del p q) = contents q"
    and contents_del_some: "x \<in># contents q \<Longrightarrow> p x \<Longrightarrow>
      \<exists>y \<in># contents q. p y \<and> contents (del p q) = contents q - {#y#}"
    and peek_pop: "peek q = fst (pop q)"
    and pop_none: "fst (pop q) = None \<longleftrightarrow> contents q = {#}"
    and pop_contents: "fst (pop q) = Some x \<Longrightarrow> contents q = add_mset x (contents (snd (pop q)))"
    and pop_min: "valid q \<Longrightarrow> fst (pop q) = Some x \<Longrightarrow> y \<in># contents q \<Longrightarrow> rank x \<le> rank y"
    and valid_pop: "valid q \<Longrightarrow> valid (snd (pop q))"
begin

lemma peek_none: "peek q = None \<longleftrightarrow> contents q = {#}"
  by (simp add: peek_pop pop_none)

lemma peek_late:
  assumes "valid q" "peek q = Some x" "t < rank x" "y \<in># contents q"
  shows "t < rank y"
  using assms pop_min [of q x y] by (auto simp: peek_pop)

lemma pop_size: "fst (pop q) = Some x \<Longrightarrow> size (contents (snd (pop q))) < size (contents q)"
  by (simp add: pop_contents)

text \<open>A key that matches one element removes that element and nothing else.\<close>

lemma contents_del_unique:
  assumes "contents q = add_mset x m" "p x" "\<forall>y \<in># m. \<not> p y"
  shows "contents (del p q) = m"
proof -
  obtain y where "y \<in># contents q" "p y" "contents (del p q) = contents q - {#y#}"
    using contents_del_some [of x q p] assms(1,2) by (metis union_single_eq_member)
  with assms have "y = x" by auto
  with \<open>contents (del p q) = contents q - {#y#}\<close> assms(1) show ?thesis by simp
qed

lemma pops_contents: "size (contents q) \<le> n \<Longrightarrow> mset (pops pop n q) = contents q"
proof (induction n arbitrary: q)
  case (Suc n)
  show ?case
  proof (cases "fst (pop q)")
    case None
    then show ?thesis using pop_none [of q] by simp
  next
    case (Some x)
    with Suc pop_contents [OF Some] show ?thesis by simp
  qed
qed simp

lemma pops_sub: "set (pops pop n q) \<subseteq> set_mset (contents q)"
proof (induction n arbitrary: q)
  case (Suc n)
  show ?case
  proof (cases "fst (pop q)")
    case (Some x)
    with Suc [of "snd (pop q)"] pop_contents [OF Some] show ?thesis by auto
  qed simp
qed simp

lemma pops_sorted: "valid q \<Longrightarrow> sorted (map rank (pops pop n q))"
proof (induction n arbitrary: q)
  case (Suc n)
  show ?case
  proof (cases "fst (pop q)")
    case None
    then show ?thesis by simp
  next
    case (Some x)
    have "rank x \<le> rank y" if "y \<in> set (pops pop n (snd (pop q)))" for y
      using that pops_sub [of n "snd (pop q)"] pop_min [OF Suc.prems Some, of y]
      by (auto simp: pop_contents [OF Some])
    with Some Suc.IH [OF valid_pop [OF Suc.prems]] show ?thesis by simp
  qed
qed simp

end

section \<open>The list implements the interface\<close>

text \<open>For an order given by a rank the queue is the list of its elements in order of rank.\<close>

abbreviation rank_less :: "('a \<Rightarrow> 'k::linorder) \<Rightarrow> 'a \<Rightarrow> 'a \<Rightarrow> bool" where
  "rank_less rank \<equiv> \<lambda>a b. rank a < rank b"

abbreviation ranked :: "('a \<Rightarrow> 'k::linorder) \<Rightarrow> 'a queue \<Rightarrow> bool" where
  "ranked rank q \<equiv> sorted (map rank q)"

lemma mset_insert_before [simp]: "mset (insert_before lt x q) = add_mset x (mset q)"
  by (induction q) auto

lemma set_insert_before [simp]: "set (insert_before lt x q) = insert x (set q)"
  by (induction q) auto

lemma ranked_insert_before: "ranked rank q \<Longrightarrow> ranked rank (insert_before (rank_less rank) x q)"
  by (induction q) (auto simp: not_less intro: order_trans)

lemma queue_remove_insert_before:
  "\<forall>y \<in> set q. \<not> p y \<Longrightarrow> p x \<Longrightarrow> queue_remove p (insert_before lt x q) = q"
  by (induction q) auto

lemma set_queue_remove: "set (queue_remove p q) \<subseteq> set q"
  by (induction q) auto

lemma ranked_queue_remove: "ranked rank q \<Longrightarrow> ranked rank (queue_remove p q)"
  by (induction q) (auto dest: set_queue_remove [THEN subsetD])

lemma queue_remove_none: "\<forall>x \<in> set q. \<not> p x \<Longrightarrow> queue_remove p q = q"
  by (induction q) auto

lemma mset_queue_remove:
  "x \<in> set q \<Longrightarrow> p x \<Longrightarrow> \<exists>y \<in> set q. p y \<and> mset (queue_remove p q) = mset q - {#y#}"
proof (induction q)
  case (Cons a q)
  show ?case
  proof (cases "p a")
    case False
    with Cons obtain y where "y \<in> set q" "p y" "mset (queue_remove p q) = mset q - {#y#}" by auto
    with False show ?thesis by (intro bexI [of _ y]) auto
  qed simp
qed simp

text \<open>Equal ranks leave in the order they came: a new element goes behind its equals.\<close>

lemma insert_before_append:
  "\<forall>y \<in> set q. rank y \<le> rank x \<Longrightarrow> insert_before (rank_less rank) x q = q @ [x]"
  by (induction q) auto

interpretation tq: min_queue rank "ranked rank" mset queue_default
    "insert_before (rank_less rank)" queue_remove queue_peek queue_pop
  for rank :: "'a \<Rightarrow> 'k::linorder"
proof
  fix q :: "'a queue" and p x
  assume "x \<in># mset q" "p x"
  then show "\<exists>y \<in># mset q. p y \<and> mset (queue_remove p q) = mset q - {#y#}"
    using mset_queue_remove [of x q p] by simp
qed (auto simp: queue_default_def queue_remove_none ranked_insert_before ranked_queue_remove
    queue_peek_def queue_pop_def split: list.splits)

lemma filter_insert_before:
  "ranked rank q \<Longrightarrow> filter (\<lambda>y. k = rank y) (insert_before (rank_less rank) x q) =
     filter (\<lambda>y. k = rank y) q @ (if k = rank x then [x] else [])"
proof (induction q)
  case (Cons a q)
  show ?case
  proof (cases "rank x < rank a")
    case True
    with Cons.prems have "filter (\<lambda>y. rank x = rank y) (a # q) = []"
      by (auto simp: filter_empty_conv)
    with True show ?thesis by (cases "k = rank x") simp_all
  next
    case False
    with Cons show ?thesis by (cases "k = rank x") auto
  qed
qed simp

lemma fold_insert_before:
  fixes xs q
  assumes "ranked rank q"
  defines "q' \<equiv> fold (insert_before (rank_less rank)) xs q"
  shows "ranked rank q'" "mset q' = mset q + mset xs"
    "filter (\<lambda>y. k = rank y) q' = filter (\<lambda>y. k = rank y) q @ filter (\<lambda>y. k = rank y) xs"
  using assms(1) unfolding q'_def
  by (induction xs arbitrary: q) (simp_all add: ranked_insert_before filter_insert_before)

lemma pops_queue_pop: "pops queue_pop (length q) q = q"
  by (induction q) (simp_all add: queue_pop_def)

text \<open>
  C12: the timer queue is a stable min-queue. Whatever is inserted into an empty queue leaves it
  complete and in order of its rank: popping returns the stable sort of what was inserted, and
  removing by a key that matches only the last inserted element undoes that insertion.
\<close>

theorem queue_pops_stable_sort:
  assumes "\<forall>y \<in> set xs. \<not> p y" "p x"
  shows "let q = fold (insert_before (rank_less rank)) xs queue_default;
             q' = queue_remove p (insert_before (rank_less rank) x q) in
         pops queue_pop (length xs) q = sort_key rank xs \<and> q' = q"
proof -
  let ?q = "fold (insert_before (rank_less rank)) xs queue_default"
  have q: "ranked rank ?q" "mset ?q = mset xs"
    "filter (\<lambda>y. k = rank y) ?q = filter (\<lambda>y. k = rank y) xs" for k
    using fold_insert_before [of rank queue_default] by (simp_all add: queue_default_def)
  then have "sort_key rank xs = ?q"
    by (intro properties_for_sort_key) simp_all
  moreover have "length ?q = length xs"
    using q(2) by (metis size_mset)
  moreover have "\<forall>y \<in> set ?q. \<not> p y"
    using assms(1) q(2) by (metis set_mset_mset)
  then have "queue_remove p (insert_before (rank_less rank) x ?q) = ?q"
    using assms(2) by (simp add: queue_remove_insert_before)
  ultimately show ?thesis
    using pops_queue_pop [of ?q] by (simp add: Let_def)
qed

theorem queue_pops_stable_sort_witness:
  "let q = fold (insert_before (rank_less fst)) [(5, ''a''), (3, ''b''), (5::nat, ''c'')] queue_default;
       q' = queue_remove (\<lambda>y. snd y = ''d'') (insert_before (rank_less fst) (4, ''d'') q) in
   pops queue_pop (length [(5::nat, ''a''), (3, ''b''), (5, ''c'')]) q =
     sort_key fst [(5, ''a''), (3, ''b''), (5, ''c'')] \<and> q' = q"
  by (rule queue_pops_stable_sort) simp_all

lemma iter_for_Some:
  assumes "iter_for body cur s = Some s'"
  shows "cur = []"
  by (rule iter_for.raw_induct [where P = "\<lambda>_ cur _ _. cur = []", OF _ assms])
    (auto simp: iter_next_def split: list.splits)

lemma iter_for_queue: "iter_for body (queue_iter q) s = (if q = [] then Some s else None)"
proof (cases "q = []")
  case True
  then show ?thesis by (simp add: queue_iter_def iter_for.simps [of body "[]"] iter_next_def)
next
  case False
  then show ?thesis
    using iter_for_Some [of body q s] by (cases "iter_for body q s") (auto simp: queue_iter_def)
qed

end
