(* ===== verification/Scheduler.thy ===== *)
theory Scheduler
  imports Time_Queue
begin

text \<open>
  The timer agent of the client, \<^verbatim>\<open>client/src/time/scheduler.rs\<close>, and the state of the timer
  component that subscribes to it, \<^verbatim>\<open>client/src/time/view.rs\<close>. The agent keeps one pending tick
  per subscriber in the timer queue. The wall clock and the option store are inputs of the
  handlers; the responses the agent sends are part of a handler's result. Arithmetic on
  \<^verbatim>\<open>u32\<close> wraps, as in the release build.
\<close>

section \<open>Relative time\<close>

datatype time_unit = Seconds | Minutes | Hours | Days | Months | Years

definition UNITS :: "(time_unit \<times> u8) list" where
  "UNITS = [(Seconds, 60), (Minutes, 60), (Hours, 24), (Days, 30), (Months, 12)]"

record relative_time =
  is_future :: bool
  duration :: u8
  unit_of :: time_unit

definition relative_time_default :: relative_time where
  "relative_time_default = \<lparr>is_future = False, duration = 0, unit_of = Seconds\<rparr>"

text \<open>The loop over the units: the first unit the remaining time fits into.\<close>

fun pick_unit :: "(time_unit \<times> u8) list \<Rightarrow> int \<Rightarrow> int \<times> time_unit" where
  "pick_unit [] time = (time, Years)"
| "pick_unit ((u, mx) # us) time =
     (if time < uint mx then (time, u) else pick_unit us (time div uint mx))"

definition relative_time_new :: "u32 \<Rightarrow> u32 \<Rightarrow> relative_time" where
  "relative_time_new now val =
     (let time = uint now - uint val;
          (time, future) = (if time < 0 then (- time, True) else (time, False));
          (time, unit) = pick_unit UNITS time
      in \<lparr>is_future = future, duration = word_of_int time, unit_of = unit\<rparr>)"

section \<open>Ticks\<close>

type_synonym handler_id = nat

record tick =
  tick_id :: handler_id
  tick_val :: u32
  pending_on :: u32
  tick_diff :: relative_time

definition tick_new :: "handler_id \<Rightarrow> u32 \<Rightarrow> u32 \<Rightarrow> tick" where
  "tick_new hid val now =
     \<lparr>tick_id = hid, tick_val = val, pending_on = now, tick_diff = relative_time_new now val\<rparr>"

fun tick_divisor :: "(time_unit \<times> u8) list \<Rightarrow> time_unit \<Rightarrow> u32 \<Rightarrow> u32" where
  "tick_divisor [] u d = d"
| "tick_divisor ((unit, mx) # us) u d = (if u = unit then d else tick_divisor us u (d * ucast mx))"

definition set_next_tick :: "u32 \<Rightarrow> tick \<Rightarrow> tick" where
  "set_next_tick now t =
     (let divisor = tick_divisor UNITS (unit_of (tick_diff t)) 1;
          now = now - now mod divisor + divisor
      in t\<lparr>tick_diff := relative_time_new now (tick_val t), pending_on := now\<rparr>)"

text \<open>\<^verbatim>\<open>PartialOrd for Tick\<close> compares the pending times.\<close>

abbreviation tick_less :: "tick \<Rightarrow> tick \<Rightarrow> bool" where
  "tick_less \<equiv> rank_less pending_on"

section \<open>The agent\<close>

record response =
  resp_diff :: relative_time
  resp_relative :: bool

datatype request = Register u32 | ChangeTimestamp u32

text \<open>A message of the agent, with the clock or the option value it reads when handled.\<close>

datatype sched_message = TickMsg u32 | OptionsChange bool

record scheduler =
  use_relative :: bool
  sched_now :: u32
  sched_queue :: "tick queue"

type_synonym sent = "(handler_id \<times> response) list"

definition sched_create :: "u32 \<Rightarrow> bool \<Rightarrow> scheduler" where
  "sched_create now rel = \<lparr>use_relative = rel, sched_now = now, sched_queue = queue_default\<rparr>"

definition sched_send :: "scheduler \<Rightarrow> tick \<Rightarrow> handler_id \<times> response" where
  "sched_send s t = (tick_id t, \<lparr>resp_diff = tick_diff t, resp_relative = use_relative s\<rparr>)"

definition refresh_tick :: "tick \<Rightarrow> scheduler \<Rightarrow> scheduler \<times> sent" where
  "refresh_tick t s =
     (s\<lparr>sched_queue := insert_before tick_less (set_next_tick (sched_now s) t) (sched_queue s)\<rparr>,
      [sched_send s t])"

definition sched_remove :: "handler_id \<Rightarrow> scheduler \<Rightarrow> scheduler" where
  "sched_remove hid s = s\<lparr>sched_queue := queue_remove (\<lambda>t. hid = tick_id t) (sched_queue s)\<rparr>"

text \<open>The loop of a clock tick, \<open>None\<close> when it does not end.\<close>

partial_function (option) run_due :: "scheduler \<Rightarrow> sent \<Rightarrow> (scheduler \<times> sent) option" where
  "run_due s out =
     (case queue_peek (sched_queue s) of
        None \<Rightarrow> Some (s, out)
      | Some peeking \<Rightarrow>
          if pending_on peeking > sched_now s then Some (s, out)
          else (case queue_pop (sched_queue s) of
                  (None, q) \<Rightarrow> Some (s, out)
                | (Some t, q) \<Rightarrow>
                    let (s', o') = refresh_tick t (s\<lparr>sched_queue := q\<rparr>)
                    in run_due s' (out @ o')))"

definition sched_update :: "sched_message \<Rightarrow> scheduler \<Rightarrow> (scheduler \<times> sent) option" where
  "sched_update msg s =
     (case msg of
        OptionsChange new \<Rightarrow>
          if new = use_relative s then Some (s, [])
          else let s = s\<lparr>use_relative := new\<rparr> in
            map_option (Pair s)
              (iter_for (\<lambda>t out. out @ [sched_send s t]) (queue_iter (sched_queue s)) [])
      | TickMsg now \<Rightarrow> run_due (s\<lparr>sched_now := now\<rparr>) [])"

definition sched_handle_input :: "request \<Rightarrow> handler_id \<Rightarrow> scheduler \<Rightarrow> scheduler \<times> sent" where
  "sched_handle_input req hid s =
     (case req of
        Register time \<Rightarrow> refresh_tick (tick_new hid time (sched_now s)) s
      | ChangeTimestamp time \<Rightarrow>
          let s = sched_remove hid s
          in refresh_tick (tick_new hid time (sched_now s)) s)"

definition sched_disconnected :: "handler_id \<Rightarrow> scheduler \<Rightarrow> scheduler" where
  "sched_disconnected hid s = sched_remove hid s"

section \<open>The subscribing component\<close>

record time_view =
  view_time :: u32
  view_current :: response

definition response_default :: response where
  "response_default = \<lparr>resp_diff = relative_time_default, resp_relative = False\<rparr>"

definition view_create :: "u32 \<Rightarrow> time_view \<times> request list" where
  "view_create time = (\<lparr>view_time = time, view_current = response_default\<rparr>, [Register time])"

definition view_update :: "response \<Rightarrow> time_view \<Rightarrow> time_view \<times> bool" where
  "view_update new v = (v\<lparr>view_current := new\<rparr>, True)"

definition view_change :: "u32 \<Rightarrow> time_view \<Rightarrow> time_view \<times> request list \<times> bool" where
  "view_change time v =
     (if view_time v \<noteq> time then (v\<lparr>view_time := time\<rparr>, [ChangeTimestamp time], True)
      else (v, [], False))"

section \<open>Relative times are exact\<close>

fun unit_seconds :: "time_unit \<Rightarrow> nat" where
  "unit_seconds Seconds = 1"
| "unit_seconds Minutes = 60"
| "unit_seconds Hours = 3600"
| "unit_seconds Days = 86400"
| "unit_seconds Months = 2592000"
| "unit_seconds Years = 31104000"

text \<open>The duration the loop computes, written with the seconds of its unit.\<close>

lemma pick_unit_UNITS:
  assumes "0 \<le> time" "time < 2 ^ 32" "pick_unit UNITS time = (n, u)"
  shows "n = time div int (unit_seconds u) \<and> 0 \<le> n \<and> n < 139"
proof -
  have d: "time div 60 div 60 = time div 3600" "time div 3600 div 24 = time div 86400"
    "time div 86400 div 30 = time div 2592000" "time div 2592000 div 12 = time div 31104000"
    by (simp_all add: zdiv_zmult2_eq [symmetric])
  from assms show ?thesis
    by (auto simp: UNITS_def d split: if_splits)
qed

lemma word8_small: "0 \<le> n \<Longrightarrow> n < 139 \<Longrightarrow> uint (word_of_int n :: u8) = n"
  by (simp add: uint_word_of_int)

text \<open>
  C11: the relative time shown is exact. The duration in the chosen unit is the distance of the
  two times rounded down, it always fits its byte, and the sign tells which time is later.
\<close>

theorem relative_time_exact:
  "let r = relative_time_new now val; d = nat \<bar>uint now - uint val\<bar> in
   unat (duration r) = d div unit_seconds (unit_of r) \<and>
   unat (duration r) < 139 \<and> (is_future r \<longleftrightarrow> now < val)"
proof -
  define t where "t = \<bar>uint now - uint val\<bar>"
  obtain n u where nu: "pick_unit UNITS t = (n, u)" by (cases "pick_unit UNITS t")
  have "uint now < 2 ^ 32" "uint val < 2 ^ 32" "0 \<le> uint now" "0 \<le> uint val"
    using uint_lt2p [of now] uint_lt2p [of val] by simp_all
  then have t: "0 \<le> t" "t < 2 ^ 32" unfolding t_def by linarith+
  from pick_unit_UNITS [OF this nu] have n: "n = t div int (unit_seconds u)" "0 \<le> n" "n < 139"
    by simp_all
  have "relative_time_new now val = \<lparr>is_future = (now < val), duration = word_of_int n, unit_of = u\<rparr>"
    using nu unfolding relative_time_new_def t_def
    by (auto simp: Let_def word_less_def abs_if split: if_splits)
  moreover have "unat (word_of_int n :: u8) = nat t div unit_seconds u"
    using n t word8_small [of n] by (simp add: unat_eq_nat_uint nat_div_distrib)
  moreover have "unat (word_of_int n :: u8) < 139"
    using n word8_small [of n] by (simp add: unat_eq_nat_uint)
  ultimately show ?thesis by (simp add: Let_def t_def)
qed

section \<open>The next tick\<close>

lemma unat_divisor: "unat (tick_divisor UNITS u 1) = unit_seconds u"
  by (cases u) (simp_all add: UNITS_def)

lemma unit_seconds_bound: "0 < unit_seconds u" "unit_seconds u \<le> 31104000"
  by (cases u; simp)+

text \<open>
  The clock of a running agent: far enough from the end of the \<^verbatim>\<open>u32\<close> range that a year can be
  added.
\<close>

definition clock_ok :: "u32 \<Rightarrow> bool" where
  "clock_ok now \<longleftrightarrow> unat now + 31104000 < 2 ^ 32"

lemma unat_next_tick:
  assumes "clock_ok now"
  shows "unat (now - now mod tick_divisor UNITS u 1 + tick_divisor UNITS u 1) =
    unat now - unat now mod unit_seconds u + unit_seconds u"
proof -
  let ?d = "tick_divisor UNITS u 1"
  have "unat (now - now mod ?d) = unat now - unat now mod unit_seconds u"
    by (simp add: unat_sub_if_size unat_mod_distrib unat_divisor)
  moreover have "unat now - unat now mod unit_seconds u + unit_seconds u < 2 ^ 32"
    using assms unit_seconds_bound [of u] by (simp add: clock_ok_def)
  ultimately show ?thesis
    by (simp add: unat_word_ariths(1) unat_divisor)
qed

lemma set_next_tick_simps [simp]:
  "tick_id (set_next_tick now t) = tick_id t"
  "tick_val (set_next_tick now t) = tick_val t"
  "tick_diff (set_next_tick now t) =
     relative_time_new (pending_on (set_next_tick now t)) (tick_val t)"
  by (simp_all add: set_next_tick_def Let_def)

lemma unat_pending_on:
  "clock_ok now \<Longrightarrow> unat (pending_on (set_next_tick now t)) =
     unat now - unat now mod unit_seconds (unit_of (tick_diff t)) + unit_seconds (unit_of (tick_diff t))"
  by (simp add: set_next_tick_def Let_def unat_next_tick)

lemma next_multiple:
  fixes n d :: nat
  assumes "0 < d"
  shows "n < n - n mod d + d" "n - n mod d + d \<le> n + d" "d dvd n - n mod d + d"
proof -
  have "n mod d < d" "n mod d \<le> n"
    using assms by simp_all
  then show "n < n - n mod d + d" by linarith
  show "d dvd n - n mod d + d"
    by (intro dvd_add dvd_minus_mod) simp
qed simp

lemma pending_on_later: "clock_ok now \<Longrightarrow> now < pending_on (set_next_tick now t)"
  by (simp only: word_less_nat_alt unat_pending_on next_multiple(1) [OF unit_seconds_bound(1)])

text \<open>
  A refreshed tick is due within one unit. Its new time is the next multiple of its unit
  after the present one, at most one unit away, and the value it will send is the relative time
  at that moment.
\<close>

theorem set_next_tick_sound:
  assumes "clock_ok now"
  shows "let t' = set_next_tick now t; unit = unit_seconds (unit_of (tick_diff t)) in
         now < pending_on t' \<and> unat (pending_on t') \<le> unat now + unit \<and>
         unit dvd unat (pending_on t') \<and>
         tick_diff t' = relative_time_new (pending_on t') (tick_val t')"
  unfolding Let_def unat_pending_on [OF assms]
  using pending_on_later [OF assms] next_multiple(2,3) [OF unit_seconds_bound(1)] by simp

theorem set_next_tick_sound_witness:
  "let t' = set_next_tick 100 (tick_new 1 30 100); unit = unit_seconds (unit_of (tick_diff (tick_new 1 30 100))) in
   100 < pending_on t' \<and> unat (pending_on t') \<le> unat (100 :: u32) + unit \<and>
   unit dvd unat (pending_on t') \<and>
   tick_diff t' = relative_time_new (pending_on t') (tick_val t')"
  by (rule set_next_tick_sound) (simp add: clock_ok_def)

section \<open>The agent's loop\<close>

abbreviation due :: "u32 \<Rightarrow> tick \<Rightarrow> bool" where
  "due now t \<equiv> pending_on t \<le> now"

lemma split_insert_before:
  assumes "\<not> due now t"
  shows "takeWhile (due now) (insert_before tick_less t q) = takeWhile (due now) q"
    and "dropWhile (due now) (insert_before tick_less t q) =
           insert_before tick_less t (dropWhile (due now) q)"
  using assms by (induction q) auto

lemma run_due_eq:
  assumes "clock_ok (sched_now s)"
  shows "run_due s out =
     Some (s\<lparr>sched_queue := fold (insert_before tick_less)
              (map (set_next_tick (sched_now s)) (takeWhile (due (sched_now s)) (sched_queue s)))
              (dropWhile (due (sched_now s)) (sched_queue s))\<rparr>,
           out @ map (sched_send s) (takeWhile (due (sched_now s)) (sched_queue s)))"
  using assms
proof (induction "takeWhile (due (sched_now s)) (sched_queue s)" arbitrary: s out)
  case Nil
  then have "sched_queue s = [] \<or> (\<exists>t q. sched_queue s = t # q \<and> \<not> due (sched_now s) t)"
    by (cases "sched_queue s") (auto split: if_splits)
  then show ?case
    by (subst run_due.simps) (auto simp: queue_peek_def not_le)
next
  case (Cons t ds)
  then obtain q where q: "sched_queue s = t # q" and t: "due (sched_now s) t"
    and ds: "ds = takeWhile (due (sched_now s)) q"
    by (cases "sched_queue s") (auto split: if_splits)
  let ?t = "set_next_tick (sched_now s) t"
  let ?s = "s\<lparr>sched_queue := insert_before tick_less ?t q\<rparr>"
  have late: "\<not> due (sched_now s) ?t"
    using pending_on_later [OF Cons.prems] by (simp add: not_le)
  have "run_due s out = run_due ?s (out @ [sched_send s t])"
    using q t by (subst run_due.simps)
      (simp add: queue_peek_def queue_pop_def refresh_tick_def sched_send_def leD)
  also have "\<dots> = Some (?s\<lparr>sched_queue := fold (insert_before tick_less)
      (map (set_next_tick (sched_now ?s)) (takeWhile (due (sched_now ?s)) (sched_queue ?s)))
      (dropWhile (due (sched_now ?s)) (sched_queue ?s))\<rparr>,
      (out @ [sched_send s t]) @ map (sched_send ?s) (takeWhile (due (sched_now ?s)) (sched_queue ?s)))"
    using Cons.prems ds by (intro Cons.hyps(1)) (simp_all add: split_insert_before(1) [OF late])
  also have "map (sched_send ?s) xs = map (sched_send s) xs" for xs
    by (simp add: sched_send_def)
  finally show ?case
    using q t by (simp add: split_insert_before [OF late])
qed

section \<open>Subscriptions\<close>

text \<open>
  The abstract state of the agent: which handlers are subscribed with which timestamp. Its
  invariant: the queue is in order, no handler has two ticks, every tick is in the future and
  carries the relative time of the moment it is pending on.
\<close>

definition subs :: "scheduler \<Rightarrow> handler_id \<rightharpoonup> u32" where
  "subs s = map_of (map (\<lambda>t. (tick_id t, tick_val t)) (sched_queue s))"

definition tick_ok :: "u32 \<Rightarrow> tick \<Rightarrow> bool" where
  "tick_ok now t \<longleftrightarrow> now < pending_on t \<and> tick_diff t = relative_time_new (pending_on t) (tick_val t)"

definition sched_inv :: "scheduler \<Rightarrow> bool" where
  "sched_inv s \<longleftrightarrow> clock_ok (sched_now s) \<and> ranked pending_on (sched_queue s) \<and>
     distinct (map tick_id (sched_queue s)) \<and> list_all (tick_ok (sched_now s)) (sched_queue s)"

lemma sched_inv_create: "clock_ok now \<Longrightarrow> sched_inv (sched_create now rel)"
  by (simp add: sched_inv_def sched_create_def queue_default_def)

lemma tick_ok_set_next: "clock_ok now \<Longrightarrow> tick_ok now (set_next_tick now t)"
  by (simp add: tick_ok_def pending_on_later)

lemma map_of_insert_before:
  "tick_id t \<notin> tick_id ` set q \<Longrightarrow>
   map_of (map (\<lambda>t. (tick_id t, tick_val t)) (insert_before lt t q)) =
     (map_of (map (\<lambda>t. (tick_id t, tick_val t)) q))(tick_id t \<mapsto> tick_val t)"
  by (induction q) (auto simp: fun_upd_twist)

lemma distinct_insert_before:
  "distinct (map tick_id q) \<Longrightarrow> tick_id t \<notin> tick_id ` set q \<Longrightarrow>
   distinct (map tick_id (insert_before lt t q))"
  by (induction q) auto

lemma subs_dom: "dom (subs s) = tick_id ` set (sched_queue s)"
  by (simp add: subs_def dom_map_of_conv_image_fst image_image)

text \<open>Refreshing a tick whose handler has none subscribes it.\<close>

lemma refresh_tick_step:
  assumes "sched_inv s" "tick_id t \<notin> dom (subs s)"
  defines "s' \<equiv> fst (refresh_tick t s)"
  shows "sched_inv s'" "subs s' = (subs s)(tick_id t \<mapsto> tick_val t)"
proof -
  have new: "tick_id (set_next_tick (sched_now s) t) \<notin> tick_id ` set (sched_queue s)"
    using assms(2) by (simp add: subs_dom)
  show "sched_inv s'"
    using assms(1) new unfolding s'_def
    by (simp add: sched_inv_def refresh_tick_def ranked_insert_before distinct_insert_before
        tick_ok_set_next list_all_iff)
  show "subs s' = (subs s)(tick_id t \<mapsto> tick_val t)"
    using map_of_insert_before [OF new] unfolding s'_def by (simp add: subs_def refresh_tick_def)
qed

lemma distinct_queue_remove:
  "distinct (map tick_id q) \<Longrightarrow> distinct (map tick_id (queue_remove p q))"
  by (induction q) (auto dest: set_queue_remove [THEN subsetD])

lemma map_of_queue_remove:
  "distinct (map tick_id q) \<Longrightarrow>
   map_of (map (\<lambda>t. (tick_id t, tick_val t)) (queue_remove (\<lambda>t. hid = tick_id t) q)) =
     (map_of (map (\<lambda>t. (tick_id t, tick_val t)) q))(hid := None)"
proof (induction q)
  case (Cons a q)
  then have "map_of (map (\<lambda>t. (tick_id t, tick_val t)) q) (tick_id a) = None"
    by (auto simp: map_of_eq_None_iff image_image)
  with Cons show ?case by (auto simp: fun_upd_twist fun_upd_idem)
qed (simp add: fun_eq_iff)

lemma sched_remove_step:
  assumes "sched_inv s"
  shows "sched_inv (sched_remove hid s)" "subs (sched_remove hid s) = (subs s)(hid := None)"
  using assms
  by (auto simp: sched_inv_def sched_remove_def subs_def ranked_queue_remove distinct_queue_remove
      map_of_queue_remove list_all_iff dest: set_queue_remove [THEN subsetD])

lemma split_due:
  assumes "ranked pending_on q"
  shows "takeWhile (due now) q = filter (due now) q"
    and "dropWhile (due now) q = filter (\<lambda>t. \<not> due now t) q"
proof (atomize (full), use assms in \<open>induction q\<close>)
  case (Cons a q)
  have "filter (due now) q = []" "filter (\<lambda>t. \<not> due now t) q = q" if "\<not> due now a"
    using Cons.prems that by (auto simp: filter_empty_conv filter_id_conv)
  with Cons show ?case by auto
qed simp

lemma subs_cong:
  assumes "distinct (map tick_id q)"
    "mset (map (\<lambda>t. (tick_id t, tick_val t)) q) = mset (map (\<lambda>t. (tick_id t, tick_val t)) q')"
  shows "distinct (map tick_id q') \<and>
    map_of (map (\<lambda>t. (tick_id t, tick_val t)) q) = map_of (map (\<lambda>t. (tick_id t, tick_val t)) q')"
proof -
  have "mset (map tick_id q) = mset (map tick_id q')"
    using arg_cong [OF assms(2), of "image_mset fst"] by (simp add: image_mset.compositionality o_def)
  then have d: "distinct (map tick_id q')"
    using assms(1) mset_eq_imp_distinct_iff by blast
  show ?thesis
    using d assms(1) mset_eq_setD [OF assms(2)] by (simp add: map_of_inject_set o_def)
qed

text \<open>What a clock tick does: the due ticks are answered and queued again, the others stay.\<close>

lemma tick_update_eq:
  assumes "sched_inv s" "clock_ok now"
  defines "q' \<equiv> fold (insert_before tick_less)
      (map (set_next_tick now) (filter (due now) (sched_queue s)))
      (filter (\<lambda>t. \<not> due now t) (sched_queue s))"
  shows "sched_update (TickMsg now) s =
    Some (s\<lparr>sched_now := now, sched_queue := q'\<rparr>, map (sched_send s) (filter (due now) (sched_queue s)))"
    and "sched_inv (s\<lparr>sched_now := now, sched_queue := q'\<rparr>)"
    and "subs (s\<lparr>sched_now := now, sched_queue := q'\<rparr>) = subs s"
proof -
  let ?d = "filter (due now) (sched_queue s)" and ?r = "filter (\<lambda>t. \<not> due now t) (sched_queue s)"
  have r: "ranked pending_on (sched_queue s)" and d: "distinct (map tick_id (sched_queue s))"
    and ok: "\<forall>t \<in> set (sched_queue s). tick_ok (sched_now s) t"
    using assms(1) by (simp_all add: sched_inv_def list_all_iff)
  have send: "sched_send (s\<lparr>sched_now := now\<rparr>) = sched_send s"
    by (simp add: fun_eq_iff sched_send_def)
  show "sched_update (TickMsg now) s = Some (s\<lparr>sched_now := now, sched_queue := q'\<rparr>, map (sched_send s) ?d)"
    using assms(2) split_due [OF r] unfolding q'_def
    by (simp add: sched_update_def run_due_eq send)
  have q': "ranked pending_on q'" "mset q' = mset ?r + mset (map (set_next_tick now) ?d)"
    using fold_insert_before [of pending_on ?r] sorted_filter [OF r] unfolding q'_def by simp_all
  have "mset (map (\<lambda>t. (tick_id t, tick_val t)) q') =
      image_mset (\<lambda>t. (tick_id t, tick_val t)) (mset ?r) +
      image_mset (\<lambda>t. (tick_id t, tick_val t)) (mset ?d)"
    by (simp only: mset_map q'(2) image_mset_union) (simp add: image_mset.compositionality o_def)
  also have "\<dots> = image_mset (\<lambda>t. (tick_id t, tick_val t)) (mset (sched_queue s))"
    unfolding mset_filter image_mset_union [symmetric]
    by (subst (3) multiset_partition [of _ "due now"]) (simp only: add.commute)
  finally have "mset (map (\<lambda>t. (tick_id t, tick_val t)) q') =
      mset (map (\<lambda>t. (tick_id t, tick_val t)) (sched_queue s))"
    by (simp only: mset_map)
  then have same: "distinct (map tick_id q') \<and>
      map_of (map (\<lambda>t. (tick_id t, tick_val t)) (sched_queue s)) =
      map_of (map (\<lambda>t. (tick_id t, tick_val t)) q')"
    by (intro subs_cong [OF d]) (rule sym)
  then show "subs (s\<lparr>sched_now := now, sched_queue := q'\<rparr>) = subs s"
    by (simp add: subs_def)
  have "set q' = set ?r \<union> set (map (set_next_tick now) ?d)"
    using mset_eq_setD [of q' "?r @ map (set_next_tick now) ?d"] q'(2) by simp
  then have "list_all (tick_ok now) q'"
    using ok tick_ok_set_next [OF assms(2)] by (auto simp: list_all_iff tick_ok_def not_le)
  with same q'(1) assms(2) show "sched_inv (s\<lparr>sched_now := now, sched_queue := q'\<rparr>)"
    by (simp add: sched_inv_def)
qed

text \<open>
  C10: a clock tick always finishes and answers exactly the subscribers that are due. The loop
  ends, the responses are those of the ticks pending at or before the new time, in queue order
  and one each, and afterwards every tick is later than the clock.
\<close>

theorem tick_answers_due:
  assumes "sched_inv s" "clock_ok now"
  shows "\<exists>s'. sched_update (TickMsg now) s =
           Some (s', map (sched_send s) (filter (due now) (sched_queue s))) \<and>
         sched_now s' = now \<and> list_all (\<lambda>t. now < pending_on t) (sched_queue s') \<and>
         subs s' = subs s"
  using tick_update_eq [OF assms]
  by (force simp: sched_inv_def tick_ok_def list_all_iff)

theorem tick_answers_due_witness:
  "\<exists>s'. sched_update (TickMsg 130) (fst (sched_handle_input (Register 30) 7 (sched_create 100 True))) =
        Some (s', map (sched_send (fst (sched_handle_input (Register 30) 7 (sched_create 100 True))))
          (filter (due 130) (sched_queue (fst (sched_handle_input (Register 30) 7 (sched_create 100 True)))))) \<and>
      sched_now s' = 130 \<and> list_all (\<lambda>t. 130 < pending_on t) (sched_queue s') \<and>
      subs s' = subs (fst (sched_handle_input (Register 30) 7 (sched_create 100 True)))"
proof (rule tick_answers_due)
  show "sched_inv (fst (sched_handle_input (Register 30) 7 (sched_create 100 True)))"
    unfolding sched_handle_input_def request.case
    by (intro refresh_tick_step sched_inv_create)
      (simp_all add: clock_ok_def subs_def sched_create_def queue_default_def)
qed (simp add: clock_ok_def)

section \<open>Refinement of the subscription table\<close>

datatype sched_event = Input request handler_id | Disconnected handler_id | Message sched_message

fun sched_react :: "sched_event \<Rightarrow> scheduler \<Rightarrow> (scheduler \<times> sent) option" where
  "sched_react (Input req hid) s = Some (sched_handle_input req hid s)"
| "sched_react (Disconnected hid) s = Some (sched_disconnected hid s, [])"
| "sched_react (Message msg) s = sched_update msg s"

fun subs_spec :: "sched_event \<Rightarrow> (handler_id \<rightharpoonup> u32) \<Rightarrow> (handler_id \<rightharpoonup> u32)" where
  "subs_spec (Input (Register time) hid) m = m(hid \<mapsto> time)"
| "subs_spec (Input (ChangeTimestamp time) hid) m = m(hid \<mapsto> time)"
| "subs_spec (Disconnected hid) m = m(hid := None)"
| "subs_spec (Message msg) m = m"

text \<open>
  A handler registers once, the clock is in range, and the option does not change while there
  are subscribers.
\<close>

fun sched_allowed :: "sched_event \<Rightarrow> scheduler \<Rightarrow> bool" where
  "sched_allowed (Input (Register time) hid) s \<longleftrightarrow> subs s hid = None"
| "sched_allowed (Message (TickMsg now)) s \<longleftrightarrow> clock_ok now"
| "sched_allowed (Message (OptionsChange new)) s \<longleftrightarrow> new = use_relative s \<or> sched_queue s = []"
| "sched_allowed e s \<longleftrightarrow> True"



text \<open>
  C13: changing the option hangs the agent. When relative timestamps are switched while a timer
  is subscribed, the handler never returns; otherwise it does.
\<close>

theorem options_change_hangs_iff:
  "sched_update (OptionsChange new) s = None \<longleftrightarrow> new \<noteq> use_relative s \<and> sched_queue s \<noteq> []"
  by (simp add: sched_update_def Let_def iter_for_queue)

end
