(* ===== verification/Body_Words.thy ===== *)
theory Body_Words
  imports Rust_Str Payloads
begin

text \<open>
  Parsing of the words of a post body, \<^verbatim>\<open>websockets/websockets/src/body/\<close>: hash commands
  (\<^verbatim>\<open>commands.rs\<close>), post links with their location cache and references (\<^verbatim>\<open>links.rs\<close>),
  URLs and embeds (\<^verbatim>\<open>urls.rs\<close>) and the fragment parser that cuts a line into words
  (\<^verbatim>\<open>fragment.rs\<close>). Third-party code and the database are the fields of \<open>parse_env\<close>.
\<close>

section \<open>Results and strings\<close>

text \<open>A parser returns an error string or panics.\<close>

datatype parse_error = Err string | Panic

text \<open>The position of the first occurrence of a pattern, \<^verbatim>\<open>str::find\<close>.\<close>

fun find_str :: "string \<Rightarrow> string \<Rightarrow> nat option" where
  "find_str pat [] = (if pat = [] then Some 0 else None)"
| "find_str pat (c # cs) =
     (if take (length pat) (c # cs) = pat then Some 0 else map_option Suc (find_str pat cs))"

definition starts_with :: "string \<Rightarrow> string \<Rightarrow> bool" where
  "starts_with s pre \<longleftrightarrow> take (length pre) s = pre"

definition ends_with :: "string \<Rightarrow> string \<Rightarrow> bool" where
  "ends_with s post \<longleftrightarrow> length post \<le> length s \<and> drop (length s - length post) s = post"

text \<open>\<^verbatim>\<open>str::split\<close> on a character: one more piece than there are separators.\<close>

fun split_char :: "char \<Rightarrow> string \<Rightarrow> string list" where
  "split_char sep [] = [[]]"
| "split_char sep (c # cs) =
     (if c = sep then [] # split_char sep cs
      else case split_char sep cs of
             [] \<Rightarrow> [[c]]
           | w # ws \<Rightarrow> (c # w) # ws)"

text \<open>
  \<^verbatim>\<open>&s[i..j]\<close>, which panics when the range is not inside the string or cuts a character.
\<close>

definition str_slice :: "string \<Rightarrow> nat \<Rightarrow> nat \<Rightarrow> string option" where
  "str_slice s i j =
     (if i \<le> j \<and> j \<le> length s \<and> at_boundary (drop i s) \<and> at_boundary (drop j s)
      then Some (take (j - i) (drop i s)) else None)"

text \<open>\<^verbatim>\<open>FromStr\<close> of the integer types: an optional sign and decimal digits in range.\<close>

definition is_digit :: "char \<Rightarrow> bool" where
  "is_digit c \<longleftrightarrow> (of_char c :: nat) \<in> {48..57}"

definition parse_digits :: "string \<Rightarrow> nat option" where
  "parse_digits s =
     (if s \<noteq> [] \<and> list_all is_digit s
      then Some (foldl (\<lambda>n c. 10 * n + (of_char c - 48)) 0 s) else None)"

definition strip_plus :: "string \<Rightarrow> string" where
  "strip_plus s = (if s \<noteq> [] \<and> hd s = CHR ''+'' then tl s else s)"

definition parse_unsigned :: "string \<Rightarrow> ('w::len word) option" where
  "parse_unsigned s =
     (case parse_digits (strip_plus s) of
        None \<Rightarrow> None
      | Some n \<Rightarrow> if int n < 2 ^ LENGTH('w) then Some (of_nat n) else None)"

definition parse_signed :: "string \<Rightarrow> ('w::len word) option" where
  "parse_signed s =
     (if s \<noteq> [] \<and> hd s = CHR ''-'' then
        (case parse_digits (tl s) of
           None \<Rightarrow> None
         | Some n \<Rightarrow> if int n \<le> 2 ^ (LENGTH('w) - 1) then Some (- of_nat n) else None)
      else
        (case parse_digits (strip_plus s) of
           None \<Rightarrow> None
         | Some n \<Rightarrow> if int n < 2 ^ (LENGTH('w) - 1) then Some (of_nat n) else None))"

section \<open>Flags and environment\<close>

definition OPEN :: u8 where "OPEN = 1"

definition QUOTED :: u8 where "QUOTED = 2"

definition AT_LINE_START :: u8 where "AT_LINE_START = 4"

definition COUNTDOWN_PREFIX :: string where "COUNTDOWN_PREFIX = ''countdown''"

definition AUTOBAHN_PREFIX :: string where "AUTOBAHN_PREFIX = ''autobahn''"

text \<open>
  The environment of a parse: the syntax highlighter (a token is known to it or not; a known one
  renders lines), HTML escaping, URL parsing, the compiled embed patterns (whether one matches
  and what its first group captures), the configured references and the database lookup of a
  post's thread and page.
\<close>

record parse_env =
  highlighter :: "string \<Rightarrow> (string list \<Rightarrow> string) option"
  html_escape :: "string \<Rightarrow> string + string"
  url_ok :: "string \<Rightarrow> bool"
  pattern_match :: "embed_provider \<Rightarrow> string \<Rightarrow> bool"
  pattern_capture :: "embed_provider \<Rightarrow> string \<Rightarrow> string option"
  config_links :: "string \<Rightarrow> string option"
  get_post_parenthood :: "u64 \<Rightarrow> string + (u64 \<times> u32) option"

section \<open>Hash commands\<close>

definition parse_argument_command ::
  "string \<Rightarrow> string \<Rightarrow> 'a \<Rightarrow> (string \<Rightarrow> 'a option) \<Rightarrow> ('a \<Rightarrow> pending_node) \<Rightarrow> node option" where
  "parse_argument_command word prefix def from_str gen =
     (let wrap = (\<lambda>val. Pending (gen val)); arg = drop (length prefix) word in
      if arg = [] then Some (wrap def)
      else if starts_with arg ''('' \<and> ends_with arg '')'' then
        map_option wrap (from_str (take (length arg - 2) (drop 1 arg)))
      else None)"

definition parse_countdown :: "string \<Rightarrow> node option" where
  "parse_countdown word = parse_argument_command word COUNTDOWN_PREFIX 10 parse_unsigned PCountdown"

definition parse_autobahn :: "string \<Rightarrow> node option" where
  "parse_autobahn word = parse_argument_command word AUTOBAHN_PREFIX 2 parse_unsigned PAutobahn"

text \<open>
  The fields are evaluated in the order of the source: rolls, faces, offset. \<open>sign_pos\<close> is
  relative to the text after the \<open>d\<close>, but is used as a position in the word.
\<close>

definition parse_dice :: "string \<Rightarrow> parse_error + node option" where
  "parse_dice word =
     (case find_str ''d'' word of
        None \<Rightarrow> Inr None
      | Some d_pos \<Rightarrow>
          let sign_pos = position (\<lambda>c. c = CHR ''+'' \<or> c = CHR ''-'') (drop (d_pos + 1) word) in
          case (if d_pos = 0 then Some 1
                else case (parse_unsigned (take d_pos word) :: u8 option) of
                       None \<Rightarrow> None
                     | Some r \<Rightarrow> if r > 10 then None else Some r) of
            None \<Rightarrow> Inr None
          | Some rolls \<Rightarrow>
              (case str_slice word (d_pos + 1) (case sign_pos of None \<Rightarrow> length word | Some i \<Rightarrow> i) of
                 None \<Rightarrow> Inl Panic
               | Some fs \<Rightarrow>
                   (case parse_unsigned fs of
                      None \<Rightarrow> Inr None
                    | Some faces \<Rightarrow>
                        (case sign_pos of
                           None \<Rightarrow> Inr (Some (Pending (PDice 0 faces rolls)))
                         | Some i \<Rightarrow>
                             (case str_slice word i (length word) of
                                None \<Rightarrow> Inl Panic
                              | Some os \<Rightarrow>
                                  (case parse_signed os of
                                     None \<Rightarrow> Inr None
                                   | Some offset \<Rightarrow> Inr (Some (Pending (PDice offset faces rolls)))))))))"

section \<open>Post locations\<close>

datatype post_loc = NotFetched | DoesNotExist | Exists (loc_thread: u64) (loc_page: u32)

type_synonym location_cache = "u64 \<rightharpoonup> post_loc"

text \<open>
  A lookup under an uncontended lock. The default location of a new cache entry is
  \<open>NotFetched\<close>; a failed database lookup leaves it so.
\<close>

definition post_location ::
  "parse_env \<Rightarrow> u64 \<Rightarrow> bool \<Rightarrow> location_cache \<Rightarrow> (parse_error + post_loc) \<times> location_cache" where
  "post_location env pid fetch c =
     (let c = (if c pid = None then c(pid \<mapsto> NotFetched) else c);
          loc = (case c pid of None \<Rightarrow> NotFetched | Some l \<Rightarrow> l) in
      if loc = NotFetched \<and> fetch then
        (case get_post_parenthood env pid of
           Inr (Some (thread, page)) \<Rightarrow> (Inr (Exists thread page), c(pid \<mapsto> Exists thread page))
         | Inr None \<Rightarrow> (Inr DoesNotExist, c(pid \<mapsto> DoesNotExist))
         | Inl e \<Rightarrow> (Inl (Err e), c))
      else (Inr loc, c))"

definition cache_location :: "u64 \<Rightarrow> u64 \<Rightarrow> u32 \<Rightarrow> location_cache \<Rightarrow> location_cache" where
  "cache_location pid thread page c = c(pid \<mapsto> Exists thread page)"

section \<open>Links\<close>

type_synonym 'a parser = "location_cache \<Rightarrow> (parse_error + 'a) \<times> location_cache"

definition preturn :: "parse_error + 'a \<Rightarrow> 'a parser" where
  "preturn r c = (r, c)"

definition prepend_extra_gt :: "node \<Rightarrow> nat \<Rightarrow> node" where
  "prepend_extra_gt n extra_gt =
     (if extra_gt > 0 then Siblings (Text (replicate extra_gt CHR ''>'')) n else n)"

definition parse_post_link :: "parse_env \<Rightarrow> string \<Rightarrow> u8 \<Rightarrow> nat \<Rightarrow> node option parser" where
  "parse_post_link env word flags extra_gt c =
     (case parse_unsigned (drop (2 + extra_gt) word) of
        None \<Rightarrow> (Inr None, c)
      | Some pid \<Rightarrow>
          (case post_location env pid (flags AND OPEN = 0) c of
             (Inl e, c) \<Rightarrow> (Inl e, c)
           | (Inr loc, c) \<Rightarrow>
               (Inr (map_option (\<lambda>n. prepend_extra_gt n extra_gt)
                  (case loc of
                     DoesNotExist \<Rightarrow> None
                   | NotFetched \<Rightarrow> Some (PostLink \<lparr>pl_id = pid, pl_thread = 0, pl_page = 0\<rparr>)
                   | Exists thread page \<Rightarrow>
                       Some (PostLink \<lparr>pl_id = pid, pl_thread = thread, pl_page = page\<rparr>))), c)))"

text \<open>
  The subtraction of positions wraps at the width of \<^verbatim>\<open>usize\<close>; \<open>end\<close> is relative to
  \<open>start\<close>, but is used as a position in the word.
\<close>

definition usize_sub :: "nat \<Rightarrow> nat \<Rightarrow> u64" where
  "usize_sub a b = of_nat a - of_nat b"

definition parse_reference :: "parse_env \<Rightarrow> string \<Rightarrow> nat \<Rightarrow> parse_error + node option" where
  "parse_reference env word extra_gt =
     (if extra_gt = 0 then Inr None
      else
        let extra_gt = extra_gt - 1 in
        case find_str ''/'' word of
          None \<Rightarrow> Inr None
        | Some slash \<Rightarrow>
            let start = slash + 1 in
            case find_str ''/'' (drop start word) of
              None \<Rightarrow> Inr None
            | Some end' \<Rightarrow>
                if usize_sub end' start \<le> 1 \<or> end' \<noteq> length word - 1 then Inr None
                else
                  (case str_slice word start end' of
                     None \<Rightarrow> Inl Panic
                   | Some lnk \<Rightarrow>
                       Inr (map_option (\<lambda>u. prepend_extra_gt (Reference lnk u) extra_gt)
                              (config_links env lnk))))"

fun link_loop :: "parse_env \<Rightarrow> string \<Rightarrow> u8 \<Rightarrow> string \<Rightarrow> nat \<Rightarrow> node option parser" where
  "link_loop env word flags [] extra_gt = preturn (Inr None)"
| "link_loop env word flags (c # cs) extra_gt =
     (if c = CHR ''>'' then link_loop env word flags cs (extra_gt + 1)
      else if is_digit c then parse_post_link env word flags extra_gt
      else if c = CHR ''/'' then preturn (parse_reference env word extra_gt)
      else preturn (Inr None))"

definition parse_link :: "parse_env \<Rightarrow> string \<Rightarrow> u8 \<Rightarrow> node option parser" where
  "parse_link env word flags =
     (if \<not> starts_with word ''>>'' then preturn (Inr None)
      else link_loop env word flags (drop 2 word) 0)"

section \<open>URLs\<close>

definition PATTERNS :: "embed_provider list" where
  "PATTERNS = [YouTube, Twitter, Imgur, SoundCloud, Vimeo, Coub, BitChute, Invidious]"

definition parse_http_url :: "parse_env \<Rightarrow> string \<Rightarrow> u8 \<Rightarrow> node option" where
  "parse_http_url env word flags =
     (if \<not> url_ok env word then None
      else
        let emb =
          (if flags AND OPEN = 0 then
             (case find (\<lambda>prov. pattern_match env prov word) PATTERNS of
                None \<Rightarrow> None
              | Some prov \<Rightarrow>
                  if prov = BitChute \<or> prov = Invidious then
                    map_option (\<lambda>cap. Embed \<lparr>provider = prov, embed_data = cap\<rparr>)
                      (pattern_capture env prov word)
                  else Some (Embed \<lparr>provider = prov, embed_data = word\<rparr>))
           else None)
        in (case emb of None \<Rightarrow> Some (URL word) | Some n \<Rightarrow> Some n))"

section \<open>Fragments\<close>

definition is_punctuation :: "char \<Rightarrow> bool" where
  "is_punctuation b \<longleftrightarrow> b \<in> set ''!\"'(),-.:;?[]''"

text \<open>The sentinel \<^verbatim>\<open>0 as char\<close> stands for no punctuation.\<close>

definition NUL :: char where "NUL = CHR 0x00"

definition split_punctuation :: "string \<Rightarrow> char \<times> string \<times> char" where
  "split_punctuation word =
     (if length word < 2 then (NUL, word, NUL)
      else
        let (lead, w) = (if is_punctuation (hd word) then (hd word, tl word) else (NUL, word)) in
        if length w < 2 then (lead, w, NUL)
        else if is_punctuation (last w) then (lead, butlast w, last w)
        else (lead, w, NUL))"

text \<open>A hash command of a closed, unquoted fragment.\<close>

definition parse_command :: "string \<Rightarrow> parse_error + node option" where
  "parse_command comm =
     (if comm = ''flip'' then Inr (Some (Pending PFlip))
      else if comm = ''8ball'' then Inr (Some (Pending PEightBall))
      else if comm = ''pyu'' then Inr (Some (Pending PPyu))
      else if comm = ''pcount'' then Inr (Some (Pending PPCount))
      else if starts_with comm COUNTDOWN_PREFIX then Inr (parse_countdown comm)
      else if starts_with comm AUTOBAHN_PREFIX then Inr (parse_autobahn comm)
      else parse_dice comm)"

text \<open>
  A word that begins with neither \<open>#\<close> nor \<open>>\<close>: a URL or nothing, and the text to put before
  it, one \<open>>\<close> more than the word has leading ones.
\<close>

definition parse_plain_word :: "parse_env \<Rightarrow> string \<Rightarrow> u8 \<Rightarrow> node option \<times> string" where
  "parse_plain_word env word flags =
     (case position (\<lambda>c. c \<noteq> CHR ''>'') word of
        None \<Rightarrow> (None, [])
      | Some start \<Rightarrow>
          let word = drop start word;
              n = (if starts_with word ''http'' then parse_http_url env word flags
                   else if list_ex (starts_with word) [''magnet:?'', ''ftp'', ''bitcoin''] then
                     (if url_ok env word then Some (URL word) else None)
                   else None)
          in (n, if n = None then [] else replicate (start + 1) CHR ''>''))"

definition parse_word :: "parse_env \<Rightarrow> string \<Rightarrow> u8 \<Rightarrow> (node option \<times> string) parser" where
  "parse_word env word flags c =
     (if hd word = CHR ''#'' then
        ((if flags AND (QUOTED OR OPEN) \<noteq> 0 then Inr (None, [])
          else rbind (parse_command (tl word)) (\<lambda>n. Inr (n, []))), c)
      else if hd word = CHR ''>'' then
        (case parse_link env word flags c of
           (r, c) \<Rightarrow> (rbind r (\<lambda>n. Inr (n, [])), c))
      else (Inr (parse_plain_word env word flags), c))"

definition push_char :: "char \<Rightarrow> string \<Rightarrow> string" where
  "push_char b text = (if b \<noteq> NUL then text @ [b] else text)"

text \<open>The loop over the words with the nodes put out and the text collected so far.\<close>

fun fragment_loop ::
  "parse_env \<Rightarrow> u8 \<Rightarrow> bool \<Rightarrow> string list \<Rightarrow> node list \<Rightarrow> string \<Rightarrow> (node list \<times> string) parser" where
  "fragment_loop env flags first [] out text c = (Inr (out, text), c)"
| "fragment_loop env flags first (word # words) out text c =
     (let text = (if first then text else text @ '' '');
          (lead, word, trail) = split_punctuation word;
          text = push_char lead text in
      if word = [] then fragment_loop env flags False words out (push_char trail text) c
      else
        (case parse_word env word flags c of
           (Inl e, c) \<Rightarrow> (Inl e, c)
         | (Inr (matched, gt), c) \<Rightarrow>
             let text = text @ gt;
                 (out, text) =
                   (case matched of
                      None \<Rightarrow> (out, text @ word)
                    | Some n \<Rightarrow> ((if text \<noteq> [] then out @ [Text text] else out) @ [n], []))
             in fragment_loop env flags False words out (push_char trail text) c))"

definition pack_siblings :: "node list \<Rightarrow> node" where
  "pack_siblings out =
     fold (\<lambda>left right. if right = Empty then left else Siblings left right) (rev out) Empty"

definition parse_fragment :: "parse_env \<Rightarrow> string \<Rightarrow> u8 \<Rightarrow> node parser" where
  "parse_fragment env frag flags c =
     (case fragment_loop env flags True (split_char CHR '' '' frag) [] [] c of
        (Inl e, c) \<Rightarrow> (Inl e, c)
      | (Inr (out, text), c) \<Rightarrow>
          (Inr (pack_siblings (if text \<noteq> [] then out @ [Text text] else out)), c))"

section \<open>Words that never parse\<close>

lemma find_str_less: "find_str pat s = Some i \<Longrightarrow> i + length pat \<le> length s"
proof (induction pat s arbitrary: i rule: find_str.induct)
  case (2 pat c cs)
  show ?case
  proof (cases "take (length pat) (c # cs) = pat")
    case True
    then have "length pat \<le> length (c # cs)"
      by (metis length_take min.cobounded1)
    with True 2 show ?thesis by simp
  next
    case False
    with 2 show ?thesis by auto
  qed
qed (simp split: if_splits)

text \<open>
  The sign of a dice command is looked for behind the \<open>d\<close>, but its position is used from the
  start of the word: what is read as the offset has the sign inside and is never a number.
\<close>

lemma parse_digits_all: "parse_digits s = Some n \<Longrightarrow> list_all is_digit s"
  by (simp add: parse_digits_def split: if_splits)

lemma sign_not_digit: "is_digit c \<Longrightarrow> c \<noteq> CHR ''+'' \<and> c \<noteq> CHR ''-''"
  by (auto simp: is_digit_def)

lemma parse_signed_inner_sign:
  assumes "0 < k" "k < length s" "s ! k = CHR ''+'' \<or> s ! k = CHR ''-''"
  shows "parse_signed s = None"
proof -
  have "\<not> is_digit (s ! k)" using assms(3) sign_not_digit by blast
  moreover have "s ! k \<in> set s" "s ! k \<in> set (tl s)"
    using assms(1,2) nth_mem [of "k - 1" "tl s"] by (simp_all add: nth_tl)
  ultimately have "parse_digits (tl s) = None" "parse_digits s = None"
    by (auto simp: parse_digits_def list_all_iff)
  moreover have "s \<noteq> []" using assms(2) by auto
  ultimately show ?thesis
    by (simp add: parse_signed_def strip_plus_def)
qed

lemma parse_dice_no_offset:
  assumes "position (\<lambda>c. c = CHR ''+'' \<or> c = CHR ''-'') (drop (d + 1) word) = Some i"
  shows "parse_signed (drop i word) = (None :: 16 word option)"
proof (rule parse_signed_inner_sign)
  have i: "i < length (drop (d + 1) word)"
    "drop (d + 1) word ! i = CHR ''+'' \<or> drop (d + 1) word ! i = CHR ''-''"
    using assms unfolding position_Some_iff by blast+
  then show "Suc d < length (drop i word)"
    by simp
  have "drop i word ! Suc d = drop (d + 1) word ! i"
    using i(1) by (simp add: add.commute)
  with i(2) show "drop i word ! Suc d = CHR ''+'' \<or> drop i word ! Suc d = CHR ''-''"
    by (simp only:)
qed simp

lemma parse_dice_result:
  assumes "parse_dice word = Inr (Some n)"
  shows "\<exists>faces rolls. n = Pending (PDice 0 faces rolls) \<and> rolls \<le> 10"
proof -
  obtain d where d: "find_str ''d'' word = Some d"
    using assms by (cases "find_str ''d'' word") (simp_all add: parse_dice_def)
  let ?sign = "position (\<lambda>c. c = CHR ''+'' \<or> c = CHR ''-'') (drop (d + 1) word)"
  show ?thesis
  proof (cases ?sign)
    case None
    with d assms show ?thesis
      by (auto simp: parse_dice_def Let_def not_less split: option.splits if_splits)
  next
    case (Some i)
    note parse_dice_no_offset [OF Some]
    with d Some assms show ?thesis
      by (simp add: parse_dice_def Let_def str_slice_def split: option.splits if_splits)
  qed
qed

lemma parse_reference_None: "parse_reference env word extra_gt = Inr None"
proof -
  have "end' \<noteq> length word - 1"
    if "find_str ''/'' (drop (slash + 1) word) = Some end'" for slash end'
    using find_str_less [OF that] by auto
  then show ?thesis
    by (auto simp: parse_reference_def Let_def split: option.splits)
qed

section \<open>What a word can become\<close>

text \<open>
  The nodes of words: a predicate on nodes that holds of every text that is not empty and of
  every node a word becomes holds of every node a fragment is packed from.
\<close>

lemma fragment_loop_all:
  assumes "\<And>w c n gt c'. w \<noteq> [] \<Longrightarrow> parse_word env w flags c = (Inr (Some n, gt), c') \<Longrightarrow> G n"
    and "\<And>t. t \<noteq> [] \<Longrightarrow> G (Text t)"
  shows "list_all G out \<Longrightarrow> fragment_loop env flags start ws out acc c = (Inr (out', acc'), c') \<Longrightarrow>
    list_all G out'"
proof (induction ws arbitrary: start out acc c)
  case (Cons word ws)
  from Cons.prems show ?case
    by (auto simp: Let_def assms split: prod.splits sum.splits option.splits if_splits
        elim!: Cons.IH [rotated] dest: assms(1))
qed simp

lemma fragment_loop_error:
  "fst (fragment_loop env flags start ws out acc c) = Inl e \<Longrightarrow>
     \<exists>w c. w \<noteq> [] \<and> fst (parse_word env w flags c) = Inl e"
proof (induction ws arbitrary: start out acc c)
  case (Cons word ws)
  obtain lead w trail where sp: "split_punctuation word = (lead, w, trail)"
    by (cases "split_punctuation word")
  obtain r c1 where pw: "parse_word env w flags c = (r, c1)"
    by (cases "parse_word env w flags c")
  show ?case
  proof (cases "w \<noteq> [] \<and> (\<exists>e. r = Inl e)")
    case True
    with Cons.prems sp pw show ?thesis
      by (intro exI [of _ w] exI [of _ c]) (auto simp: Let_def)
  next
    case False
    then have "w = [] \<or> (\<exists>n gt. r = Inr (n, gt))" by (cases r) auto
    then show ?thesis
      using Cons.prems sp pw by (auto simp: Let_def split: option.splits if_splits dest!: Cons.IH)
  qed
qed simp

lemma pack_siblings_induct:
  assumes "G Empty" "\<And>l r. G l \<Longrightarrow> G r \<Longrightarrow> l \<noteq> Empty \<Longrightarrow> r \<noteq> Empty \<Longrightarrow> G (Siblings l r)"
    "list_all (\<lambda>n. G n \<and> n \<noteq> Empty) out"
  shows "G (pack_siblings out)"
  using assms(3) unfolding pack_siblings_def
  by (induction out) (auto simp: assms)

text \<open>
  Normal form of a body: no empty node beside another, no empty text, no resolved commands, and
  of the pending dice rolls only those of at most ten dice without an offset.
\<close>

primrec body_nf :: "node \<Rightarrow> bool" where
  "body_nf Empty \<longleftrightarrow> True"
| "body_nf NewLine \<longleftrightarrow> False"
| "body_nf (Siblings l r) \<longleftrightarrow> l \<noteq> Empty \<and> r \<noteq> Empty \<and> body_nf l \<and> body_nf r"
| "body_nf (Text s) \<longleftrightarrow> s \<noteq> []"
| "body_nf (PostLink l) \<longleftrightarrow> True"
| "body_nf (Command cmd) \<longleftrightarrow> False"
| "body_nf (URL u) \<longleftrightarrow> True"
| "body_nf (Reference l u) \<longleftrightarrow> False"
| "body_nf (Embed e) \<longleftrightarrow> True"
| "body_nf (Code s) \<longleftrightarrow> True"
| "body_nf (Spoiler n) \<longleftrightarrow> body_nf n"
| "body_nf (Bold n) \<longleftrightarrow> body_nf n"
| "body_nf (Italic n) \<longleftrightarrow> body_nf n"
| "body_nf (Quoted n) \<longleftrightarrow> body_nf n"
| "body_nf (Pending p) \<longleftrightarrow> (case p of PDice offset faces rolls \<Rightarrow> offset = 0 \<and> rolls \<le> 10 | _ \<Rightarrow> True)"

text \<open>A body that contains nothing to be resolved when a post is closed.\<close>

primrec body_static :: "node \<Rightarrow> bool" where
  "body_static Empty \<longleftrightarrow> True"
| "body_static NewLine \<longleftrightarrow> True"
| "body_static (Siblings l r) \<longleftrightarrow> body_static l \<and> body_static r"
| "body_static (Text s) \<longleftrightarrow> True"
| "body_static (PostLink l) \<longleftrightarrow> True"
| "body_static (Command cmd) \<longleftrightarrow> False"
| "body_static (URL u) \<longleftrightarrow> True"
| "body_static (Reference l u) \<longleftrightarrow> True"
| "body_static (Embed e) \<longleftrightarrow> False"
| "body_static (Code s) \<longleftrightarrow> True"
| "body_static (Spoiler n) \<longleftrightarrow> body_static n"
| "body_static (Bold n) \<longleftrightarrow> body_static n"
| "body_static (Italic n) \<longleftrightarrow> body_static n"
| "body_static (Quoted n) \<longleftrightarrow> body_static n"
| "body_static (Pending p) \<longleftrightarrow> False"

lemma parse_argument_command_Pending:
  "parse_argument_command word prefix d from_str gen = Some n \<Longrightarrow> \<exists>v. n = Pending (gen v)"
  by (auto simp: parse_argument_command_def Let_def split: if_splits)

lemma parse_command_nf: "parse_command comm = Inr (Some n) \<Longrightarrow> body_nf n \<and> n \<noteq> Empty"
  by (auto simp: parse_command_def parse_countdown_def parse_autobahn_def split: if_splits
      dest!: parse_argument_command_Pending parse_dice_result)

lemma link_loop_nf:
  "link_loop env word flags cs gt c = (Inr (Some n), c') \<Longrightarrow> body_nf n \<and> body_static n \<and> n \<noteq> Empty"
proof (induction cs arbitrary: gt)
  case (Cons x cs)
  then show ?case
    by (auto simp: parse_reference_None parse_post_link_def preturn_def prepend_extra_gt_def
        split: if_splits option.splits prod.splits sum.splits post_loc.splits)
qed (simp add: preturn_def)

lemma link_loop_no_panic: "fst (link_loop env word flags cs gt c) \<noteq> Inl Panic"
proof (induction cs arbitrary: gt)
  case (Cons x cs)
  then show ?case
    by (auto simp: parse_reference_None parse_post_link_def preturn_def post_location_def Let_def
        split: if_splits option.splits prod.splits sum.splits)
qed (simp add: preturn_def)

lemma link_loop_open:
  "flags AND OPEN \<noteq> 0 \<Longrightarrow> \<exists>n c'. link_loop env word flags cs gt c = (Inr n, c')"
proof (induction cs arbitrary: gt)
  case (Cons x cs)
  then show ?case
    by (auto simp: parse_reference_None parse_post_link_def preturn_def post_location_def Let_def
        split: if_splits option.splits prod.splits sum.splits)
qed (simp add: preturn_def)

lemma parse_http_url_nf:
  "parse_http_url env word flags = Some n \<Longrightarrow> body_nf n \<and> n \<noteq> Empty"
  "parse_http_url env word flags = Some n \<Longrightarrow> flags AND OPEN \<noteq> 0 \<Longrightarrow> body_static n"
  by (auto simp: parse_http_url_def Let_def split: if_splits option.splits)

lemma parse_plain_word_nf:
  "parse_plain_word env word flags = (Some n, gt) \<Longrightarrow> body_nf n \<and> n \<noteq> Empty"
  "parse_plain_word env word flags = (Some n, gt) \<Longrightarrow> flags AND OPEN \<noteq> 0 \<Longrightarrow> body_static n"
  by (auto simp: parse_plain_word_def Let_def split: if_splits option.splits dest: parse_http_url_nf)

lemma parse_word_nf:
  assumes "parse_word env word flags c = (Inr (Some n, gt), c')"
  shows "body_nf n \<and> n \<noteq> Empty"
  using assms
  by (auto simp: parse_word_def parse_link_def preturn_def rbind_eq_Inr split: if_splits prod.splits
      dest: parse_command_nf link_loop_nf parse_plain_word_nf(1))

lemma open_flag: "flags AND OPEN \<noteq> 0 \<Longrightarrow> flags AND (QUOTED OR OPEN) \<noteq> 0"
  by (simp add: bit.conj_disj_distrib or_eq_0_iff)

lemma parse_word_open:
  assumes "flags AND OPEN \<noteq> 0"
  shows "parse_word env word flags c = (Inr (Some n, gt), c') \<Longrightarrow> body_static n"
    and "\<exists>r. fst (parse_word env word flags c) = Inr r"
  using assms open_flag [OF assms] link_loop_open [OF assms, of env word "drop 2 word" 0 c]
  by (auto simp: parse_word_def parse_link_def preturn_def rbind_eq_Inr split: if_splits prod.splits
      dest: link_loop_nf parse_plain_word_nf(2))

end
