(* ===== verification/Body_Parser.thy ===== *)
theory Body_Parser
  imports Body_Words
begin

text \<open>
  The post body parser above the words, \<^verbatim>\<open>websockets/websockets/src/body/\<close>: splitting by a
  delimiter (\<^verbatim>\<open>util.rs\<close>), formatting tags and quotes (\<^verbatim>\<open>formatting.rs\<close>), code tags
  (\<^verbatim>\<open>code.rs\<close>), the entry point (\<^verbatim>\<open>mod.rs\<close>) and the buffer of open bodies
  (\<^verbatim>\<open>persist.rs\<close>). The interface \<open>parse_closed\<close> carries a property of parsers through all
  of it; the properties below are its instances.
\<close>

section \<open>Combinators\<close>

text \<open>
  \<^verbatim>\<open>rayon::join\<close> runs both sides, here the left one first; a panic of either side is
  propagated before any error is looked at.
\<close>

definition join_siblings :: "parse_error + node \<Rightarrow> parse_error + node \<Rightarrow> parse_error + node" where
  "join_siblings left_res right_res =
     (if left_res = Inl Panic \<or> right_res = Inl Panic then Inl Panic
      else rbind left_res (\<lambda>left_n. rbind right_res (\<lambda>right_n.
        Inr (if right_n = Empty then left_n
             else if left_n = Empty then right_n
             else Siblings left_n right_n))))"

definition parse_siblings :: "node parser \<Rightarrow> node parser \<Rightarrow> node parser" where
  "parse_siblings left right c =
     (let (left_res, c) = left c; (right_res, c) = right c
      in (join_siblings left_res right_res, c))"

type_synonym frag_parser = "string \<Rightarrow> u8 \<Rightarrow> node parser"

text \<open>
  The last argument is \<^verbatim>\<open>super::code::parse_code\<close>, which parses what follows a closing
  delimiter.
\<close>

definition with_remainder ::
  "string \<Rightarrow> frag_parser \<Rightarrow> frag_parser \<Rightarrow> string \<Rightarrow> u8 \<Rightarrow> node parser" where
  "with_remainder delimiter matched code frag flags =
     (let flags = flags AND NOT AT_LINE_START in
      case find_str delimiter frag of
        Some end' \<Rightarrow>
          if end' = 0 then preturn (Inr Empty)
          else if end' < length frag then
            parse_siblings (matched (take end' frag) flags)
              (code (drop (end' + length delimiter) frag) flags)
          else matched (take end' frag) flags
      | None \<Rightarrow> matched frag flags)"

definition split_and_parse ::
  "string \<Rightarrow> u8 \<Rightarrow> string \<Rightarrow> frag_parser \<Rightarrow> frag_parser \<Rightarrow> frag_parser \<Rightarrow> node parser" where
  "split_and_parse frag flags delimiter matched unmatched code =
     (case find_str delimiter frag of
        Some start \<Rightarrow>
          if start = 0 then with_remainder delimiter matched code (drop (length delimiter) frag) flags
          else parse_siblings (unmatched (take start frag) flags)
            (with_remainder delimiter matched code (drop (start + length delimiter) frag) flags)
      | None \<Rightarrow> unmatched frag flags)"

section \<open>Quotes and formatting\<close>

definition pmap :: "(node \<Rightarrow> node) \<Rightarrow> node parser \<Rightarrow> node parser" where
  "pmap f p c = (case p c of (r, c) \<Rightarrow> (rbind r (\<lambda>n. Inr (f n)), c))"

definition wrap_quoted :: "parse_env \<Rightarrow> string \<Rightarrow> u8 \<Rightarrow> node parser" where
  "wrap_quoted env line flags =
     (if line = [] then preturn (Inr Empty)
      else if hd line = CHR ''>'' then pmap Quoted (parse_fragment env line (flags OR QUOTED))
      else parse_fragment env line flags)"

lemma find_str_decrease [termination_simp]:
  "find_str [x] s = Some i \<Longrightarrow> length s - Suc i < length s"
  using find_str_less [of "[x]" s i] by simp

fun parse_quoted :: "parse_env \<Rightarrow> string \<Rightarrow> u8 \<Rightarrow> node parser" where
  "parse_quoted env frag flags =
     (if flags AND AT_LINE_START \<noteq> 0 then
        (case find_str [CHR 0x0A] frag of
           Some pos \<Rightarrow>
             parse_siblings (wrap_quoted env (take pos frag) (flags AND NOT AT_LINE_START))
               (parse_quoted env (drop (pos + 1) frag) flags)
         | None \<Rightarrow> wrap_quoted env frag (flags AND NOT AT_LINE_START))
      else
        (case find_str [CHR 0x0A] frag of
           Some pos \<Rightarrow>
             parse_siblings (parse_fragment env (take pos frag) flags)
               (parse_quoted env (drop (pos + 1) frag) (flags OR AT_LINE_START))
         | None \<Rightarrow> parse_fragment env frag flags))"

declare parse_quoted.simps [simp del]

definition parse_italics :: "parse_env \<Rightarrow> frag_parser \<Rightarrow> frag_parser" where
  "parse_italics env code frag flags =
     split_and_parse frag flags ''~~'' (\<lambda>frag flags. pmap Italic (parse_quoted env frag flags))
       (parse_quoted env) code"

definition parse_bolds :: "parse_env \<Rightarrow> frag_parser \<Rightarrow> frag_parser" where
  "parse_bolds env code frag flags =
     split_and_parse frag flags ''@@'' (\<lambda>frag flags. pmap Bold (parse_italics env code frag flags))
       (parse_italics env code) code"

definition parse_spoilers :: "parse_env \<Rightarrow> frag_parser \<Rightarrow> frag_parser" where
  "parse_spoilers env code frag flags =
     split_and_parse frag flags ''**'' (\<lambda>frag flags. pmap Spoiler (parse_bolds env code frag flags))
       (parse_bolds env code) code"

section \<open>Code tags and the entry point\<close>

text \<open>\<^verbatim>\<open>str::lines\<close>: no line after a final line feed, no carriage return at the end of a line.\<close>

definition str_lines :: "string \<Rightarrow> string list" where
  "str_lines s =
     map (\<lambda>l. if l \<noteq> [] \<and> last l = CHR 0x0D then butlast l else l)
       (let ls = split_char (CHR 0x0A) s in if last ls = [] then butlast ls else ls)"

definition highlight_code :: "parse_env \<Rightarrow> frag_parser" where
  "highlight_code env frag flags =
     preturn (case Option.bind (find_str '' '' frag) (\<lambda>pos. highlighter env (take pos frag)) of
        Some gen \<Rightarrow> Inr (Code (gen (str_lines frag)))
      | None \<Rightarrow>
          (case html_escape env frag of
             Inl e \<Rightarrow> Inl (Err e)
           | Inr w \<Rightarrow> Inr (Code (''<pre class=\"code\">'' @ w @ ''</pre>''))))"

text \<open>
  The parser calls itself only on shorter text: the functions it is passed to are congruent in
  what they do with such text.
\<close>

lemma with_remainder_cong [fundef_cong]:
  assumes "delimiter = delimiter'" "frag = frag'" "flags = flags'"
    "\<And>f fl. length f \<le> length frag \<Longrightarrow> matched f fl = matched' f fl"
    "\<And>f fl. length f < length frag \<Longrightarrow> code f fl = code' f fl"
  shows "with_remainder delimiter matched code frag flags =
    with_remainder delimiter' matched' code' frag' flags'"
  using assms by (auto simp: with_remainder_def Let_def split: option.split dest: find_str_less)

lemma split_and_parse_cong:
  assumes "frag = frag'" "flags = flags'" "delimiter = delimiter'" "delimiter' \<noteq> []"
    "\<And>f fl. length f \<le> length frag \<Longrightarrow> matched f fl = matched' f fl"
    "\<And>f fl. length f \<le> length frag \<Longrightarrow> unmatched f fl = unmatched' f fl"
    "\<And>f fl. length f < length frag \<Longrightarrow> code f fl = code' f fl"
  shows "split_and_parse frag flags delimiter matched unmatched code =
    split_and_parse frag' flags' delimiter' matched' unmatched' code'"
proof -
  have "with_remainder delimiter matched code (drop n frag) flags =
      with_remainder delimiter matched' code' (drop n frag) flags" for n
    by (intro with_remainder_cong refl assms) auto
  with assms show ?thesis
    by (auto simp: split_and_parse_def split: option.split)
qed

lemma split_and_parse_Cons_cong [fundef_cong]:
  assumes "frag = frag'" "flags = flags'" "x = x'" "ds = ds'"
    "\<And>f fl. length f \<le> length frag \<Longrightarrow> matched f fl = matched' f fl"
    "\<And>f fl. length f \<le> length frag \<Longrightarrow> unmatched f fl = unmatched' f fl"
    "\<And>f fl. length f < length frag \<Longrightarrow> code f fl = code' f fl"
  shows "split_and_parse frag flags (x # ds) matched unmatched code =
    split_and_parse frag' flags' (x' # ds') matched' unmatched' code'"
  by (rule split_and_parse_cong) (use assms in simp_all)

lemma parse_italics_cong:
  assumes "\<And>f fl. length f < length frag \<Longrightarrow> code f fl = code' f fl"
  shows "parse_italics env code frag flags = parse_italics env code' frag flags"
  unfolding parse_italics_def by (intro split_and_parse_cong refl assms) simp_all

lemma parse_bolds_cong:
  assumes "\<And>f fl. length f < length frag \<Longrightarrow> code f fl = code' f fl"
  shows "parse_bolds env code frag flags = parse_bolds env code' frag flags"
  unfolding parse_bolds_def
  by (intro split_and_parse_cong refl assms arg_cong [where f = "pmap Bold"] parse_italics_cong) simp_all

lemma parse_spoilers_cong [fundef_cong]:
  assumes "env = env'" "frag = frag'" "flags = flags'"
    "\<And>f fl. length f < length frag' \<Longrightarrow> code f fl = code' f fl"
  shows "parse_spoilers env code frag flags = parse_spoilers env' code' frag' flags'"
  unfolding parse_spoilers_def assms(1-3)
  by (intro split_and_parse_cong refl assms(4) arg_cong [where f = "pmap Spoiler"] parse_bolds_cong)
    simp_all

function parse_code :: "parse_env \<Rightarrow> string \<Rightarrow> u8 \<Rightarrow> node parser" where
  "parse_code env frag flags =
     split_and_parse frag flags ''``'' (highlight_code env) (parse_spoilers env (parse_code env))
       (parse_code env)"
  by pat_completeness auto
termination
  by (relation "measure (\<lambda>(env, frag, flags). length frag)") simp_all

declare parse_code.simps [simp del]

definition parse :: "parse_env \<Rightarrow> string \<Rightarrow> bool \<Rightarrow> node parser" where
  "parse env body open =
     (if length body > 2000 then preturn (Inl (Err ''post body too long''))
      else if body = [] then preturn (Inr Empty)
      else parse_code env body (if open then AT_LINE_START OR OPEN else AT_LINE_START))"

section \<open>Open body buffer\<close>

type_synonym open_bodies = "u64 \<rightharpoonup> node"

definition persist_open_body :: "u64 \<Rightarrow> node \<Rightarrow> open_bodies \<Rightarrow> open_bodies" where
  "persist_open_body pid body m = m(pid \<mapsto> body)"

text \<open>
  One round of the flush loop: the bodies are taken out and handed to the database writer, whose
  error is logged.
\<close>

definition flush_open_bodies ::
  "(open_bodies \<Rightarrow> string option) \<Rightarrow> open_bodies \<Rightarrow> open_bodies \<times> open_bodies option \<times> string option" where
  "flush_open_bodies write_open_post_bodies m =
     (if m = Map.empty then (Map.empty, None, None)
      else (Map.empty, Some m, write_open_post_bodies m))"

section \<open>Properties closed under the combinators\<close>

text \<open>
  A property of parsers that holds of the empty result, of code and of fragments, and that
  siblings and tags keep, holds of the whole parser. \<open>ok\<close> restricts the flags it is claimed for.
\<close>

locale parse_closed =
  fixes env :: parse_env
    and ok :: "u8 \<Rightarrow> bool"
    and good :: "node parser \<Rightarrow> bool"
  assumes ok_clear: "ok flags \<Longrightarrow> ok (flags AND NOT AT_LINE_START)"
    and ok_set: "ok flags \<Longrightarrow> ok (flags OR AT_LINE_START)"
    and ok_quoted: "ok flags \<Longrightarrow> ok (flags OR QUOTED)"
    and good_empty: "good (preturn (Inr Empty))"
    and good_siblings: "good l \<Longrightarrow> good r \<Longrightarrow> good (parse_siblings l r)"
    and good_tag: "tag \<in> {Spoiler, Bold, Italic, Quoted} \<Longrightarrow> good p \<Longrightarrow> good (pmap tag p)"
    and good_code: "ok flags \<Longrightarrow> good (highlight_code env frag flags)"
    and good_fragment: "ok flags \<Longrightarrow> good (parse_fragment env frag flags)"
begin

lemma wrap_quoted_good: "ok flags \<Longrightarrow> good (wrap_quoted env line flags)"
  by (simp add: wrap_quoted_def good_empty good_fragment good_tag ok_quoted)

lemma parse_quoted_good: "ok flags \<Longrightarrow> good (parse_quoted env frag flags)"
proof (induction "length frag" arbitrary: frag flags rule: less_induct)
  case less
  have "good (parse_quoted env (drop (pos + 1) frag) fl)"
    if "find_str [CHR 0x0A] frag = Some pos" "ok fl" for pos fl
    using that find_str_decrease [of _ frag pos] by (intro less.hyps) simp_all
  with less.prems show ?case
    by (subst parse_quoted.simps)
      (auto split: option.split intro!: good_siblings wrap_quoted_good good_fragment ok_clear ok_set)
qed

lemma with_remainder_good:
  assumes "ok flags" "\<And>f fl. ok fl \<Longrightarrow> length f < n \<Longrightarrow> good (matched f fl)"
    "\<And>f fl. ok fl \<Longrightarrow> length f < n \<Longrightarrow> good (code f fl)" "length frag < n"
  shows "good (with_remainder delimiter matched code frag flags)"
  using assms by (auto simp: with_remainder_def Let_def good_empty ok_clear split: option.split
      intro!: good_siblings)

lemma split_and_parse_good:
  assumes "ok flags" "\<And>f fl. ok fl \<Longrightarrow> length f < length frag \<Longrightarrow> good (matched f fl)"
    "\<And>f fl. ok fl \<Longrightarrow> length f \<le> length frag \<Longrightarrow> good (unmatched f fl)"
    "\<And>f fl. ok fl \<Longrightarrow> length f < length frag \<Longrightarrow> good (code f fl)"
    "delimiter \<noteq> []"
  shows "good (split_and_parse frag flags delimiter matched unmatched code)"
proof -
  have "good (with_remainder delimiter matched code (drop (start + length delimiter) frag) flags)"
    if "find_str delimiter frag = Some start" for start
  proof (rule with_remainder_good [where n = "length frag"])
    have "0 < length delimiter" using assms(5) by simp
    then show "length (drop (start + length delimiter) frag) < length frag"
      using find_str_less [OF that] by (simp only: length_drop)
  qed (use assms in auto)
  with assms show ?thesis
    by (auto simp: split_and_parse_def split: option.split intro!: good_siblings)
qed

lemma parse_italics_good:
  assumes "ok flags" "\<And>f fl. ok fl \<Longrightarrow> length f < length frag \<Longrightarrow> good (code f fl)"
  shows "good (parse_italics env code frag flags)"
  unfolding parse_italics_def using assms
  by (intro split_and_parse_good good_tag parse_quoted_good) simp_all

lemma parse_bolds_good:
  assumes "ok flags" "\<And>f fl. ok fl \<Longrightarrow> length f < length frag \<Longrightarrow> good (code f fl)"
  shows "good (parse_bolds env code frag flags)"
  unfolding parse_bolds_def using assms
  by (intro split_and_parse_good good_tag parse_italics_good) simp_all

lemma parse_spoilers_good:
  assumes "ok flags" "\<And>f fl. ok fl \<Longrightarrow> length f < length frag \<Longrightarrow> good (code f fl)"
  shows "good (parse_spoilers env code frag flags)"
  unfolding parse_spoilers_def using assms
  by (intro split_and_parse_good good_tag parse_bolds_good) simp_all

lemma parse_code_good: "ok flags \<Longrightarrow> good (parse_code env frag flags)"
proof (induction "length frag" arbitrary: frag flags rule: less_induct)
  case less
  then show ?case
    by (subst parse_code.simps) (intro split_and_parse_good good_code parse_spoilers_good; simp)
qed

end

section \<open>Instances\<close>

lemma flags_open:
  "(flags AND NOT AT_LINE_START) AND OPEN = flags AND OPEN"
  "(flags OR AT_LINE_START) AND OPEN = flags AND OPEN"
  "(flags OR QUOTED) AND OPEN = flags AND OPEN"
  "AT_LINE_START AND OPEN = 0"
  by (simp_all add: AT_LINE_START_def OPEN_def QUOTED_def bit.conj_disj_distrib2 and.assoc)

text \<open>The result of a parser, whatever the location cache, satisfies a predicate.\<close>

abbreviation yields :: "(parse_error + node \<Rightarrow> bool) \<Rightarrow> node parser \<Rightarrow> bool" where
  "yields P p \<equiv> \<forall>c. P (fst (p c))"

lemma fst_parse_siblings [simp]:
  "fst (parse_siblings l r c) = join_siblings (fst (l c)) (fst (r (snd (l c))))"
  by (simp add: parse_siblings_def Let_def split: prod.splits)

lemma yields_siblings:
  "(\<And>a b. P a \<Longrightarrow> P b \<Longrightarrow> P (join_siblings a b)) \<Longrightarrow> yields P l \<Longrightarrow> yields P r \<Longrightarrow>
   yields P (parse_siblings l r)"
  by simp

lemma fst_pmap [simp]: "fst (pmap f p c) = rbind (fst (p c)) (\<lambda>n. Inr (f n))"
  by (simp add: pmap_def split: prod.splits)

definition nf_result :: "parse_error + node \<Rightarrow> bool" where
  "nf_result r \<longleftrightarrow> (\<forall>n. r = Inr n \<longrightarrow> body_nf n)"

lemma parse_fragment_nodes:
  assumes "fst (parse_fragment env frag flags c) = Inr n"
    and "\<And>w c n gt c'. w \<noteq> [] \<Longrightarrow> parse_word env w flags c = (Inr (Some n, gt), c') \<Longrightarrow> G n"
    and "\<And>t. t \<noteq> [] \<Longrightarrow> G (Text t)"
    and "G Empty" "\<And>l r. G l \<Longrightarrow> G r \<Longrightarrow> l \<noteq> Empty \<Longrightarrow> r \<noteq> Empty \<Longrightarrow> G (Siblings l r)"
  shows "G n"
proof -
  obtain out acc c' where loop:
    "fragment_loop env flags True (split_char CHR '' '' frag) [] [] c = (Inr (out, acc), c')"
    and n: "n = pack_siblings (if acc \<noteq> [] then out @ [Text acc] else out)"
    using assms(1) by (auto simp: parse_fragment_def split: prod.splits sum.splits)
  have "list_all (\<lambda>n. G n \<and> n \<noteq> Empty) out"
  proof (rule fragment_loop_all [OF _ _ _ loop])
    show "G n \<and> n \<noteq> Empty" if "w \<noteq> []" "parse_word env w flags c = (Inr (Some n, gt), c')" for w c n gt c'
      using assms(2) [OF that] parse_word_nf [OF that(2)] by simp
  qed (use assms(3) in simp_all)
  moreover have "G (Text acc)" if "acc \<noteq> []"
    using that by (rule assms(3))
  ultimately have "list_all (\<lambda>n. G n \<and> n \<noteq> Empty) (if acc \<noteq> [] then out @ [Text acc] else out)"
    by simp
  then show ?thesis
    unfolding n by (intro pack_siblings_induct [where G = G] assms(4,5))
qed

interpretation nf: parse_closed env "\<lambda>_. True" "yields nf_result" for env
proof
  fix flags :: u8 and frag
  show "yields nf_result (parse_fragment env frag flags)"
    unfolding nf_result_def
    by (intro allI impI, erule parse_fragment_nodes) (auto dest: parse_word_nf)
next
  fix l r
  assume "yields nf_result l" "yields nf_result r"
  then show "yields nf_result (parse_siblings l r)"
    by (rule yields_siblings [rotated])
      (auto simp: nf_result_def join_siblings_def rbind_eq_Inr split: if_splits)
qed (auto simp: nf_result_def rbind_eq_Inr preturn_def highlight_code_def
    split: option.splits sum.splits)

text \<open>
  In an open post only the escaping of code can fail, and nothing waits for the closing of the
  post.
\<close>

definition open_result :: "parse_env \<Rightarrow> parse_error + node \<Rightarrow> bool" where
  "open_result env r \<longleftrightarrow>
     (case r of
        Inl Panic \<Rightarrow> False
      | Inl (Err e) \<Rightarrow> \<exists>s. html_escape env s = Inl e
      | Inr n \<Rightarrow> body_static n)"

lemma parse_fragment_open:
  assumes "flags AND OPEN \<noteq> 0"
  shows "open_result env (fst (parse_fragment env frag flags c))"
proof -
  have "fst (parse_fragment env frag flags c) \<noteq> Inl e" for e
  proof
    assume "fst (parse_fragment env frag flags c) = Inl e"
    then have "fst (fragment_loop env flags True (split_char CHR '' '' frag) [] [] c) = Inl e"
      by (auto simp: parse_fragment_def split: prod.splits sum.splits)
    from fragment_loop_error [OF this] show False
      using parse_word_open(2) [OF assms] by (metis Inl_Inr_False)
  qed
  then obtain n where n: "fst (parse_fragment env frag flags c) = Inr n"
    by (cases "fst (parse_fragment env frag flags c)") auto
  have "body_static n"
    by (rule parse_fragment_nodes [OF n]) (auto dest: parse_word_open(1) [OF assms])
  with n show ?thesis by (simp add: open_result_def)
qed

lemma open_result_tag:
  "tag \<in> {Spoiler, Bold, Italic, Quoted} \<Longrightarrow> open_result env r \<Longrightarrow>
   open_result env (rbind r (\<lambda>n. Inr (tag n)))"
  by (cases r) (auto simp: open_result_def)

lemma open_result_code: "open_result env (fst (highlight_code env frag flags c))"
  by (auto simp: highlight_code_def preturn_def open_result_def split: option.split sum.split)

lemma open_result_join:
  "open_result env a \<Longrightarrow> open_result env b \<Longrightarrow> open_result env (join_siblings a b)"
  by (cases a; cases b) (auto simp: open_result_def join_siblings_def split: parse_error.splits)

interpretation op: parse_closed env "\<lambda>flags. flags AND OPEN \<noteq> 0" "yields (open_result env)" for env
proof
  fix l r
  assume "yields (open_result env) l" "yields (open_result env) r"
  then show "yields (open_result env) (parse_siblings l r)"
    by (rule yields_siblings [rotated])
      (rule open_result_join)
next
  show "yields (open_result env) (preturn (Inr Empty))"
    by (simp add: open_result_def preturn_def)
qed (simp_all only: flags_open parse_fragment_open open_result_code fst_pmap open_result_tag
    simp_thms)

text \<open>
  Lookups of post locations: two caches answer alike, and a parser is steady when its result
  depends on the answers only and its lookups change none of them.
\<close>

definition same_answers :: "parse_env \<Rightarrow> bool \<Rightarrow> location_cache \<Rightarrow> location_cache \<Rightarrow> bool" where
  "same_answers env fetch c c' \<longleftrightarrow>
     (\<forall>pid. fst (post_location env pid fetch c) = fst (post_location env pid fetch c'))"

definition steady :: "parse_env \<Rightarrow> bool \<Rightarrow> 'a parser \<Rightarrow> bool" where
  "steady env fetch p \<longleftrightarrow>
     (\<forall>c c'. same_answers env fetch c c' \<longrightarrow> fst (p c) = fst (p c')) \<and>
     (\<forall>c. same_answers env fetch (snd (p c)) c)"

lemma steadyI:
  "(\<And>c c'. same_answers env fetch c c' \<Longrightarrow> fst (p c) = fst (p c')) \<Longrightarrow>
   (\<And>c. same_answers env fetch (snd (p c)) c) \<Longrightarrow> steady env fetch p"
  and steady_fst: "steady env fetch p \<Longrightarrow> same_answers env fetch c c' \<Longrightarrow> fst (p c) = fst (p c')"
  and steady_snd: "steady env fetch p \<Longrightarrow> same_answers env fetch (snd (p c)) c"
  by (simp_all add: steady_def)

lemma same_answers_refl [simp]: "same_answers env fetch c c"
  and same_answers_sym: "same_answers env fetch c c' \<Longrightarrow> same_answers env fetch c' c"
  and same_answers_trans:
    "same_answers env fetch c c' \<Longrightarrow> same_answers env fetch c' c'' \<Longrightarrow> same_answers env fetch c c''"
  by (simp_all add: same_answers_def)

lemma steady_post_location: "steady env fetch (post_location env pid fetch)"
proof -
  have "fst (post_location env i fetch (snd (post_location env pid fetch c))) =
      fst (post_location env i fetch c)" for i c
    by (cases "i = pid")
      (auto simp: post_location_def Let_def split: option.splits sum.splits if_splits)
  then show ?thesis by (simp add: steady_def same_answers_def)
qed

lemma steady_preturn [simp]: "steady env fetch (preturn r)"
  by (simp add: steady_def preturn_def)

text \<open>Sequencing two steady parsers, the second depending on the result of the first.\<close>

lemma steady_bind:
  assumes "steady env fetch p" "\<And>r. steady env fetch (q r)"
  shows "steady env fetch (\<lambda>c. q (fst (p c)) (snd (p c)))"
proof (rule steadyI)
  fix c c'
  assume c: "same_answers env fetch c c'"
  have "same_answers env fetch (snd (p c)) (snd (p c'))"
    using steady_snd [OF assms(1)] c by (meson same_answers_sym same_answers_trans)
  then show "fst (q (fst (p c)) (snd (p c))) = fst (q (fst (p c')) (snd (p c')))"
    using steady_fst [OF assms(1) c] steady_fst [OF assms(2)] by simp
next
  show "same_answers env fetch (snd (q (fst (p c)) (snd (p c)))) c" for c
    by (rule same_answers_trans [OF steady_snd steady_snd]) (rule assms)+
qed

lemma steady_map: "steady env fetch p \<Longrightarrow> steady env fetch (\<lambda>c. (f (fst (p c)), snd (p c)))"
  unfolding steady_def by (auto cong: arg_cong [where f = f])

lemma steady_parse_post_link:
  "steady env (flags AND OPEN = 0) (parse_post_link env word flags extra_gt)"
proof (cases "parse_unsigned (drop (2 + extra_gt) word) :: u64 option")
  case None
  then show ?thesis by (simp add: parse_post_link_def steady_def)
next
  case (Some pid)
  define f where "f r = rbind r (\<lambda>loc. Inr (map_option (\<lambda>n. prepend_extra_gt n extra_gt)
    (case loc of
       DoesNotExist \<Rightarrow> None
     | NotFetched \<Rightarrow> Some (PostLink \<lparr>pl_id = pid, pl_thread = 0, pl_page = 0\<rparr>)
     | Exists thread page \<Rightarrow> Some (PostLink \<lparr>pl_id = pid, pl_thread = thread, pl_page = page\<rparr>))))"
    for r :: "parse_error + post_loc"
  have "parse_post_link env word flags extra_gt =
      (\<lambda>c. (f (fst (post_location env pid (flags AND OPEN = 0) c)),
            snd (post_location env pid (flags AND OPEN = 0) c)))"
    using Some by (auto simp: fun_eq_iff parse_post_link_def f_def rbind_def split: prod.split sum.split)
  then show ?thesis
    using steady_map [OF steady_post_location] by simp
qed

lemma steady_link_loop: "steady env (flags AND OPEN = 0) (link_loop env word flags cs extra_gt)"
  by (induction cs arbitrary: extra_gt) (simp_all add: steady_parse_post_link)

lemma steady_parse_word: "steady env (flags AND OPEN = 0) (parse_word env word flags)"
proof -
  have l: "steady env (flags AND OPEN = 0) (parse_link env word flags)"
    by (simp add: parse_link_def steady_link_loop)
  have "steady env (flags AND OPEN = 0)
      (\<lambda>c. case parse_link env word flags c of (r, c) \<Rightarrow> (rbind r (\<lambda>n. Inr (n, [])), c))"
    using steady_map [OF l, of "\<lambda>r. rbind r (\<lambda>n. Inr (n, []))"] by (simp add: case_prod_beta)
  then show ?thesis
    by (auto simp: parse_word_def [abs_def] steady_def)
qed

text \<open>One round of the word loop as a sequence.\<close>

lemma fragment_loop_bind:
  assumes "split_punctuation word = (lead, w, trail)" "w \<noteq> []"
  obtains q where "fragment_loop env flags start (word # ws) out acc =
      (\<lambda>c. (case fst (parse_word env w flags c) of
              Inl e \<Rightarrow> preturn (Inl e)
            | Inr r \<Rightarrow> fragment_loop env flags False ws (fst (q r)) (snd (q r)))
           (snd (parse_word env w flags c)))"
proof -
  define t where "t = push_char lead (if start then acc else acc @ '' '')"
  define q where "q r = (case fst r of
      None \<Rightarrow> (out, push_char trail ((t @ snd r) @ w))
    | Some n \<Rightarrow> ((if t @ snd r \<noteq> [] then out @ [Text (t @ snd r)] else out) @ [n], push_char trail []))"
    for r :: "node option \<times> string"
  show thesis
    by (rule that [of q])
      (auto simp: assms fun_eq_iff Let_def q_def t_def preturn_def split: prod.split sum.split option.split)
qed

lemma steady_fragment_loop:
  "steady env (flags AND OPEN = 0) (fragment_loop env flags start ws out acc)"
proof (induction ws arbitrary: start out acc)
  case Nil
  then show ?case by (simp add: steady_def)
next
  case (Cons word ws)
  obtain lead w trail where sp: "split_punctuation word = (lead, w, trail)"
    by (cases "split_punctuation word")
  show ?case
  proof (cases "w = []")
    case True
    with sp Cons show ?thesis by (simp add: steady_def Let_def)
  next
    case False
    obtain q where
      "fragment_loop env flags start (word # ws) out acc =
        (\<lambda>c. (case fst (parse_word env w flags c) of
              Inl e \<Rightarrow> preturn (Inl e)
            | Inr r \<Rightarrow> fragment_loop env flags False ws (fst (q r)) (snd (q r)))
           (snd (parse_word env w flags c)))"
      by (rule fragment_loop_bind [OF sp False])
    then show ?thesis
      using Cons.IH by (simp only:) (intro steady_bind steady_parse_word, simp split: sum.split)
  qed
qed

lemma steady_parse_fragment: "steady env (flags AND OPEN = 0) (parse_fragment env frag flags)"
proof -
  define f where "f r = rbind r (\<lambda>(out, acc).
      Inr (pack_siblings (if acc \<noteq> [] then out @ [Text acc] else out)))"
    for r :: "parse_error + node list \<times> string"
  have "parse_fragment env frag flags = (\<lambda>c.
      (f (fst (fragment_loop env flags True (split_char CHR '' '' frag) [] [] c)),
       snd (fragment_loop env flags True (split_char CHR '' '' frag) [] [] c)))"
    by (auto simp: fun_eq_iff parse_fragment_def f_def split: prod.split sum.split)
  then show ?thesis
    using steady_map [OF steady_fragment_loop] by simp
qed

lemma steady_siblings:
  assumes "steady env fetch l" "steady env fetch r"
  shows "steady env fetch (parse_siblings l r)"
proof -
  have "steady env fetch
      (\<lambda>c. (\<lambda>a c'. (join_siblings a (fst (r c')), snd (r c'))) (fst (l c)) (snd (l c)))"
    by (rule steady_bind [OF assms(1)]) (rule steady_map [OF assms(2)])
  then show ?thesis
    by (simp add: parse_siblings_def [abs_def] case_prod_beta Let_def)
qed

lemma steady_pmap: "steady env fetch p \<Longrightarrow> steady env fetch (pmap f p)"
  using steady_map [of env fetch p "\<lambda>r. rbind r (\<lambda>n. Inr (f n))"]
  by (simp add: pmap_def [abs_def] case_prod_beta)

interpretation st: parse_closed env "\<lambda>flags. (flags AND OPEN = 0) = fetch" "steady env fetch" for env fetch
proof
  fix flags frag
  assume "(flags AND OPEN = 0) = fetch"
  then show "steady env fetch (parse_fragment env frag flags)"
    using steady_parse_fragment by blast
qed (simp_all add: flags_open steady_siblings steady_pmap highlight_code_def)

section \<open>Results of the parser\<close>

definition body_flags :: "bool \<Rightarrow> u8" where
  "body_flags opn = (if opn then AT_LINE_START OR OPEN else AT_LINE_START)"

lemma body_flags_open: "body_flags opn AND OPEN = (if opn then OPEN else 0)"
  by (simp add: body_flags_def AT_LINE_START_def OPEN_def)

lemma OPEN_nonzero [simp]: "OPEN \<noteq> 0"
  by (simp add: OPEN_def)

lemma parse_eq:
  "parse env body opn =
     (if length body > 2000 then preturn (Inl (Err ''post body too long''))
      else if body = [] then preturn (Inr Empty)
      else parse_code env body (body_flags opn))"
  by (simp add: parse_def body_flags_def)

lemma steady_parse: "steady env (\<not> opn) (parse env b opn)"
  using st.parse_code_good [of "body_flags opn" "\<not> opn" env b]
  by (simp add: parse_eq body_flags_open)


text \<open>
  An open post always parses. Up to 2000 bytes the parser of an open body returns a tree, for
  every state of the location cache, without an error or a panic, and the tree holds no command
  and no embed to be resolved; only the escaping of code has to succeed.
\<close>

theorem open_body_parses:
  assumes "length body \<le> 2000" "\<forall>s. \<exists>w. html_escape env s = Inr w"
  shows "\<exists>n. fst (parse env body True c) = Inr n \<and> body_static n"
proof (cases "body = []")
  case False
  have "open_result env (fst (parse_code env body (body_flags True) c))"
    using op.parse_code_good [of "body_flags True" env body] by (simp add: body_flags_open)
  moreover have "html_escape env s \<noteq> Inl e" for s e
    using assms(2) by (metis Inl_Inr_False)
  ultimately show ?thesis
    using False assms(1) by (auto simp: parse_eq open_result_def split: sum.splits parse_error.splits)
qed (simp add: parse_eq preturn_def)


text \<open>An environment without highlighter, embeds, links or posts, for concrete inputs.\<close>

definition bare_env :: parse_env where
  "bare_env =
     \<lparr>highlighter = \<lambda>_. None, html_escape = Inr, url_ok = \<lambda>_. True, pattern_match = \<lambda>_ _. False,
      pattern_capture = \<lambda>_ _. None, config_links = \<lambda>_. None, get_post_parenthood = \<lambda>_. Inr None\<rparr>"


theorem open_body_parses_witness:
  "\<exists>n. fst (parse bare_env ''#flip ``x``'' True Map.empty) = Inr n \<and> body_static n"
  by (rule open_body_parses) (simp_all add: bare_env_def)

section \<open>Single lines\<close>

text \<open>A body without delimiters and line breaks is one line.\<close>

definition one_line :: "string \<Rightarrow> bool" where
  "one_line body \<longleftrightarrow> body \<noteq> [] \<and> length body \<le> 2000 \<and>
     list_all (\<lambda>pat. find_str pat body = None) [''``'', ''**'', ''@@'', ''~~'', [CHR 0x0A]]"

lemma AT_LINE_START_flags:
  "body_flags opn AND AT_LINE_START \<noteq> 0"
  "body_flags opn AND NOT AT_LINE_START = (if opn then OPEN else 0)"
  by (simp_all add: body_flags_def AT_LINE_START_def OPEN_def)

lemma parse_one_line:
  "one_line body \<Longrightarrow> parse env body opn = wrap_quoted env body (if opn then OPEN else 0)"
  by (simp add: one_line_def parse_eq parse_code.simps parse_spoilers_def parse_bolds_def
      parse_italics_def split_and_parse_def parse_quoted.simps [of _ body] AT_LINE_START_flags)

lemma find_str_None: "hd pat \<notin> set s \<Longrightarrow> pat \<noteq> [] \<Longrightarrow> find_str pat s = None"
proof (induction s)
  case (Cons c s)
  then have "take (length pat) (c # s) \<noteq> pat" by (cases pat) auto
  with Cons show ?case by simp
qed simp

lemma one_line_chars:
  "body \<noteq> [] \<Longrightarrow> length body \<le> 2000 \<Longrightarrow>
   set body \<inter> set [CHR 0x60, CHR ''*'', CHR ''@'', CHR ''~'', CHR 0x0A] = {} \<Longrightarrow> one_line body"
  by (auto simp: one_line_def find_str_None)

lemma split_char_single: "sep \<notin> set s \<Longrightarrow> split_char sep s = [s]"
  by (induction s) auto

text \<open>The words a text is cut into make up the text again.\<close>

fun join_words :: "string list \<Rightarrow> string" where
  "join_words [] = []"
| "join_words [w] = w"
| "join_words (w # ws) = w @ '' '' @ join_words ws"

lemma split_char_nonempty: "split_char sep s \<noteq> []"
  by (cases s) (auto split: list.split)

lemma join_split_char: "join_words (split_char CHR '' '' s) = s"
proof (induction s)
  case (Cons c s)
  obtain w ws where "split_char CHR '' '' s = w # ws"
    using split_char_nonempty [of "CHR '' ''" s] by (cases "split_char CHR '' '' s") auto
  with Cons show ?case by (cases ws) auto
qed simp

text \<open>A word nothing is made of: no command, link or URL.\<close>

definition plain_word :: "string \<Rightarrow> bool" where
  "plain_word word \<longleftrightarrow>
     (let w = fst (snd (split_punctuation word)) in
      w = [] \<or> hd w \<notin> {CHR ''#'', CHR ''>''} \<and>
        \<not> list_ex (starts_with w) [''http'', ''magnet:?'', ''ftp'', ''bitcoin''])"

lemma is_punctuation_NUL [simp]: "\<not> is_punctuation NUL"
  by (simp add: is_punctuation_def NUL_def)

lemma split_punctuation_parts:
  assumes "split_punctuation word = (lead, w, trail)"
  shows "push_char trail (push_char lead acc @ w) = acc @ word"
proof -
  have NUL: "is_punctuation b \<Longrightarrow> b \<noteq> NUL" for b
    by auto
  have "tl word \<noteq> []" if "2 \<le> length word - Suc 0"
    using that by (cases word) auto
  moreover have "word \<noteq> []" if "2 \<le> length word"
    using that by auto
  ultimately show ?thesis
    using assms NUL [of "hd word"] NUL [of "last word"] NUL [of "last (tl word)"]
    by (auto simp: split_punctuation_def push_char_def Let_def not_less split: if_splits)
qed

lemma parse_word_plain:
  assumes "w \<noteq> []" "hd w \<notin> {CHR ''#'', CHR ''>''}"
    "\<not> list_ex (starts_with w) [''http'', ''magnet:?'', ''ftp'', ''bitcoin'']"
  shows "parse_word env w flags c = (Inr (None, []), c)"
proof -
  have "position (\<lambda>c. c \<noteq> CHR ''>'') w = Some 0"
    using assms(1,2) by (cases w) auto
  with assms show ?thesis
    by (simp add: parse_word_def parse_plain_word_def)
qed

lemma fragment_loop_plain:
  "list_all plain_word ws \<Longrightarrow>
   fragment_loop env flags start ws out acc c =
     (Inr (out, acc @ (if start \<or> ws = [] then [] else '' '') @ join_words ws), c)"
proof (induction ws arbitrary: start acc)
  case (Cons word ws)
  obtain lead w trail where sp: "split_punctuation word = (lead, w, trail)"
    by (cases "split_punctuation word")
  note parts = split_punctuation_parts [OF sp]
  have "fragment_loop env flags start (word # ws) out acc c =
      fragment_loop env flags False ws out ((if start then acc else acc @ '' '') @ word) c"
    using sp parts [of "if start then acc else acc @ '' ''"] Cons.prems
    by (auto simp: plain_word_def Let_def parse_word_plain)
  also have "\<dots> = (Inr (out, ((if start then acc else acc @ '' '') @ word) @
      (if ws = [] then [] else '' '') @ join_words ws), c)"
    using Cons.IH [of False] Cons.prems by simp
  finally show ?case
    by (cases ws) simp_all
qed simp

lemma wrap_quoted_unquoted:
  "body \<noteq> [] \<Longrightarrow> hd body \<noteq> CHR ''>'' \<Longrightarrow> wrap_quoted env body flags = parse_fragment env body flags"
  by (simp add: wrap_quoted_def)

lemma parse_fragment_plain:
  assumes "list_all plain_word (split_char CHR '' '' frag)" "frag \<noteq> []"
  shows "parse_fragment env frag flags c = (Inr (Text frag), c)"
  using assms fragment_loop_plain [of "split_char CHR '' '' frag" env flags True "[]" "[]" c]
  by (simp add: parse_fragment_def join_split_char pack_siblings_def)

text \<open>
  Plain text is kept as it is. A body on one line that begins with no quote mark and holds no
  delimiter and no word that could be a command, link or URL parses to one text node with exactly
  its bytes, in open and in closed posts.
\<close>

theorem plain_text_verbatim:
  assumes "one_line body" "hd body \<noteq> CHR ''>''" "list_all plain_word (split_char CHR '' '' body)"
  shows "fst (parse env body opn c) = Inr (Text body)"
proof -
  have "body \<noteq> []" using assms(1) by (simp add: one_line_def)
  with assms show ?thesis
    by (simp add: parse_one_line wrap_quoted_unquoted parse_fragment_plain)
qed

theorem plain_text_verbatim_witness:
  "fst (parse bare_env ''well, (this) is plain!'' False Map.empty) = Inr (Text ''well, (this) is plain!'')"
  by (rule plain_text_verbatim)
    (simp_all add: one_line_def plain_word_def split_punctuation_def is_punctuation_def
      starts_with_def Let_def)

text \<open>
  An empty code tag swallows the rest of the post. Everything after two code delimiters in a
  row is dropped, whatever it is.
\<close>

theorem empty_code_tag_drops_rest:
  assumes "length rest \<le> 1996"
  shows "fst (parse env (''````'' @ rest) opn c) = Inr Empty"
  using assms
  by (simp add: parse_eq parse_code.simps split_and_parse_def with_remainder_def preturn_def)

theorem empty_code_tag_drops_rest_witness:
  "fst (parse bare_env (''````'' @ ''the rest'') True Map.empty) = Inr Empty"
  by (rule empty_code_tag_drops_rest) simp

section \<open>Single words\<close>

lemma parse_fragment_word:
  assumes "split_punctuation w = (NUL, w, NUL)" "w \<noteq> []" "CHR '' '' \<notin> set w"
  shows "parse_fragment env w flags c =
    (case parse_word env w flags c of
       (Inl e, c) \<Rightarrow> (Inl e, c)
     | (Inr (None, gt), c) \<Rightarrow> (Inr (Text (gt @ w)), c)
     | (Inr (Some n, gt), c) \<Rightarrow> (Inr (pack_siblings (if gt \<noteq> [] then [Text gt, n] else [n])), c))"
  using assms by (auto simp: parse_fragment_def split_char_single push_char_def Let_def
      pack_siblings_def split: prod.split sum.split option.split)

text \<open>
  Every URL gains a quote mark. A word that is a URL becomes a URL node with a text node
  before it that holds a greater-than sign the post does not contain.
\<close>

theorem url_gains_quote_mark:
  assumes "starts_with w ''http''" "CHR '' '' \<notin> set w" "\<not> is_punctuation (last w)"
    "url_ok env w" "flags AND OPEN \<noteq> 0"
  shows "fst (parse_fragment env w flags c) = Inr (Siblings (Text ''>'') (URL w))"
proof -
  obtain v where w: "w = ''http'' @ v"
    using assms(1) by (metis append_take_drop_id starts_with_def)
  have "split_punctuation w = (NUL, w, NUL)"
    using assms(3) by (simp add: w split_punctuation_def is_punctuation_def Let_def)
  moreover have "parse_word env w flags c = (Inr (Some (URL w), ''>''), c)"
    using assms(4,5)
    by (simp add: w parse_word_def parse_plain_word_def parse_http_url_def starts_with_def)
  ultimately show ?thesis
    using assms(2) by (subst parse_fragment_word) (simp_all add: w pack_siblings_def)
qed

theorem url_gains_quote_mark_witness:
  "fst (parse_fragment bare_env ''http://a.b'' OPEN Map.empty) =
     Inr (Siblings (Text ''>'') (URL ''http://a.b''))"
  by (rule url_gains_quote_mark)
    (simp_all add: starts_with_def is_punctuation_def bare_env_def)

lemma digits_avoid: "list_all is_digit ds \<Longrightarrow> \<not> is_digit b \<Longrightarrow> b \<notin> set ds"
  by (auto simp: list_all_iff)

lemma digits_first: "list_all is_digit r \<Longrightarrow> r \<noteq> [] \<Longrightarrow> \<not> is_digit b \<Longrightarrow> r @ v \<noteq> b # u"
  by (cases r) auto

lemma parse_dice_offset_panics:
  assumes "list_all is_digit r" "list_all is_digit f" "length f \<le> length r"
    "(parse_unsigned r :: u8 option) = Some n" "n \<le> 10" "s = CHR ''+'' \<or> s = CHR ''-''"
  shows "parse_dice (r @ CHR ''d'' # f @ s # off) = Inl Panic"
proof -
  have d: "CHR ''d'' \<notin> set r"
    using assms(1) by (auto simp: list_all_iff is_digit_def)
  have r: "r \<noteq> []" using assms(4) by (auto simp: parse_unsigned_def parse_digits_def strip_plus_def)
  have "find_str ''d'' (r @ CHR ''d'' # f @ s # off) = Some (length r)"
    using d by (induction r) auto
  moreover have "position (\<lambda>c. c = CHR ''+'' \<or> c = CHR ''-'') (f @ s # off) = Some (length f)"
    using assms(2,6) sign_not_digit by (intro position_append_cons) (auto simp: list_all_iff)
  ultimately show ?thesis
    using r assms(3-5) by (simp add: parse_dice_def Let_def str_slice_def)
qed

text \<open>
  A dice command with an offset brings the parser down. With digits around the \<open>d\<close> and at
  most as many digits of faces as of rolls, the closing of a post that has only this command in
  it panics; \<open>#2d6+1\<close> is one of them.
\<close>

theorem dice_offset_panics:
  assumes "list_all is_digit r" "list_all is_digit f" "list_all is_digit off" "off \<noteq> []"
    "length f \<le> length r" "length r + length f + length off \<le> 1997"
    "(parse_unsigned r :: u8 option) = Some n" "n \<le> 10" "s = CHR ''+'' \<or> s = CHR ''-''"
  shows "fst (parse env (''#'' @ r @ ''d'' @ f @ s # off) False c) = Inl Panic"
proof -
  let ?w = "CHR ''#'' # r @ CHR ''d'' # f @ s # off"
  have r: "r \<noteq> []" using assms(7) by (auto simp: parse_unsigned_def parse_digits_def strip_plus_def)
  have avoid: "b \<notin> set ?w" if "\<not> is_digit b" "b \<notin> {CHR ''#'', CHR ''d'', CHR ''+'', CHR ''-''}" for b
    using that assms(1-3,9) digits_avoid [OF _ that(1)] by auto
  have line: "one_line ?w"
    using assms(6) avoid by (intro one_line_chars) (auto simp: is_digit_def)
  have space: "CHR '' '' \<notin> set ?w"
    by (rule avoid) (simp_all add: is_digit_def)
  have "is_digit (last ?w)"
    using assms(3,4) by (simp add: list_all_iff)
  then have "\<not> is_punctuation (last ?w)"
    by (auto simp: is_punctuation_def is_digit_def)
  then have punct: "split_punctuation ?w = (NUL, ?w, NUL)"
    by (simp add: split_punctuation_def Let_def is_punctuation_def)
  have "r @ CHR ''d'' # f @ s # off \<noteq> ''8ball''"
    using assms(1) r by (auto simp: append_eq_Cons_conv is_digit_def)
  moreover have "\<not> starts_with (r @ CHR ''d'' # f @ s # off) (b # v)" if "\<not> is_digit b" for b v
    using assms(1) r that by (cases r) (auto simp: starts_with_def)
  ultimately have "parse_command (r @ CHR ''d'' # f @ s # off) = Inl Panic"
    using parse_dice_offset_panics [OF assms(1,2,5,7,8,9)] digits_first [OF assms(1) r]
    by (simp add: parse_command_def COUNTDOWN_PREFIX_def AUTOBAHN_PREFIX_def is_digit_def)
  then have "parse_word env ?w 0 c = (Inl Panic, c)"
    by (simp add: parse_word_def)
  then have "parse_fragment env ?w 0 c = (Inl Panic, c)"
    by (subst parse_fragment_word [OF punct _ space]) simp_all
  then show ?thesis
    using parse_one_line [OF line, of env False] by (simp add: wrap_quoted_def)
qed

theorem dice_offset_panics_witness:
  "fst (parse bare_env (''#'' @ ''2'' @ ''d'' @ ''6'' @ CHR ''+'' # ''1'') False Map.empty) = Inl Panic"
  by (rule dice_offset_panics [where n = 2])
    (simp_all add: is_digit_def parse_unsigned_def parse_digits_def strip_plus_def)

lemma parse_fragment_unmatched:
  assumes "split_char CHR '' '' w = [w]" "split_punctuation w = (lead, v, trail)" "v \<noteq> []"
    "parse_word env v flags c = (Inr (None, []), c)"
  shows "parse_fragment env w flags c = (Inr (Text w), c)"
proof -
  have "w \<noteq> []"
    using assms(2,3) by (auto simp: split_punctuation_def)
  with assms split_punctuation_parts [OF assms(2), of "[]"] show ?thesis
    by (simp add: parse_fragment_def pack_siblings_def)
qed

text \<open>
  A countdown with an argument is never recognised. The closing parenthesis is split off as
  punctuation before the command is read, so the command in a closed post stays text.
\<close>

theorem countdown_argument_stays_text:
  assumes "list_all is_digit ds" "length ds \<le> 1900"
  shows "fst (parse env (''#countdown('' @ ds @ '')'') False c) = Inr (Text (''#countdown('' @ ds @ '')''))"
proof -
  let ?v = "''#countdown('' @ ds" and ?w = "''#countdown('' @ ds @ '')''"
  have line: "one_line ?w"
    using assms digits_avoid [OF assms(1)] by (intro one_line_chars) (auto simp: is_digit_def)
  have space: "split_char CHR '' '' ?w = [?w]"
    using digits_avoid [OF assms(1)] by (intro split_char_single) (auto simp: is_digit_def)
  have punct: "split_punctuation ?w = (NUL, ?v, CHR '')'')"
    by (simp add: split_punctuation_def is_punctuation_def Let_def butlast_append)
  have "\<not> ends_with (CHR ''('' # ds) '')''"
    using digits_avoid [OF assms(1), of "CHR '')''"]
    by (cases ds rule: rev_cases) (auto simp: ends_with_def is_digit_def)
  then have "parse_command (tl ?v) = Inr None"
    by (simp add: parse_command_def COUNTDOWN_PREFIX_def starts_with_def parse_countdown_def
        parse_argument_command_def)
  then have "parse_word env ?v 0 c = (Inr (None, []), c)"
    by (simp add: parse_word_def)
  then have "parse_fragment env ?w 0 c = (Inr (Text ?w), c)"
    by (rule parse_fragment_unmatched [OF space punct, rotated]) simp
  then show ?thesis
    using parse_one_line [OF line, of env False] by (simp add: wrap_quoted_def)
qed

theorem countdown_argument_stays_text_witness:
  "fst (parse bare_env (''#countdown('' @ ''30'' @ '')'') False Map.empty) =
     Inr (Text (''#countdown('' @ ''30'' @ '')''))"
  by (rule countdown_argument_stays_text) (simp_all add: is_digit_def)

end
