(* ===== verification/Server_World.thy ===== *)
theory Server_World
  imports Registry Codec Body_Words
begin

text \<open>
  What a websocket client of the server acts on: the functions the Go side links in with their
  wrappers (\<^verbatim>\<open>websockets/websockets/src/bindings.rs\<close>), the request channel of the pulsar
  (\<^verbatim>\<open>pulsar.rs\<close>), the global configuration (\<^verbatim>\<open>config.rs\<close>), the client registry and the post
  location cache. Actions pass this state explicitly and stop at the first error.
\<close>

section \<open>Requests to the pulsar\<close>

record image_insertion_req =
  iir_thread :: u64
  iir_post :: u64
  iir_img :: image

datatype pulsar_request =
    ReqInsertThread thread_creation_notice
  | ReqInsertPost post_creation_notice
  | ReqRemoveThread u64
  | ReqInsertImage image_insertion_req
  | ReqSetOpenBody (sob_post: u64) (sob_thread: u64) (sob_body: string)

text \<open>
  The sender's view of the channel: what was sent and not yet received, or \<open>None\<close> once the
  pulsar thread is gone and sending fails.
\<close>

type_synonym channel = "pulsar_request list option"

definition send_request :: "pulsar_request \<Rightarrow> channel \<Rightarrow> bool \<times> channel" where
  "send_request req ch = (case ch of None \<Rightarrow> (False, None) | Some q \<Rightarrow> (True, Some (q @ [req])))"

section \<open>Configuration\<close>

record spam_scores =
  score_character :: u64
  score_image :: u64
  score_post_creation :: u64

record server_config =
  cfg_captcha :: bool
  cfg_links :: "string \<rightharpoonup> string"
  cfg_spam_scores :: spam_scores
  cfg_db_url :: string

section \<open>The Go side\<close>

text \<open>
  The functions linked from Go: a call returns an error string or none and fills its out
  parameters. The state they read and write, the database and the spam scores, is \<open>'db\<close>.
\<close>

record 'db go_env =
  ws_thread_exists :: "u64 \<Rightarrow> 'db \<Rightarrow> string option \<times> bool"
  ws_insert_thread ::
    "string \<Rightarrow> string list \<Rightarrow> u64 \<Rightarrow> string option \<Rightarrow> string option \<Rightarrow> u8 list \<Rightarrow> 'db \<Rightarrow>
     (string option \<times> u64) \<times> 'db"
  ws_insert_post ::
    "u64 \<Rightarrow> u64 \<Rightarrow> string option \<Rightarrow> string option \<Rightarrow> u8 list \<Rightarrow> 'db \<Rightarrow>
     (string option \<times> u64 \<times> u32) \<times> 'db"
  ws_register_public_key :: "u8 list \<Rightarrow> 'db \<Rightarrow> (string option \<times> u64 \<times> uuid \<times> bool) \<times> 'db"
  ws_get_public_key :: "uuid \<Rightarrow> 'db \<Rightarrow> string option \<times> u64 \<times> u8 list"
  ws_get_post_parenthood :: "u64 \<Rightarrow> 'db \<Rightarrow> string option \<times> u64 \<times> u32"
  ws_increment_spam_score :: "u64 \<Rightarrow> u64 \<Rightarrow> 'db \<Rightarrow> 'db"
  ws_need_captcha :: "u64 \<Rightarrow> 'db \<Rightarrow> string option \<times> bool"

definition cast_c_err :: "string option \<Rightarrow> 'a \<Rightarrow> string + 'a" where
  "cast_c_err err v = (case err of Some s \<Rightarrow> Inl s | None \<Rightarrow> Inr v)"

definition thread_exists :: "'db go_env \<Rightarrow> u64 \<Rightarrow> 'db \<Rightarrow> string + bool" where
  "thread_exists go tid db = (case ws_thread_exists go tid db of (err, ex) \<Rightarrow> cast_c_err err ex)"

definition db_insert_thread ::
  "'db go_env \<Rightarrow> string \<Rightarrow> string list \<Rightarrow> u64 \<Rightarrow> string option \<Rightarrow> string option \<Rightarrow> u8 list \<Rightarrow> 'db \<Rightarrow>
   (string + u64) \<times> 'db" where
  "db_insert_thread go subject tags public_key name trip body db =
     (case ws_insert_thread go subject tags public_key name trip body db of
        ((err, tid), db) \<Rightarrow> (cast_c_err err tid, db))"

definition db_insert_post ::
  "'db go_env \<Rightarrow> u64 \<Rightarrow> u64 \<Rightarrow> string option \<Rightarrow> string option \<Rightarrow> u8 list \<Rightarrow> 'db \<Rightarrow>
   (string + (u64 \<times> u32)) \<times> 'db" where
  "db_insert_post go thread public_key name trip body db =
     (case ws_insert_post go thread public_key name trip body db of
        ((err, pid, page), db) \<Rightarrow> (cast_c_err err (pid, page), db))"

definition register_public_key ::
  "'db go_env \<Rightarrow> u8 list \<Rightarrow> 'db \<Rightarrow> (string + (u64 \<times> uuid \<times> bool)) \<times> 'db" where
  "register_public_key go pub_key db =
     (case ws_register_public_key go pub_key db of
        ((err, priv_id, pub_id, fresh), db) \<Rightarrow> (cast_c_err err (priv_id, pub_id, fresh), db))"

definition get_public_key :: "'db go_env \<Rightarrow> uuid \<Rightarrow> 'db \<Rightarrow> string + (u64 \<times> u8 list)" where
  "get_public_key go pub_id db =
     (case ws_get_public_key go pub_id db of
        (err, priv_id, pub_key) \<Rightarrow> cast_c_err err (priv_id, pub_key))"

definition db_post_parenthood :: "'db go_env \<Rightarrow> 'db \<Rightarrow> u64 \<Rightarrow> string + (u64 \<times> u32) option" where
  "db_post_parenthood go db pid =
     (case ws_get_post_parenthood go pid db of
        (err, thread, page) \<Rightarrow>
          (case cast_c_err err () of
             Inr _ \<Rightarrow> Inr (Some (thread, page))
           | Inl e \<Rightarrow> if e = ''no rows in result set'' then Inr None else Inl e))"

definition need_captcha :: "'db go_env \<Rightarrow> server_config \<Rightarrow> u64 \<Rightarrow> 'db \<Rightarrow> string + bool" where
  "need_captcha go cfg pub_key db =
     (if \<not> cfg_captcha cfg then Inr False
      else case ws_need_captcha go pub_key db of (err, need) \<Rightarrow> cast_c_err err need)"

end
