(* ===== verification/Server_Client.thy ===== *)
theory Server_Client
  imports Server_World "HOL-Library.Char_ord" "HOL-Library.List_Lexorder"
begin

text \<open>
  The server's side of one websocket connection, \<^verbatim>\<open>websockets/websockets/src/client.rs\<close>: the
  handshake state machine, thread and post creation and the edits of the open post. A handler is
  an action on the client and the server's state; an early return with an error leaves what was
  changed before it changed.
\<close>

section \<open>State\<close>

record pub_key_desc =
  priv_id :: u64
  pub_id :: uuid

datatype conn_state =
    Connected
  | AcceptedHandshake
  | RequestedReshake "u8 list"
  | Synchronizing

text \<open>\<^verbatim>\<open>OpenPost\<close> of the client: the post being edited. The length is an \<^verbatim>\<open>isize\<close>.\<close>

record edited_post =
  ep_id :: u64
  ep_thread :: u64
  ep_body :: string
  char_length :: int

definition edited_post_new :: "u64 \<Rightarrow> u64 \<Rightarrow> edited_post" where
  "edited_post_new pid thread = \<lparr>ep_id = pid, ep_thread = thread, ep_body = [], char_length = 0\<rparr>"

record client =
  cl_id :: u64
  conn_state :: conn_state
  cl_open_post :: "edited_post option"
  synced_once :: bool
  pub_key :: pub_key_desc

definition client_new :: "u64 \<Rightarrow> client" where
  "client_new cid =
     \<lparr>cl_id = cid, conn_state = Connected, cl_open_post = None, synced_once = False,
      pub_key = \<lparr>priv_id = 0, pub_id = 0\<rparr>\<rparr>"

text \<open>Messages the server answers with; each has its type on the wire.\<close>

datatype server_msg =
    SHandshake handshake_res
  | SSynchronize u64
  | SInsertThreadAck u64
  | SInsertPostAck u64
  | SNeedCaptcha

fun server_msg_type :: "server_msg \<Rightarrow> message_type" where
  "server_msg_type (SHandshake _) = Handshake"
| "server_msg_type (SSynchronize _) = Synchronize"
| "server_msg_type (SInsertThreadAck _) = InsertThreadAck"
| "server_msg_type (SInsertPostAck _) = InsertPostAck"
| "server_msg_type SNeedCaptcha = NeedCaptcha"

text \<open>
  The server's state outside the client: the registry (a client is referred to by its number),
  the location cache, the state of the Go side, the pulsar's channel, the messages written to
  clients and the clients closed with an error.
\<close>

datatype client_error =
    IoErr io_error
  | External string
  | PulsarGone
  | EmptyMessage
  | ExpectedType message_type
  | UnhandledType message_type
  | InvalidThread u64
  | InvalidLength string nat
  | AlreadyOpen
  | DuplicateTags
  | NameTooLong
  | BackspaceZero
  | PatchNop
  | NoPostOpen
  | BodyBounds
  | PatchPosition
  | RemoveCount
  | VersionMismatch u16
  | InvalidSignature
  | DifferentPubId
  | InvalidAuthVariant

record 'db world =
  w_registry :: "u64 registry"
  w_locations :: location_cache
  w_db :: 'db
  w_channel :: channel
  w_sent :: "(u64 \<times> u8 list) list"

text \<open>
  The environment: the Go side, the configuration, the clock, the libraries (compression,
  bincode, the RSA verifier, the tripcode generator) and the Unicode lower case mapping.
\<close>

record 'db server_env =
  go :: "'db go_env"
  cfg :: server_config
  now :: u32
  deflate :: deflater
  inflate :: inflater
  ser :: "server_msg serializer"
  de_handshake :: "handshake_req deserializer"
  de_u64 :: "u64 deserializer"
  de_thread_req :: "thread_creation_req deserializer"
  de_post_req :: "post_creation_req deserializer"
  de_string :: "string deserializer"
  de_u16 :: "u16 deserializer"
  de_text_patch :: "text_patch deserializer"
  verify :: "u8 list \<Rightarrow> u8 list \<Rightarrow> u8 list \<Rightarrow> string + bool"
  tripcode :: "string \<Rightarrow> string"
  to_lowercase :: "string \<Rightarrow> string"
  empty_body_json :: "u8 list"

section \<open>Actions\<close>

type_synonym ('db, 'a) act =
  "client \<times> 'db world \<Rightarrow> (client_error + 'a) \<times> client \<times> 'db world"

definition aret :: "'a \<Rightarrow> ('db, 'a) act" where
  "aret v s = (Inr v, s)"

definition afail :: "client_error \<Rightarrow> ('db, 'a) act" where
  "afail e s = (Inl e, s)"

definition abind :: "('db, 'a) act \<Rightarrow> ('a \<Rightarrow> ('db, 'b) act) \<Rightarrow> ('db, 'b) act" where
  "abind m f s = (case m s of (Inl e, s) \<Rightarrow> (Inl e, s) | (Inr v, s) \<Rightarrow> f v s)"

abbreviation aseq :: "('db, unit) act \<Rightarrow> ('db, 'b) act \<Rightarrow> ('db, 'b) act" where
  "aseq m n \<equiv> abind m (\<lambda>_. n)"

definition aclient :: "(client \<Rightarrow> client) \<Rightarrow> ('db, unit) act" where
  "aclient f s = (Inr (), f (fst s), snd s)"

definition aworld :: "('db world \<Rightarrow> 'db world) \<Rightarrow> ('db, unit) act" where
  "aworld f s = (Inr (), fst s, f (snd s))"

definition alift :: "('e \<Rightarrow> client_error) \<Rightarrow> (client \<Rightarrow> 'db world \<Rightarrow> 'e + 'a) \<Rightarrow> ('db, 'a) act" where
  "alift wrap f s = (case f (fst s) (snd s) of Inl e \<Rightarrow> (Inl (wrap e), s) | Inr v \<Rightarrow> (Inr v, s))"

text \<open>A call of the Go side that changes its state.\<close>

definition adb :: "(client \<Rightarrow> 'db \<Rightarrow> (string + 'a) \<times> 'db) \<Rightarrow> ('db, 'a) act" where
  "adb f s =
     (case f (fst s) (w_db (snd s)) of
        (r, db) \<Rightarrow>
          (case r of Inl e \<Rightarrow> Inl (External e) | Inr v \<Rightarrow> Inr v, fst s, (snd s)\<lparr>w_db := db\<rparr>))"

definition arequest :: "pulsar_request \<Rightarrow> ('db, unit) act" where
  "arequest req s =
     (case send_request req (w_channel (snd s)) of
        (sent, ch) \<Rightarrow>
          (if sent then Inr () else Inl PulsarGone, fst s, (snd s)\<lparr>w_channel := ch\<rparr>))"

section \<open>Helpers\<close>

definition check_len :: "string \<Rightarrow> nat \<Rightarrow> nat \<Rightarrow> client_error + unit" where
  "check_len name l mx = (if l < 1 \<or> l > mx then Inl (InvalidLength name l) else Inr ())"

definition check_unicode_len :: "string \<Rightarrow> string \<Rightarrow> nat \<Rightarrow> client_error + nat" where
  "check_unicode_len name s mx =
     (let l = char_count s in if l < 1 \<or> l > mx then Inl (InvalidLength name l) else Inr l)"

definition client_send :: "'db server_env \<Rightarrow> server_msg \<Rightarrow> ('db, unit) act" where
  "client_send env msg =
     abind (alift IoErr (\<lambda>_ _. encode (deflate env) (ser env) (server_msg_type msg) msg)) (\<lambda>bs s.
       (Inr (), fst s, (snd s)\<lparr>w_sent := w_sent (snd s) @ [(cl_id (fst s), bs)]\<rparr>))"

definition synchronize :: "'db server_env \<Rightarrow> u64 \<Rightarrow> ('db, unit) act" where
  "synchronize env feed =
     abind (if feed \<noteq> 0 then alift External (\<lambda>_ w. thread_exists (go env) feed (w_db w)) else aret True)
       (\<lambda>ex. if \<not> ex then afail (InvalidThread feed)
        else
          aseq (\<lambda>s. (Inr (), fst s, (snd s)\<lparr>w_registry :=
                       set_client_thread (cl_id (fst s)) feed (w_registry (snd s))\<rparr>))
          (aseq (aclient (\<lambda>c. if \<not> synced_once c then c\<lparr>synced_once := True\<rparr> else c))
                (client_send env (SSynchronize feed))))"

definition check_captcha :: "'db server_env \<Rightarrow> u8 list \<Rightarrow> client_error + unit" where
  "check_captcha env solution =
     (if cfg_captcha (cfg env) then check_len ''solution'' (length solution) 4 else Inr ())"

definition assert_no_open_post :: "client \<Rightarrow> client_error + unit" where
  "assert_no_open_post c = (if cl_open_post c \<noteq> None then Inl AlreadyOpen else Inr ())"

definition parse_name ::
  "'db server_env \<Rightarrow> string \<Rightarrow> client_error + (string option \<times> string option)" where
  "parse_name env src =
     (if length src = 0 then Inr (None, None)
      else if length src > 50 then Inl NameTooLong
      else
        let src = str_trim src in
        case position (\<lambda>b. b = CHR ''#'') src of
          Some i \<Rightarrow>
            if i \<noteq> length src - 1 then Inr (Some (take i src), Some (tripcode env (drop (i + 1) src)))
            else Inr (Some src, None)
        | None \<Rightarrow> Inr (Some src, None))"

fun normalize_tags :: "'db server_env \<Rightarrow> string list \<Rightarrow> client_error + string list" where
  "normalize_tags env [] = Inr []"
| "normalize_tags env (tag # tags) =
     (let tag = to_lowercase env (str_trim tag) in
      rbind (check_unicode_len ''tag'' tag 20) (\<lambda>_.
        rbind (normalize_tags env tags) (\<lambda>tags. Inr (tag # tags))))"

section \<open>Threads and posts\<close>

definition check_thread_req ::
  "'db server_env \<Rightarrow> thread_creation_req \<Rightarrow> client_error + (string \<times> string list \<times> string option \<times> string option)"
  where
  "check_thread_req env req =
     (let subject = str_trim (tcr_subject req) in
      rbind (check_unicode_len ''req.subject'' subject 100) (\<lambda>_.
        rbind (check_len ''req.tags'' (length (tcr_tags req)) 3) (\<lambda>_.
          rbind (normalize_tags env (tcr_tags req)) (\<lambda>tags.
            if length (remdups tags) \<noteq> length tags then Inl DuplicateTags
            else
              let tags = sort tags in
              rbind (parse_name env (opts_name (tcr_opts req))) (\<lambda>(name, trip).
                rbind (check_captcha env (captcha_solution req)) (\<lambda>_.
                  Inr (subject, tags, name, trip)))))))"

definition insert_thread :: "'db server_env \<Rightarrow> thread_creation_req \<Rightarrow> ('db, unit) act" where
  "insert_thread env req =
     aseq (alift (\<lambda>e. e) (\<lambda>c _. assert_no_open_post c))
     (abind (alift (\<lambda>e. e) (\<lambda>_ _. check_thread_req env req)) (\<lambda>(subject, tags, name, trip).
      abind (adb (\<lambda>c. db_insert_thread (go env) subject tags (priv_id (pub_key c)) name trip
                        (empty_body_json env))) (\<lambda>tid.
      aseq (aworld (\<lambda>w. w\<lparr>w_locations := cache_location tid tid 0 (w_locations w)\<rparr>))
      (aseq (arequest (ReqInsertThread
               \<lparr>tcn_id = tid, tcn_subject = subject, tcn_tags = tags, tcn_time = now env\<rparr>))
      (aseq (client_send env (SInsertThreadAck tid))
        (aclient (\<lambda>c. c\<lparr>cl_open_post := Some (edited_post_new tid tid)\<rparr>)))))))"

definition insert_post :: "'db server_env \<Rightarrow> post_creation_req \<Rightarrow> ('db, unit) act" where
  "insert_post env req =
     aseq (alift (\<lambda>e. e) (\<lambda>c _. assert_no_open_post c))
     (abind (alift External (\<lambda>c w. need_captcha (go env) (cfg env) (priv_id (pub_key c)) (w_db w)))
      (\<lambda>need.
       if need then client_send env SNeedCaptcha
       else
         abind (alift (\<lambda>e. e) (\<lambda>_ _. parse_name env (opts_name (pcr_opts req)))) (\<lambda>(name, trip).
         abind (adb (\<lambda>_. db_insert_post (go env) (pcr_thread req) (pcr_thread req) name trip
                           (empty_body_json env))) (\<lambda>(pid, page).
         aseq (aworld (\<lambda>w. w\<lparr>w_locations := cache_location pid (pcr_thread req) page (w_locations w)\<rparr>))
         (aseq (arequest (ReqInsertPost
                  \<lparr>pcn_id = pid, pcn_thread = pcr_thread req, pcn_time = now env, pcn_page = page\<rparr>))
         (aseq (client_send env (SInsertPostAck pid))
           (aclient (\<lambda>c. c\<lparr>cl_open_post := Some (edited_post_new pid (pcr_thread req))\<rparr>))))))))"

section \<open>Body edits\<close>

text \<open>
  The changed length stays changed when an error follows it; the score is a product of
  \<^verbatim>\<open>usize\<close> values and wraps.
\<close>

definition update_body ::
  "'db server_env \<Rightarrow> int \<Rightarrow> nat \<Rightarrow> (string \<Rightarrow> string \<times> client_error option) \<Rightarrow> ('db, unit) act" where
  "update_body env len_diff affected modify s =
     (case cl_open_post (fst s) of
        None \<Rightarrow> (Inl NoPostOpen, s)
      | Some p \<Rightarrow>
          let p = p\<lparr>char_length := char_length p + len_diff\<rparr>;
              c = (fst s)\<lparr>cl_open_post := Some p\<rparr> in
          if char_length p < 0 \<or> char_length p > 2000 then (Inl BodyBounds, c, snd s)
          else
            let (body, err) = modify (ep_body p);
                p = p\<lparr>ep_body := body\<rparr>;
                c = c\<lparr>cl_open_post := Some p\<rparr> in
            (case err of
               Some e \<Rightarrow> (Inl e, c, snd s)
             | None \<Rightarrow>
                 aseq (arequest (ReqSetOpenBody (ep_id p) (ep_thread p) (ep_body p)))
                   (aworld (\<lambda>w. w\<lparr>w_db := ws_increment_spam_score (go env) (priv_id (pub_key c))
                       (of_nat affected * score_character (cfg_spam_scores (cfg env))) (w_db w)\<rparr>))
                   (c, snd s)))"

definition append_body :: "'db server_env \<Rightarrow> string \<Rightarrow> ('db, unit) act" where
  "append_body env str =
     abind (alift (\<lambda>e. e) (\<lambda>_ _. check_unicode_len ''s'' str 2000)) (\<lambda>n.
       update_body env (int n) n (\<lambda>b. (b @ str, None)))"

text \<open>
  The loop over the bytes from the back: the string is cut before the \<open>n\<close>-th character start,
  and left alone when there are fewer.
\<close>

fun backspace_loop :: "nat \<Rightarrow> nat \<Rightarrow> string \<Rightarrow> nat \<Rightarrow> string" where
  "backspace_loop n removed str 0 = str"
| "backspace_loop n removed str (Suc i) =
     (if char_start (str ! i) then
        (if removed + 1 = n then take i str else backspace_loop n (removed + 1) str i)
      else backspace_loop n removed str i)"

definition backspace :: "'db server_env \<Rightarrow> nat \<Rightarrow> ('db, unit) act" where
  "backspace env n =
     (if n = 0 then afail BackspaceZero
      else update_body env (- int n) n (\<lambda>str. (backspace_loop n 0 str (length str), None)))"

text \<open>The byte position of a character, by counting character starts.\<close>

fun byte_pos_from :: "string \<Rightarrow> nat \<Rightarrow> int \<Rightarrow> nat \<Rightarrow> nat option" where
  "byte_pos_from [] i char_pos needed = None"
| "byte_pos_from (b # bs) i char_pos needed =
     (if char_start b then
        (if char_pos + 1 = int needed then Some i else byte_pos_from bs (i + 1) (char_pos + 1) needed)
      else byte_pos_from bs (i + 1) char_pos needed)"

definition byte_pos :: "string \<Rightarrow> nat \<Rightarrow> nat option" where
  "byte_pos str needed = byte_pos_from str 0 (- 1) needed"

text \<open>
  \<^verbatim>\<open>split_off\<close> has cut the body before the second position is looked up: when that fails the
  cut body with the insertion stays.
\<close>

definition patch_modify :: "text_patch \<Rightarrow> string \<Rightarrow> string \<times> client_error option" where
  "patch_modify req str =
     (case byte_pos str (unat (patch_position req)) of
        None \<Rightarrow> (str, Some PatchPosition)
      | Some i \<Rightarrow>
          let rest = drop i str;
              str = take i str @ patch_insert req in
          (case byte_pos rest (unat (patch_remove req)) of
             None \<Rightarrow> (str, Some RemoveCount)
           | Some j \<Rightarrow> (str @ take j rest, None)))"

definition patch_body :: "'db server_env \<Rightarrow> text_patch \<Rightarrow> ('db, unit) act" where
  "patch_body env req =
     abind (alift (\<lambda>e. e) (\<lambda>_ _. check_unicode_len ''req.insert'' (patch_insert req) 2000)) (\<lambda>insert_len.
       if insert_len = 0 \<and> patch_remove req = 0 then afail PatchNop
       else update_body env (int insert_len - int (unat (patch_remove req)))
              (insert_len + unat (patch_remove req)) (patch_modify req))"

section \<open>Handshake\<close>

definition aread :: "'p deserializer \<Rightarrow> decoder \<Rightarrow> ('db, 'p \<times> decoder) act" where
  "aread de d s =
     (case read_next de d of (d', Inl e) \<Rightarrow> (Inl (IoErr e), s) | (d', Inr p) \<Rightarrow> (Inr (p, d'), s))"

definition decode_handshake :: "'db server_env \<Rightarrow> decoder \<Rightarrow> ('db, handshake_req \<times> decoder) act" where
  "decode_handshake env d =
     abind (aread (de_handshake env) d) (\<lambda>(req, d).
       if protocol_version req \<noteq> PROTOCOL_VERSION then afail (VersionMismatch (protocol_version req))
       else aret (req, d))"

definition handle_auth_saved ::
  "'db server_env \<Rightarrow> u8 list \<Rightarrow> u8 list \<Rightarrow> u8 list \<Rightarrow> ('db, unit) act" where
  "handle_auth_saved env nonce signature key =
     abind (alift External (\<lambda>c _. verify env key (uuid_bytes (pub_id (pub_key c)) @ nonce) signature))
       (\<lambda>valid.
        if \<not> valid then afail InvalidSignature
        else
          aseq (\<lambda>s. client_send env
                 (SHandshake \<lparr>need_resend = False, hr_id = pub_id (pub_key (fst s))\<rparr>) s)
            (aclient (\<lambda>c. c\<lparr>conn_state := AcceptedHandshake\<rparr>)))"

definition handle_handshake :: "'db server_env \<Rightarrow> decoder \<Rightarrow> ('db, decoder) act" where
  "handle_handshake env d =
     abind (decode_handshake env d) (\<lambda>(req, d).
       case auth req of
         NewPubKey key \<Rightarrow>
           aseq (alift (\<lambda>e. e) (\<lambda>_ _. check_len ''pub_key'' (length key) 1024))
           (abind (adb (\<lambda>_. register_public_key (go env) key)) (\<lambda>(priv, pub, fresh).
            aseq (aclient (\<lambda>c. c\<lparr>pub_key := \<lparr>priv_id = priv, pub_id = pub\<rparr>\<rparr>))
            (aseq
              (if fresh then
                 aseq (\<lambda>s. (Inr (), fst s, (snd s)\<lparr>w_registry :=
                              set_client_key (cl_id (fst s)) priv (w_registry (snd s))\<rparr>))
                   (aclient (\<lambda>c. c\<lparr>conn_state := AcceptedHandshake\<rparr>))
               else aclient (\<lambda>c. c\<lparr>conn_state := RequestedReshake key\<rparr>))
            (aseq (client_send env (SHandshake \<lparr>need_resend = \<not> fresh, hr_id = pub\<rparr>))
              (aret d)))))
       | Saved pub nonce signature \<Rightarrow>
           abind (alift External (\<lambda>_ w. get_public_key (go env) pub (w_db w))) (\<lambda>(priv, key).
           aseq (aclient (\<lambda>c. c\<lparr>pub_key := \<lparr>priv_id = priv, pub_id = pub\<rparr>\<rparr>))
           (aseq (handle_auth_saved env nonce signature key) (aret d))))"

definition handle_reshake :: "'db server_env \<Rightarrow> decoder \<Rightarrow> u8 list \<Rightarrow> ('db, decoder) act" where
  "handle_reshake env d key =
     abind (decode_handshake env d) (\<lambda>(req, d).
       case auth req of
         Saved pub nonce signature \<Rightarrow>
           (\<lambda>s. (if pub \<noteq> pub_id (pub_key (fst s)) then afail DifferentPubId
                 else aseq (handle_auth_saved env nonce signature key) (aret d)) s)
       | NewPubKey _ \<Rightarrow> afail InvalidAuthVariant)"

section \<open>Message loop\<close>

definition route :: "'p deserializer \<Rightarrow> decoder \<Rightarrow> ('p \<Rightarrow> ('db, unit) act) \<Rightarrow> ('db, decoder) act" where
  "route de d handler = abind (aread de d) (\<lambda>(payload, d). aseq (handler payload) (aret d))"

text \<open>One round of the loop: the message of type \<open>t\<close> in the state of the connection.\<close>

definition handle_message :: "'db server_env \<Rightarrow> message_type \<Rightarrow> decoder \<Rightarrow> ('db, decoder) act" where
  "handle_message env t d s =
     (case conn_state (fst s) of
        Connected \<Rightarrow>
          if t \<noteq> Handshake then afail (ExpectedType Handshake) s else handle_handshake env d s
      | RequestedReshake key \<Rightarrow>
          if t \<noteq> Handshake then afail (ExpectedType Handshake) s else handle_reshake env d key s
      | AcceptedHandshake \<Rightarrow>
          if t \<noteq> Synchronize then afail (ExpectedType Synchronize) s
          else route (de_u64 env) d (\<lambda>feed.
                 aseq (aclient (\<lambda>c. c\<lparr>conn_state := Synchronizing\<rparr>)) (synchronize env feed)) s
      | Synchronizing \<Rightarrow>
          (if t = InsertThread then route (de_thread_req env) d (insert_thread env)
           else if t = Synchronize then route (de_u64 env) d (synchronize env)
           else if t = InsertPost then route (de_post_req env) d (insert_post env)
           else if t = Append then route (de_string env) d (append_body env)
           else if t = Backspace then route (de_u16 env) d (\<lambda>n. backspace env (unat n))
           else if t = PatchPostBody then route (de_text_patch env) d (patch_body env)
           else afail (UnhandledType t)) s)"

named_theorems act_simps \<open>evaluation of actions\<close>

lemma abind_Inr [act_simps]:
  "abind m f s = (Inr v, s'') \<longleftrightarrow> (\<exists>u s'. m s = (Inr u, s') \<and> f u s' = (Inr v, s''))"
  by (auto simp: abind_def split: prod.splits sum.splits)

lemma abind_Inl [act_simps]:
  "abind m f s = (Inl e, s'') \<longleftrightarrow>
     m s = (Inl e, s'') \<or> (\<exists>u s'. m s = (Inr u, s') \<and> f u s' = (Inl e, s''))"
  by (auto simp: abind_def split: prod.splits sum.splits)

lemma abind_eval: "m s = (Inr u, s') \<Longrightarrow> abind m f s = f u s'"
  and abind_fail: "m s = (Inl e, s') \<Longrightarrow> abind m f s = (Inl e, s')"
  by (simp_all add: abind_def)

lemmas act_defs [act_simps] = aret_def afail_def aclient_def aworld_def

lemma read_next_advances: "read_next de d = (d', Inr p) \<Longrightarrow> d' = d\<lparr>off := off d + 1\<rparr>"
  by (auto simp: read_next_def Let_def split: option.splits sum.splits)

lemma aread_Inr [act_simps]:
  "aread de d s = (Inr (p, d'), s') \<longleftrightarrow> snd (read_next de d) = Inr p \<and> d' = d\<lparr>off := off d + 1\<rparr> \<and> s' = s"
  by (auto simp: aread_def dest: read_next_advances split: prod.splits sum.splits)

lemma route_advances: "route de d h s = (Inr d', s') \<Longrightarrow> d' = d\<lparr>off := off d + 1\<rparr>"
  by (auto simp: route_def act_simps)

lemma decode_handshake_advances:
  "decode_handshake env d s = (Inr (req, d'), s') \<Longrightarrow> d' = d\<lparr>off := off d + 1\<rparr>"
  by (auto simp: decode_handshake_def act_simps split: if_splits)

lemma handle_handshake_advances:
  assumes "handle_handshake env d s = (Inr d', s')"
  shows "d' = d\<lparr>off := off d + 1\<rparr>"
proof -
  from assms obtain req d1 s1 where dh: "decode_handshake env d s = (Inr (req, d1), s1)"
    unfolding handle_handshake_def abind_Inr by auto
  from decode_handshake_advances [OF dh] assms show ?thesis
    by (cases "auth req") (auto simp: handle_handshake_def abind_eval [of "decode_handshake env d", OF dh] abind_Inr aret_def)
qed

lemma handle_reshake_advances:
  assumes "handle_reshake env d key s = (Inr d', s')"
  shows "d' = d\<lparr>off := off d + 1\<rparr>"
proof -
  from assms obtain req d1 s1 where dh: "decode_handshake env d s = (Inr (req, d1), s1)"
    unfolding handle_reshake_def abind_Inr by auto
  from decode_handshake_advances [OF dh] assms show ?thesis
    by (cases "auth req")
      (auto simp: handle_reshake_def abind_eval [of "decode_handshake env d", OF dh] abind_Inr aret_def afail_def split: if_splits)
qed

lemma handle_message_advances:
  "handle_message env t d s = (Inr d', s') \<Longrightarrow> d' = d\<lparr>off := off d + 1\<rparr>"
  by (auto simp: handle_message_def afail_def split: conn_state.splits if_splits
      dest: route_advances handle_handshake_advances handle_reshake_advances)

lemma peek_type_less: "peek_type d = Some t \<Longrightarrow> off d < length (message_types (splitter d))"
  by (simp add: peek_type_def get_nth_def split: if_splits)

function receive_loop :: "'db server_env \<Rightarrow> bool \<Rightarrow> decoder \<Rightarrow> ('db, unit) act" where
  "receive_loop env is_first d s =
     (case peek_type d of
        None \<Rightarrow> if is_first then (Inl EmptyMessage, s) else (Inr (), s)
      | Some t \<Rightarrow>
          (case handle_message env t d s of
             (Inl e, s') \<Rightarrow> (Inl e, s')
           | (Inr d', s') \<Rightarrow> receive_loop env False d' s'))"
  by pat_completeness auto
termination
proof (relation "measure (\<lambda>(env, is_first, d, s). length (message_types (splitter d)) - off d)")
  fix env :: "'db server_env" and is_first d s t r s' d'
  assume "peek_type d = Some t" "(r, s') = handle_message env t d s" "r = Inr d'"
  then have "d' = d\<lparr>off := off d + 1\<rparr>" "off d < length (message_types (splitter d))"
    using handle_message_advances peek_type_less by metis+
  then show "((env, False, d', s'), env, is_first, d, s) \<in>
      measure (\<lambda>(env, is_first, d, s). length (message_types (splitter d)) - off d)"
    by simp
qed simp

declare receive_loop.simps [simp del]

definition receive_message :: "'db server_env \<Rightarrow> u8 list \<Rightarrow> ('db, unit) act" where
  "receive_message env buf =
     abind (alift IoErr (\<lambda>_ _. decoder_new (inflate env) buf)) (receive_loop env True)"

section \<open>Entry points\<close>

text \<open>
  The server: all clients by number, beside the state they act on, and the clients closed with
  an error so far.
\<close>

record 'db server =
  srv_clients :: "u64 \<rightharpoonup> client"
  srv_world :: "'db world"
  srv_closed :: "(u64 \<times> client_error) list"

definition ws_register_client :: "u64 \<Rightarrow> 'db server \<Rightarrow> 'db server" where
  "ws_register_client cid s =
     s\<lparr>srv_clients := (srv_clients s)(cid \<mapsto> client_new cid),
       srv_world := (srv_world s)\<lparr>w_registry := add_client cid cid (w_registry (srv_world s))\<rparr>\<rparr>"

definition ws_unregister_client :: "u64 \<Rightarrow> 'db server \<Rightarrow> 'db server" where
  "ws_unregister_client cid s =
     s\<lparr>srv_world := (srv_world s)\<lparr>w_registry := remove_client cid (w_registry (srv_world s))\<rparr>\<rparr>"

definition close_client :: "u64 \<Rightarrow> client_error \<Rightarrow> 'db server \<Rightarrow> 'db server" where
  "close_client cid err s =
     s\<lparr>srv_world := (srv_world s)\<lparr>w_registry := remove_client cid (w_registry (srv_world s))\<rparr>,
       srv_closed := srv_closed s @ [(cid, err)]\<rparr>"

definition ws_receive_message :: "'db server_env \<Rightarrow> u64 \<Rightarrow> u8 list \<Rightarrow> 'db server \<Rightarrow> 'db server" where
  "ws_receive_message env cid msg s =
     (case Option.bind (get_client cid (w_registry (srv_world s))) (srv_clients s) of
        None \<Rightarrow> s
      | Some c \<Rightarrow>
          (case receive_message env msg (c, srv_world s) of
             (r, c, w) \<Rightarrow>
               let s = s\<lparr>srv_clients := (srv_clients s)(cid \<mapsto> c), srv_world := w\<rparr> in
               (case r of Inl err \<Rightarrow> close_client cid err s | Inr _ \<Rightarrow> s)))"

section \<open>Authentication\<close>

text \<open>What an action leaves alone before the client is accepted: posts, threads and channel.\<close>

lemma client_send_frame:
  assumes "client_send env msg s = (r, s')"
  shows "fst s' = fst s \<and> (\<exists>l. snd s' = (snd s)\<lparr>w_sent := l\<rparr>)"
proof -
  have "\<exists>l. w = w\<lparr>w_sent := l\<rparr>" for w :: "'a world"
    by (rule exI [of _ "w_sent w"]) simp
  with assms show ?thesis
    by (auto simp: client_send_def abind_def alift_def split: prod.splits sum.splits)
qed

lemma alift_Inr [act_simps]: "alift wrap f s = (Inr v, s') \<longleftrightarrow> f (fst s) (snd s) = Inr v \<and> s' = s"
  by (auto simp: alift_def split: sum.splits)

lemma alift_frame: "alift wrap f s = (r, s') \<Longrightarrow> s' = s"
  by (auto simp: alift_def split: sum.splits)

lemma adb_Inr [act_simps]:
  "adb f s = (Inr v, s') \<longleftrightarrow> fst (f (fst s) (w_db (snd s))) = Inr v \<and>
     s' = (fst s, (snd s)\<lparr>w_db := snd (f (fst s) (w_db (snd s)))\<rparr>)"
  by (auto simp: adb_def split: prod.splits sum.splits)

lemma decode_handshake_Inr:
  "decode_handshake env d s = (Inr (req, d'), s') \<longleftrightarrow>
     snd (read_next (de_handshake env) d) = Inr req \<and> protocol_version req = PROTOCOL_VERSION \<and>
     d' = d\<lparr>off := off d + 1\<rparr> \<and> s' = s"
  by (cases s) (auto simp: decode_handshake_def act_simps split: if_splits)

text \<open>
  The proof that a client owns its key: the key was registered by it just now, or a signature on
  the public number of the key was verified.
\<close>

definition proof_of_key :: "'db server_env \<Rightarrow> client \<Rightarrow> bool" where
  "proof_of_key env c \<longleftrightarrow>
     (\<exists>key db. fst (register_public_key (go env) key db) =
        Inr (priv_id (pub_key c), pub_id (pub_key c), True)) \<or>
     (\<exists>key nonce signature. verify env key (uuid_bytes (pub_id (pub_key c)) @ nonce) signature = Inr True)"

lemma handle_auth_saved_proof:
  assumes "handle_auth_saved env nonce signature key s = (Inr (), s')"
  shows "proof_of_key env (fst s') \<and> pub_key (fst s') = pub_key (fst s) \<and>
    cl_open_post (fst s') = cl_open_post (fst s) \<and> conn_state (fst s') = AcceptedHandshake \<and>
    w_registry (snd s') = w_registry (snd s)"
proof -
  from assms obtain s1 where v: "verify env key (uuid_bytes (pub_id (pub_key (fst s))) @ nonce) signature = Inr True"
    and s1: "client_send env (SHandshake \<lparr>need_resend = False, hr_id = pub_id (pub_key (fst s))\<rparr>) s = (Inr (), s1)"
    and s': "s' = ((fst s1)\<lparr>conn_state := AcceptedHandshake\<rparr>, snd s1)"
    unfolding handle_auth_saved_def by (auto simp: act_simps split: if_splits)
  from client_send_frame [OF s1] v show ?thesis
    by (auto simp: s' proof_of_key_def)
qed

lemma handle_reshake_proof:
  assumes "handle_reshake env d key s = (Inr d', s')"
  shows "proof_of_key env (fst s') \<and> cl_open_post (fst s') = cl_open_post (fst s)"
proof -
  from assms obtain req d1 where dh: "decode_handshake env d s = (Inr (req, d1), s)"
    unfolding handle_reshake_def abind_Inr by (auto simp: decode_handshake_Inr)
  from assms show ?thesis
    by (cases "auth req")
      (auto simp: handle_reshake_def abind_eval [of "decode_handshake env d", OF dh] abind_Inr aret_def
        afail_def split: if_splits dest!: handle_auth_saved_proof)
qed

lemma handle_handshake_proof:
  assumes "handle_handshake env d s = (Inr d', s')"
  shows "(conn_state (fst s') = AcceptedHandshake \<longrightarrow> proof_of_key env (fst s')) \<and>
    conn_state (fst s') \<noteq> Synchronizing \<and> cl_open_post (fst s') = cl_open_post (fst s)"
proof -
  from assms obtain req d1 where dh: "decode_handshake env d s = (Inr (req, d1), s)"
    unfolding handle_handshake_def abind_Inr by (auto simp: decode_handshake_Inr)
  note [simp] = abind_eval [of "decode_handshake env d", OF dh]
  show ?thesis
  proof (cases "auth req")
    case (NewPubKey key)
    from assms NewPubKey obtain priv pub fresh where
      "fst (register_public_key (go env) key (w_db (snd s))) = Inr (priv, pub, fresh)"
      and "pub_key (fst s') = \<lparr>priv_id = priv, pub_id = pub\<rparr>"
      and "conn_state (fst s') = (if fresh then AcceptedHandshake else RequestedReshake key)"
      and "cl_open_post (fst s') = cl_open_post (fst s)"
      by (auto simp: handle_handshake_def act_simps split: if_splits dest!: client_send_frame)
    then show ?thesis
      unfolding proof_of_key_def by (auto split: if_splits)
  next
    case (Saved pub nonce signature)
    with assms show ?thesis
      by (auto simp: handle_handshake_def act_simps dest!: handle_auth_saved_proof)
  qed
qed

text \<open>An action keeps a part of the client's state, whether it succeeds or fails.\<close>

definition keeps :: "(client \<Rightarrow> 'x) \<Rightarrow> ('db, 'a) act \<Rightarrow> bool" where
  "keeps f m \<longleftrightarrow> (\<forall>s. f (fst (snd (m s))) = f (fst s))"

named_theorems keeps_intros \<open>parts of the client an action keeps\<close>

lemma keeps_bind [keeps_intros]: "keeps f m \<Longrightarrow> (\<And>v. keeps f (n v)) \<Longrightarrow> keeps f (abind m n)"
  by (auto simp: keeps_def abind_def split: prod.splits sum.splits) (metis fst_conv snd_conv)+

lemma keeps_basic [keeps_intros]:
  "keeps f (aret v)" "keeps f (afail e)" "keeps f (aworld g)" "keeps f (alift wrap h)"
  "keeps f (adb k)" "keeps f (arequest req)" "keeps f (aread de d)"
  by (auto simp: keeps_def aret_def afail_def aworld_def alift_def adb_def arequest_def aread_def
      split: prod.split sum.split)

lemma keeps_client [keeps_intros]: "(\<And>c. f (g c) = f c) \<Longrightarrow> keeps f (aclient g)"
  by (simp add: keeps_def aclient_def)

lemma keeps_send [keeps_intros]: "keeps f (client_send env msg)"
  by (simp add: keeps_def client_send_def abind_def alift_def split: sum.split)

lemma keeps_if [keeps_intros]: "keeps f m \<Longrightarrow> keeps f n \<Longrightarrow> keeps f (if b then m else n)"
  by simp

lemma keeps_pair [keeps_intros]: "(\<And>a b. keeps f (m a b)) \<Longrightarrow> keeps f (case p of (a, b) \<Rightarrow> m a b)"
  by (cases p) simp

lemma keeps_update_body:
  assumes "\<And>c p. f (c\<lparr>cl_open_post := p\<rparr>) = f c"
  shows "keeps f (update_body (env :: 'db server_env) n k modify)"
proof -
  have "keeps f (aseq (arequest req) (aworld g))" for req and g :: "'db world \<Rightarrow> 'db world"
    by (intro keeps_intros)
  then have seq: "f (fst (snd (aseq (arequest req) (aworld g) s))) = f (fst s)"
    for req s and g :: "'db world \<Rightarrow> 'db world"
    unfolding keeps_def by (rule spec)
  show ?thesis
    by (simp add: keeps_def update_body_def Let_def assms seq split: option.split prod.split)
qed

lemma keeps_edits [keeps_intros]:
  assumes "\<And>c p. f (c\<lparr>cl_open_post := p\<rparr>) = f c"
  shows "keeps f (append_body env str)" "keeps f (backspace env n)" "keeps f (patch_body env req)"
    "keeps f (insert_thread env treq)" "keeps f (insert_post env preq)"
  unfolding append_body_def backspace_def patch_body_def insert_thread_def insert_post_def
  using assms by (intro keeps_intros keeps_update_body; simp)+

lemma keeps_synchronize [keeps_intros]:
  assumes "\<And>c b. f (c\<lparr>synced_once := b\<rparr>) = f c"
  shows "keeps f (synchronize env feed)"
proof -
  have "keeps f (\<lambda>s. (Inr (), fst s, (snd s)\<lparr>w_registry :=
      set_client_thread (cl_id (fst s)) feed (w_registry (snd s))\<rparr>))"
    by (simp add: keeps_def)
  then show ?thesis
    unfolding synchronize_def using assms by (intro keeps_intros; simp)
qed

lemma keepsD: "keeps f m \<Longrightarrow> m s = (r, s') \<Longrightarrow> f (fst s') = f (fst s)"
  unfolding keeps_def by (metis fst_conv snd_conv)

lemma keeps_route: "(\<And>p. keeps f (h p)) \<Longrightarrow> keeps f (route de d h)"
  unfolding route_def by (intro keeps_intros)

text \<open>
  The connection of one client: messages handled without an error, and anything that happens to
  the rest of the server in between.
\<close>

inductive conn_reach :: "'db server_env \<Rightarrow> client \<times> 'db world \<Rightarrow> bool" for env where
  start: "conn_reach env (client_new cid, w)"
| message: "conn_reach env s \<Longrightarrow> handle_message env t d s = (Inr d', s') \<Longrightarrow> conn_reach env s'"
| others: "conn_reach env (c, w) \<Longrightarrow> conn_reach env (c, w')"

lemma synchronizing_keeps:
  assumes "handle_message env t d s = (Inr d', s')" "conn_state (fst s) = Synchronizing"
    "\<And>c p. f (c\<lparr>cl_open_post := p\<rparr>) = f c" "\<And>c b. f (c\<lparr>synced_once := b\<rparr>) = f c"
  shows "f (fst s') = f (fst s)"
proof -
  have "keeps f (if t = InsertThread then route (de_thread_req env) d (insert_thread env)
           else if t = Synchronize then route (de_u64 env) d (synchronize env)
           else if t = InsertPost then route (de_post_req env) d (insert_post env)
           else if t = Append then route (de_string env) d (append_body env)
           else if t = Backspace then route (de_u16 env) d (\<lambda>n. backspace env (unat n))
           else if t = PatchPostBody then route (de_text_patch env) d (patch_body env)
           else afail (UnhandledType t))" (is "keeps _ ?m")
    using assms(3,4) by (intro keeps_intros keeps_route) simp_all
  moreover have "?m s = (Inr d', s')"
    using assms by (simp add: handle_message_def)
  ultimately show ?thesis by (rule keepsD)
qed

lemma accepted_to_synchronizing:
  assumes "handle_message env t d s = (Inr d', s')" "conn_state (fst s) = AcceptedHandshake"
  shows "pub_key (fst s') = pub_key (fst s) \<and> conn_state (fst s') = Synchronizing"
proof -
  from assms obtain feed where
    "synchronize env feed ((fst s)\<lparr>conn_state := Synchronizing\<rparr>, snd s) = (Inr (), s')"
    by (auto simp: handle_message_def route_def act_simps split: if_splits)
  from keepsD [where m = "synchronize env feed" and f = pub_key, OF _ this]
    keepsD [where m = "synchronize env feed" and f = conn_state, OF _ this]
  show ?thesis by (simp add: keeps_synchronize)
qed


section \<open>Edits of the open post\<close>

definition starts :: "string \<Rightarrow> nat" where
  "starts s = length (filter char_start s)"

lemma starts_simps [simp]:
  "starts [] = 0" "starts (b # s) = (if char_start b then Suc (starts s) else starts s)"
  "starts (s @ t) = starts s + starts t"
  by (simp_all add: starts_def)

lemma starts_none: "\<forall>b \<in> set s. \<not> char_start b \<Longrightarrow> starts s = 0"
  by (simp add: starts_def)

lemma char_count_starts: "at_boundary s \<Longrightarrow> char_count s = starts s"
  unfolding char_count_def
proof (induction s rule: chars.induct)
  case (2 b s)
  have "s = takeWhile (\<lambda>b. \<not> char_start b) s @ dropWhile (\<lambda>b. \<not> char_start b) s"
    by simp
  then have "starts s = starts (dropWhile (\<lambda>b. \<not> char_start b) s)"
    using starts_none [OF takeWhile_all [of "\<lambda>b. \<not> char_start b" s]] by (metis add_0 starts_simps(3))
  with 2 at_boundary_dropWhile [of s] show ?case
    by (simp add: at_boundary_def)
qed simp

text \<open>Cutting a string before a character start cuts its list of characters.\<close>

lemma chars_cut:
  assumes "at_boundary s" "i \<le> length s" "at_boundary (drop i s)"
  shows "chars (take i s) = take (starts (take i s)) (chars s)"
    and "chars (drop i s) = drop (starts (take i s)) (chars s)"
proof -
  have b: "at_boundary (take i s)"
    using assms(1) by (cases s; cases i) (simp_all add: at_boundary_def)
  have "chars s = chars (take i s) @ chars (drop i s)"
    using chars_append [OF assms(3), of "take i s"] by simp
  moreover have "length (chars (take i s)) = starts (take i s)"
    using char_count_starts [OF b] by (simp add: char_count_def)
  ultimately show "chars (take i s) = take (starts (take i s)) (chars s)"
    "chars (drop i s) = drop (starts (take i s)) (chars s)"
    by (metis append_eq_conv_conj)+
qed

lemma at_boundary_drop: "i < length s \<Longrightarrow> char_start (s ! i) \<Longrightarrow> at_boundary (drop i s)"
  by (simp add: at_boundary_def flip: Cons_nth_drop_Suc)

lemma take_Suc_starts:
  "i < length s \<Longrightarrow> starts (take (Suc i) s) = starts (take i s) + (if char_start (s ! i) then 1 else 0)"
  by (simp add: take_Suc_conv_app_nth)

lemma backspace_loop_cut:
  "removed < n \<Longrightarrow> n \<le> removed + starts (take i str) \<Longrightarrow> i \<le> length str \<Longrightarrow>
   \<exists>j < i. backspace_loop n removed str i = take j str \<and> char_start (str ! j) \<and>
     starts (take j str) + n = starts (take i str) + removed"
proof (induction i arbitrary: removed)
  case (Suc i)
  then have i: "i < length str" by simp
  show ?case
  proof (cases "char_start (str ! i) \<and> removed + 1 = n")
    case True
    with i show ?thesis
      by (intro exI [of _ i]) (simp add: take_Suc_starts)
  next
    case False
    let ?r = "if char_start (str ! i) then removed + 1 else removed"
    have "\<exists>j < i. backspace_loop n ?r str i = take j str \<and> char_start (str ! j) \<and>
        starts (take j str) + n = starts (take i str) + ?r"
      using Suc.prems False i by (intro Suc.IH) (auto simp: take_Suc_starts split: if_splits)
    then obtain j where "j < i" "backspace_loop n ?r str i = take j str" "char_start (str ! j)"
      "starts (take j str) + n = starts (take i str) + ?r" by blast
    with False i show ?thesis
      by (intro exI [of _ j]) (auto simp: take_Suc_starts split: if_splits)
  qed
qed simp

lemma backspace_loop_chars:
  assumes "at_boundary str" "0 < n" "n \<le> char_count str"
  shows "chars (backspace_loop n 0 str (length str)) = take (char_count str - n) (chars str) \<and>
    at_boundary (backspace_loop n 0 str (length str))"
proof -
  have "n \<le> 0 + starts (take (length str) str)"
    using assms by (simp add: char_count_starts)
  from backspace_loop_cut [OF assms(2) this] obtain j where j: "j < length str"
    "backspace_loop n 0 str (length str) = take j str" "char_start (str ! j)"
    "starts (take j str) + n = starts str" by auto
  have "starts (take j str) = char_count str - n"
    using j(4) assms by (simp add: char_count_starts)
  moreover have "at_boundary (take j str)"
    using assms(1) by (cases str; cases j) (simp_all add: at_boundary_def)
  ultimately show ?thesis
    using chars_cut(1) [OF assms(1), of j] j(1-3) at_boundary_drop [OF j(1,3)] by simp
qed

lemma byte_pos_from_spec:
  "char_pos < int needed \<Longrightarrow>
   (case byte_pos_from bs i char_pos needed of
      None \<Rightarrow> char_pos + int (starts bs) < int needed
    | Some k \<Rightarrow> \<exists>j < length bs. k = i + j \<and> char_start (bs ! j) \<and>
        char_pos + 1 + int (starts (take j bs)) = int needed)"
proof (induction bs arbitrary: i char_pos)
  case (Cons b bs)
  show ?case
  proof (cases "char_start b \<and> char_pos + 1 = int needed")
    case True
    then show ?thesis by (auto intro!: exI [of _ 0])
  next
    case False
    let ?p = "if char_start b then char_pos + 1 else char_pos"
    have "byte_pos_from (b # bs) i char_pos needed = byte_pos_from bs (i + 1) ?p needed"
      using False by simp
    moreover have "?p < int needed"
      using Cons.prems False by auto
    note Cons.IH [OF this, of "i + 1"]
    ultimately show ?thesis
      by (auto split: option.splits if_splits intro!: exI [of _ "Suc _"])
  qed
qed simp

lemma byte_pos_None: "at_boundary str \<Longrightarrow> byte_pos str k = None \<longleftrightarrow> char_count str \<le> k"
proof -
  assume b: "at_boundary str"
  have spec: "case byte_pos str k of None \<Rightarrow> - 1 + int (starts str) < int k
      | Some i \<Rightarrow> \<exists>j < length str. i = 0 + j \<and> char_start (str ! j) \<and>
          - 1 + 1 + int (starts (take j str)) = int k"
    unfolding byte_pos_def by (rule byte_pos_from_spec) simp
  have less: "starts (take j str) < starts str" if "j < length str" "char_start (str ! j)" for j
    using that starts_simps(3) [of "take (Suc j) str" "drop (Suc j) str"] by (simp add: take_Suc_starts)
  show ?thesis
    using spec less by (auto simp: char_count_starts [OF b] not_le split: option.splits)
qed

lemma byte_pos_Some:
  assumes "at_boundary str" "byte_pos str k = Some i"
  shows "chars (take i str) = take k (chars str)" "chars (drop i str) = drop k (chars str)"
    "at_boundary (drop i str)"
proof -
  have i: "i < length str" "char_start (str ! i)" "starts (take i str) = k"
    using byte_pos_from_spec [of "- 1" k str 0] assms(2) by (auto simp: byte_pos_def)
  from i show b: "at_boundary (drop i str)" by (simp add: at_boundary_drop)
  from chars_cut [OF assms(1) _ b] i
  show "chars (take i str) = take k (chars str)" "chars (drop i str) = drop k (chars str)" by simp_all
qed

text \<open>The recorded length of the edited body is its number of characters and in bounds.\<close>

definition edit_ok :: "edited_post \<Rightarrow> bool" where
  "edit_ok p \<longleftrightarrow> at_boundary (ep_body p) \<and> char_length p = int (char_count (ep_body p)) \<and>
     char_length p \<le> 2000"

lemma at_boundary_append: "at_boundary s \<Longrightarrow> at_boundary t \<Longrightarrow> at_boundary (s @ t)"
  by (cases s) (simp_all add: at_boundary_def)

lemma edit_ok_new: "edit_ok (edited_post_new pid thread)"
  by (simp add: edit_ok_def edited_post_new_def at_boundary_def char_count_def)

lemma update_body_ok:
  assumes "cl_open_post c = Some p" "0 \<le> char_length p + n" "char_length p + n \<le> 2000"
    "modify (ep_body p) = (b, None)" "w_channel w = Some q"
  shows "\<exists>w'. update_body env n k modify (c, w) =
      (Inr (), c\<lparr>cl_open_post := Some (p\<lparr>char_length := char_length p + n, ep_body := b\<rparr>)\<rparr>, w') \<and>
    w_channel w' = Some (q @ [ReqSetOpenBody (ep_id p) (ep_thread p) b])"
  using assms
  by (simp add: update_body_def Let_def abind_def arequest_def aworld_def send_request_def)

lemma update_body_bounds:
  assumes "cl_open_post c = Some p" "char_length p + n < 0 \<or> char_length p + n > 2000"
  shows "fst (update_body env n k modify (c, w)) = Inl BodyBounds"
  using assms by (auto simp: update_body_def Let_def)

lemma append_body_eq:
  "1 \<le> char_count str \<Longrightarrow> char_count str \<le> 2000 \<Longrightarrow> append_body env str s =
     update_body env (int (char_count str)) (char_count str) (\<lambda>b. (b @ str, None)) s"
  by (simp add: append_body_def abind_def alift_def check_unicode_len_def Let_def)

text \<open>
  C17: appending text to the open post does exactly that. A text of at least one character is
  accepted when the body stays within 2000 characters and refused otherwise; accepted, it stands
  at the end of the body, the recorded length is right again, and the new body is handed to the
  pulsar.
\<close>

theorem append_extends_body:
  assumes "cl_open_post c = Some p" "edit_ok p" "w_channel w = Some q" "at_boundary str"
    "1 \<le> char_count str" "char_count str \<le> 2000"
  shows "if char_count (ep_body p) + char_count str \<le> 2000
    then \<exists>c' w' p'. append_body env str (c, w) = (Inr (), c', w') \<and> cl_open_post c' = Some p' \<and>
           edit_ok p' \<and> ep_body p' = ep_body p @ str \<and>
           w_channel w' = Some (q @ [ReqSetOpenBody (ep_id p) (ep_thread p) (ep_body p')])
    else fst (append_body env str (c, w)) = Inl BodyBounds"
proof (cases "char_count (ep_body p) + char_count str \<le> 2000")
  case True
  let ?p = "p\<lparr>char_length := char_length p + int (char_count str), ep_body := ep_body p @ str\<rparr>"
  have "edit_ok ?p"
    using assms(2,4) True by (simp add: edit_ok_def at_boundary_append char_count_def chars_append)
  moreover have "char_length p = int (char_count (ep_body p))"
    using assms(2) by (simp add: edit_ok_def)
  ultimately show ?thesis
    using True assms update_body_ok [OF assms(1) _ _ _ assms(3), of "int (char_count str)"
        "\<lambda>b. (b @ str, None)" "ep_body p @ str" env "char_count str"]
    by (auto simp: append_body_eq)
next
  case False
  then show ?thesis
    using assms by (simp add: append_body_eq update_body_bounds edit_ok_def)
qed

text \<open>
  Backspacing removes characters from the end. With at least one and at most as many as the
  body has, that many whole characters are gone, however many bytes they take; more are refused.
\<close>

theorem backspace_removes_chars:
  assumes "cl_open_post c = Some p" "edit_ok p" "w_channel w = Some q" "0 < n"
  shows "if n \<le> char_count (ep_body p)
    then \<exists>c' w' p'. backspace env n (c, w) = (Inr (), c', w') \<and> cl_open_post c' = Some p' \<and>
           edit_ok p' \<and> chars (ep_body p') = take (char_count (ep_body p) - n) (chars (ep_body p)) \<and>
           w_channel w' = Some (q @ [ReqSetOpenBody (ep_id p) (ep_thread p) (ep_body p')])
    else fst (backspace env n (c, w)) = Inl BodyBounds"
proof (cases "n \<le> char_count (ep_body p)")
  case True
  let ?b = "backspace_loop n 0 (ep_body p) (length (ep_body p))"
  let ?p = "p\<lparr>char_length := char_length p + - int n, ep_body := ?b\<rparr>"
  have p: "at_boundary (ep_body p)" "char_length p = int (char_count (ep_body p))" "char_length p \<le> 2000"
    using assms(2) by (simp_all add: edit_ok_def)
  note b = backspace_loop_chars [OF p(1) assms(4) True]
  have "edit_ok ?p"
    using b p True by (simp add: edit_ok_def char_count_def)
  then show ?thesis
    using True assms p b update_body_ok [OF assms(1) _ _ _ assms(3), of "- int n"
        "\<lambda>str. (backspace_loop n 0 str (length str), None)" ?b env n]
    by (auto simp: backspace_def)
next
  case False
  then show ?thesis
    using assms by (simp add: backspace_def update_body_bounds edit_ok_def)
qed

lemma patch_modify_chars:
  assumes "at_boundary str" "at_boundary (patch_insert req)"
    "unat (patch_position req) < char_count str"
    "unat (patch_remove req) < char_count str - unat (patch_position req)"
  shows "\<exists>b. patch_modify req str = (b, None) \<and>
    chars b = take (unat (patch_position req)) (chars str) @ chars (patch_insert req) @
      take (unat (patch_remove req)) (drop (unat (patch_position req)) (chars str))"
proof -
  obtain i where i: "byte_pos str (unat (patch_position req)) = Some i"
    using byte_pos_None [OF assms(1), of "unat (patch_position req)"] assms(3) by force
  note cut = byte_pos_Some [OF assms(1) i]
  have "char_count (drop i str) = char_count str - unat (patch_position req)"
    using cut(2) by (simp add: char_count_def)
  then obtain j where j: "byte_pos (drop i str) (unat (patch_remove req)) = Some j"
    using byte_pos_None [OF cut(3), of "unat (patch_remove req)"] assms(4) by force
  note cut' = byte_pos_Some [OF cut(3) j]
  have "at_boundary (take j (drop i str))"
    using cut(3) by (cases "drop i str"; cases j) (simp_all add: at_boundary_def)
  then have "chars ((take i str @ patch_insert req) @ take j (drop i str)) =
      chars (take i str) @ chars (patch_insert req) @ chars (take j (drop i str))"
    using assms(2) by (simp add: chars_append at_boundary_append)
  then show ?thesis
    using i j cut(1,2) cut'(1) by (simp add: patch_modify_def Let_def)
qed

text \<open>
  A patch keeps what it should remove. An accepted patch puts the insertion at its position
  and then only the characters it asked to remove, dropping everything behind them, while the
  recorded length is that of the intended result; the body is the intended one exactly when the
  removed part equals the rest.
\<close>

theorem patch_keeps_removed:
  assumes "cl_open_post c = Some p" "edit_ok p" "w_channel w = Some q" "at_boundary (patch_insert req)"
    "1 \<le> char_count (patch_insert req)" "char_count (patch_insert req) \<le> 2000"
    "unat (patch_position req) < char_count (ep_body p)"
    "unat (patch_remove req) < char_count (ep_body p) - unat (patch_position req)"
    "char_count (ep_body p) + char_count (patch_insert req) \<le> 2000 + unat (patch_remove req)"
  shows "let cs = chars (ep_body p); pos = unat (patch_position req); rm = unat (patch_remove req) in
    \<exists>c' w' p'. patch_body env req (c, w) = (Inr (), c', w') \<and> cl_open_post c' = Some p' \<and>
      chars (ep_body p') = take pos cs @ chars (patch_insert req) @ take rm (drop pos cs) \<and>
      char_length p' = int (length (take pos cs @ chars (patch_insert req) @ drop (pos + rm) cs)) \<and>
      (chars (ep_body p') = take pos cs @ chars (patch_insert req) @ drop (pos + rm) cs \<longleftrightarrow>
         take rm (drop pos cs) = drop (pos + rm) cs)"
proof -
  have p: "at_boundary (ep_body p)" "char_length p = int (char_count (ep_body p))"
    using assms(2) by (simp_all add: edit_ok_def)
  obtain b where b: "patch_modify req (ep_body p) = (b, None)"
    "chars b = take (unat (patch_position req)) (chars (ep_body p)) @ chars (patch_insert req) @
      take (unat (patch_remove req)) (drop (unat (patch_position req)) (chars (ep_body p)))"
    using patch_modify_chars [OF p(1) assms(4,7,8)] by blast
  let ?n = "int (char_count (patch_insert req)) - int (unat (patch_remove req))"
  have "patch_body env req (c, w) =
      update_body env ?n (char_count (patch_insert req) + unat (patch_remove req)) (patch_modify req) (c, w)"
    using assms(5,6) by (simp add: patch_body_def abind_def alift_def check_unicode_len_def Let_def)
  moreover have "0 \<le> char_length p + ?n" "char_length p + ?n \<le> 2000"
    using assms(7-9) p(2) by linarith+
  note update_body_ok [where modify = "patch_modify req", OF assms(1) this b(1) assms(3), of env
      "char_count (patch_insert req) + unat (patch_remove req)"]
  moreover have "char_length p + ?n = int (length (take (unat (patch_position req)) (chars (ep_body p)) @
      chars (patch_insert req) @ drop (unat (patch_position req) + unat (patch_remove req)) (chars (ep_body p))))"
    using assms(7,8) p(2) by (simp add: char_count_def)
  ultimately show ?thesis
    using b(2) by (auto simp: Let_def)
qed

text \<open>
  Deletions and appends by patch are refused. A patch that inserts nothing fails the length
  check, and one at the end of the body has a position out of bounds.
\<close>

theorem patch_refuses_delete_and_append:
  assumes "cl_open_post c = Some p" "edit_ok p" "unat pos = char_count (ep_body p)"
    "1 \<le> char_count str" "char_count (ep_body p) + char_count str \<le> 2000"
  shows "fst (patch_body env \<lparr>patch_position = i, patch_remove = rm, patch_insert = []\<rparr> (c, w)) =
           Inl (InvalidLength ''req.insert'' 0) \<and>
         fst (patch_body env \<lparr>patch_position = pos, patch_remove = 0, patch_insert = str\<rparr> (c, w)) =
           Inl PatchPosition"
proof -
  have p: "at_boundary (ep_body p)" "char_length p = int (char_count (ep_body p))"
    using assms(2) by (simp_all add: edit_ok_def)
  have "fst (patch_body env \<lparr>patch_position = i, patch_remove = rm, patch_insert = []\<rparr> (c, w)) =
      Inl (InvalidLength ''req.insert'' 0)"
    by (simp add: patch_body_def abind_def alift_def check_unicode_len_def char_count_def)
  moreover have "fst (patch_body env \<lparr>patch_position = pos, patch_remove = 0, patch_insert = str\<rparr> (c, w)) =
      Inl PatchPosition"
    using assms(1,3-5) p byte_pos_None [OF p(1), of "unat pos"]
    by (simp add: patch_body_def abind_def alift_def check_unicode_len_def Let_def update_body_def
        patch_modify_def)
  ultimately show ?thesis by blast
qed

section \<open>Threads and posts\<close>

lemma normalize_tags_ok:
  "normalize_tags env tags = Inr ts \<Longrightarrow> length ts = length tags \<and>
     (\<forall>t \<in> set ts. 1 \<le> char_count t \<and> char_count t \<le> 20)"
  by (induction tags arbitrary: ts)
    (auto simp: Let_def rbind_eq_Inr check_unicode_len_def split: if_splits)

lemma check_thread_req_ok:
  assumes "check_thread_req env req = Inr (subject, tags, name, trip)"
  shows "1 \<le> char_count subject \<and> char_count subject \<le> 100 \<and> tags \<noteq> [] \<and> length tags \<le> 3 \<and>
    distinct tags \<and> sorted tags \<and> (\<forall>t \<in> set tags. 1 \<le> char_count t \<and> char_count t \<le> 20)"
proof -
  from assms obtain ts where ts: "normalize_tags env (tcr_tags req) = Inr ts" "tags = sort ts"
    "length (remdups ts) = length ts" "tcr_tags req \<noteq> []" "length (tcr_tags req) \<le> 3"
    "1 \<le> char_count subject" "char_count subject \<le> 100"
    by (auto simp: check_thread_req_def Let_def rbind_eq_Inr check_unicode_len_def check_len_def
        split: if_splits prod.splits)
  have "distinct ts"
    using ts(3) by (simp add: card_distinct length_remdups_card_conv)
  moreover have "length tags = length (tcr_tags req)"
    using normalize_tags_ok [OF ts(1)] ts(2) by simp
  then have "tags \<noteq> []" using ts(4) by auto
  ultimately show ?thesis
    using normalize_tags_ok [OF ts(1)] ts by auto
qed

text \<open>What a successful creation of a thread amounts to.\<close>

definition thread_created ::
  "'db server_env \<Rightarrow> client \<Rightarrow> 'db world \<Rightarrow> client \<Rightarrow> 'db world \<Rightarrow> bool" where
  "thread_created env c w c' w' \<longleftrightarrow> (\<exists>subject tags name trip tid q bs.
    fst (db_insert_thread (go env) subject tags (priv_id (pub_key c)) name trip (empty_body_json env) (w_db w)) = Inr tid \<and>
    1 \<le> char_count subject \<and> char_count subject \<le> 100 \<and> tags \<noteq> [] \<and> length tags \<le> 3 \<and>
    distinct tags \<and> sorted tags \<and> (\<forall>t \<in> set tags. 1 \<le> char_count t \<and> char_count t \<le> 20) \<and>
    cl_open_post c = None \<and> cl_open_post c' = Some (edited_post_new tid tid) \<and>
    w_locations w' = (w_locations w)(tid \<mapsto> Exists tid 0) \<and>
    w_channel w = Some q \<and>
    w_channel w' = Some (q @ [ReqInsertThread \<lparr>tcn_id = tid, tcn_subject = subject, tcn_tags = tags, tcn_time = now env\<rparr>]) \<and>
    encode (deflate env) (ser env) InsertThreadAck (SInsertThreadAck tid) = Inr bs \<and>
    w_sent w' = w_sent w @ [(cl_id c, bs)])"

text \<open>
  C18: a created thread is well formed and announced. When a thread is created, the database got a
  subject of one to a hundred characters and one to three different sorted tags of at most twenty
  characters each; its first post is now the client's open post, empty; its location is cached,
  the pulsar is told of it and the acknowledgement with its number is the last message sent.
\<close>

theorem insert_thread_creates:
  assumes "insert_thread env req (c, w) = (Inr (), c', w')"
  shows "thread_created env c w c' w'"
proof -
  from assms obtain subject tags name trip tid where
    no: "cl_open_post c = None"
    and chk: "check_thread_req env req = Inr (subject, tags, name, trip)"
    and db: "fst (db_insert_thread (go env) subject tags (priv_id (pub_key c)) name trip (empty_body_json env) (w_db w)) = Inr tid"
    and rest: "aseq (arequest (ReqInsertThread \<lparr>tcn_id = tid, tcn_subject = subject, tcn_tags = tags, tcn_time = now env\<rparr>))
      (aseq (client_send env (SInsertThreadAck tid))
        (aclient (\<lambda>c. c\<lparr>cl_open_post := Some (edited_post_new tid tid)\<rparr>)))
      (c, w\<lparr>w_db := snd (db_insert_thread (go env) subject tags (priv_id (pub_key c)) name trip (empty_body_json env) (w_db w)),
            w_locations := cache_location tid tid 0 (w_locations w)\<rparr>) = (Inr (), c', w')"
    by (auto simp: insert_thread_def act_simps assert_no_open_post_def split: if_splits)
  from rest show ?thesis
    using no db check_thread_req_ok [OF chk] unfolding thread_created_def
    by (intro exI [of _ subject] exI [of _ tags] exI [of _ name] exI [of _ trip] exI [of _ tid])
      (auto simp: abind_Inr arequest_def send_request_def client_send_def alift_Inr aclient_def
        cache_location_def split: option.splits)
qed

text \<open>
  The author of a post does not reach the database. Without captchas, creating a post gives
  the same result, the same database and the same messages whatever key the client has proved:
  the number of the thread is passed where the key belongs.
\<close>

theorem insert_post_ignores_key:
  assumes "\<not> cfg_captcha (cfg env)"
  shows "fst (insert_post env req (c\<lparr>pub_key := k\<rparr>, w)) = fst (insert_post env req (c, w)) \<and>
    snd (snd (insert_post env req (c\<lparr>pub_key := k\<rparr>, w))) = snd (snd (insert_post env req (c, w)))"
proof -
  have cap: "need_captcha (go env) (cfg env) key db = Inr False" for key db
    using assms by (simp add: need_captcha_def)
  show ?thesis
    by (simp add: insert_post_def abind_def alift_def assert_no_open_post_def cap adb_def aworld_def
        arequest_def client_send_def aclient_def split: prod.split sum.split)
qed

text \<open>
  A saved key is never indexed. A client that authenticates with a key registered earlier is
  accepted, but the registry is left as it was, so it cannot be found by its key.
\<close>

theorem saved_key_not_indexed:
  assumes "conn_state c = Connected" "snd (read_next (de_handshake env) d) = Inr req"
    "auth req = Saved pub nonce signature"
    "handle_message env Handshake d (c, w) = (Inr d', c', w')"
  shows "conn_state c' = AcceptedHandshake \<and> w_registry w' = w_registry w"
proof -
  have "handle_handshake env d (c, w) = (Inr d', c', w')"
    using assms(1,4) by (simp add: handle_message_def)
  moreover from this obtain d1 where dh: "decode_handshake env d (c, w) = (Inr (req, d1), (c, w))"
    unfolding handle_handshake_def abind_Inr using assms(2) by (auto simp: decode_handshake_Inr)
  ultimately show ?thesis
    using assms(3)
    by (auto simp: handle_handshake_def abind_eval [of "decode_handshake env d", OF dh] act_simps
        dest!: handle_auth_saved_proof)
qed

text \<open>
  C19: a client that breaks the protocol is dropped. When the handling of a message fails, the
  client is out of the registry afterwards, so it receives nothing more, and it is closed once
  with that error; when it succeeds nothing is closed.
\<close>

theorem failing_client_dropped:
  assumes "get_client cid (w_registry (srv_world s)) = Some cid" "srv_clients s cid = Some c"
  shows "case fst (receive_message env msg (c, srv_world s)) of
      Inl err \<Rightarrow> get_client cid (w_registry (srv_world (ws_receive_message env cid msg s))) = None \<and>
        srv_closed (ws_receive_message env cid msg s) = srv_closed s @ [(cid, err)]
    | Inr _ \<Rightarrow> srv_closed (ws_receive_message env cid msg s) = srv_closed s"
proof -
  have "get_client cid (remove_client cid r) = None" for r :: "u64 registry"
    by (cases "clients r cid") (simp_all add: get_client_def remove_client_def Let_def split: option.splits)
  then show ?thesis
    using assms by (auto simp: ws_receive_message_def close_client_def Let_def split: prod.splits sum.splits)
qed

section \<open>Concrete runs\<close>

text \<open>
  A small server for concrete inputs: the database counts its threads and posts, every thread
  exists, and messages are one byte long.
\<close>

definition demo_go :: "nat go_env" where
  "demo_go =
     \<lparr>ws_thread_exists = \<lambda>_ _. (None, True),
      ws_insert_thread = \<lambda>_ _ _ _ _ _ db. ((None, of_nat db), db + 1),
      ws_insert_post = \<lambda>_ _ _ _ _ db. ((None, of_nat db, 0), db + 1),
      ws_register_public_key = \<lambda>_ db. ((None, 7, 9, True), db),
      ws_get_public_key = \<lambda>_ _. (None, 7, [1]),
      ws_get_post_parenthood = \<lambda>_ _. (None, 1, 0),
      ws_increment_spam_score = \<lambda>_ _ db. db,
      ws_need_captcha = \<lambda>_ _. (None, False)\<rparr>"

definition demo_env :: "nat server_env" where
  "demo_env =
     \<lparr>go = demo_go,
      cfg = \<lparr>cfg_captcha = False, cfg_links = Map.empty,
             cfg_spam_scores = \<lparr>score_character = 1, score_image = 1, score_post_creation = 1\<rparr>,
             cfg_db_url = []\<rparr>,
      now = 100, deflate = store_deflate, inflate = store_inflate, ser = \<lambda>_. ([[1]], None),
      de_handshake = \<lambda>bs. Inr \<lparr>protocol_version = 1,
        auth = if bs = [1] then Saved 9 [2] [3] else NewPubKey [4]\<rparr>,
      de_u64 = \<lambda>_. Inr 1,
      de_thread_req = \<lambda>_. Inl [], de_post_req = \<lambda>_. Inl [], de_string = \<lambda>_. Inl [],
      de_u16 = \<lambda>_. Inl [], de_text_patch = \<lambda>_. Inl [],
      verify = \<lambda>_ _ _. Inr True, tripcode = \<lambda>s. s, to_lowercase = \<lambda>s. s, empty_body_json = []\<rparr>"

definition demo_world :: "nat world" where
  "demo_world =
     \<lparr>w_registry = add_client 5 5 registry_default, w_locations = Map.empty, w_db = 3,
      w_channel = Some [], w_sent = []\<rparr>"

definition demo_decoder :: "u8 \<Rightarrow> decoder" where
  "demo_decoder b =
     \<lparr>splitter = splitter_new\<lparr>sp_buf := [b], message_starts := [0], message_types := [Handshake]\<rparr>, off = 0\<rparr>"

lemmas demo_defs = demo_go_def demo_env_def demo_world_def demo_decoder_def

text \<open>A client with three characters in its open post.\<close>

definition demo_client :: client where
  "demo_client =
     (client_new 5)\<lparr>cl_open_post := Some \<lparr>ep_id = 3, ep_thread = 1, ep_body = ''abc'', char_length = 3\<rparr>\<rparr>"

definition demo_post :: edited_post where
  "demo_post = \<lparr>ep_id = 3, ep_thread = 1, ep_body = ''abc'', char_length = 3\<rparr>"

lemma demo_edit:
  "cl_open_post demo_client = Some demo_post" "edit_ok demo_post" "w_channel demo_world = Some []"
  "ep_body demo_post = ''abc''" "chars ''abc'' = [''a'', ''b'', ''c'']" "char_count ''abc'' = 3"
  "chars ''x'' = [''x'']" "char_count ''x'' = 1" "at_boundary ''x''"
  by (simp_all add: demo_client_def demo_post_def demo_world_def edit_ok_def char_count_def
      at_boundary_def char_start_def)

definition demo_thread_req :: thread_creation_req where
  "demo_thread_req =
     \<lparr>tcr_subject = '' news'', tcr_tags = [''a ''], captcha_solution = [], tcr_opts = \<lparr>opts_name = []\<rparr>\<rparr>"

lemma act_done: "\<not> isl (fst r) \<Longrightarrow> \<exists>v. r = (Inr v, snd r)"
  by (cases r; cases "fst r") auto


theorem append_extends_body_witness:
  "if char_count (ep_body demo_post) + char_count ''x'' \<le> 2000
   then \<exists>c' w' p'. append_body demo_env ''x'' (demo_client, demo_world) = (Inr (), c', w') \<and>
          cl_open_post c' = Some p' \<and> edit_ok p' \<and> ep_body p' = ep_body demo_post @ ''x'' \<and>
          w_channel w' = Some ([] @ [ReqSetOpenBody (ep_id demo_post) (ep_thread demo_post) (ep_body p')])
   else fst (append_body demo_env ''x'' (demo_client, demo_world)) = Inl BodyBounds"
  by (rule append_extends_body) (simp_all add: demo_edit)

theorem backspace_removes_chars_witness:
  "if 2 \<le> char_count (ep_body demo_post)
   then \<exists>c' w' p'. backspace demo_env 2 (demo_client, demo_world) = (Inr (), c', w') \<and>
          cl_open_post c' = Some p' \<and> edit_ok p' \<and>
          chars (ep_body p') = take (char_count (ep_body demo_post) - 2) (chars (ep_body demo_post)) \<and>
          w_channel w' = Some ([] @ [ReqSetOpenBody (ep_id demo_post) (ep_thread demo_post) (ep_body p')])
   else fst (backspace demo_env 2 (demo_client, demo_world)) = Inl BodyBounds"
  by (rule backspace_removes_chars) (simp_all add: demo_edit)

theorem patch_keeps_removed_witness:
  "let cs = chars (ep_body demo_post);
       req = \<lparr>patch_position = 0, patch_remove = 1, patch_insert = ''x''\<rparr>;
       pos = unat (patch_position req); rm = unat (patch_remove req) in
   \<exists>c' w' p'. patch_body demo_env req (demo_client, demo_world) = (Inr (), c', w') \<and>
     cl_open_post c' = Some p' \<and>
     chars (ep_body p') = take pos cs @ chars (patch_insert req) @ take rm (drop pos cs) \<and>
     char_length p' = int (length (take pos cs @ chars (patch_insert req) @ drop (pos + rm) cs)) \<and>
     (chars (ep_body p') = take pos cs @ chars (patch_insert req) @ drop (pos + rm) cs \<longleftrightarrow>
        take rm (drop pos cs) = drop (pos + rm) cs)"
proof -
  let ?req = "\<lparr>patch_position = 0, patch_remove = 1, patch_insert = ''x''\<rparr>"
  note t = patch_keeps_removed [where req = ?req and env = demo_env, OF demo_edit(1,2,3)]
  show ?thesis
    unfolding Let_def by (rule t [unfolded Let_def]) (simp_all add: demo_edit)
qed

theorem patch_refuses_delete_and_append_witness:
  "fst (patch_body demo_env \<lparr>patch_position = 0, patch_remove = 1, patch_insert = []\<rparr>
     (demo_client, demo_world)) = Inl (InvalidLength ''req.insert'' 0) \<and>
   fst (patch_body demo_env \<lparr>patch_position = 3, patch_remove = 0, patch_insert = ''x''\<rparr>
     (demo_client, demo_world)) = Inl PatchPosition"
  by (rule patch_refuses_delete_and_append [OF demo_edit(1,2)]) (simp_all add: demo_edit)

theorem insert_thread_creates_witness:
  "\<exists>c' w'. insert_thread demo_env demo_thread_req (client_new 5, demo_world) = (Inr (), c', w') \<and>
     thread_created demo_env (client_new 5) demo_world c' w'"
proof -
  let ?r = "insert_thread demo_env demo_thread_req (client_new 5, demo_world)"
  have "str_trim '' news'' = ''news''" "str_trim ''a '' = ''a''"
    by (simp_all add: str_trim_def trim_ws_def is_whitespace_def whitespace_chars_def char_start_def)
  then have chk: "check_thread_req demo_env demo_thread_req = Inr (''news'', [''a''], None, None)"
    by (simp add: check_thread_req_def demo_thread_req_def check_unicode_len_def char_count_def
        check_len_def demo_env_def parse_name_def check_captcha_def char_start_def)
  have "\<not> isl (encode (deflate demo_env) (ser demo_env) InsertThreadAck (SInsertThreadAck 3))"
    by code_simp
  then obtain bs where "encode (deflate demo_env) (ser demo_env) InsertThreadAck (SInsertThreadAck 3) = Inr bs"
    by (cases "encode (deflate demo_env) (ser demo_env) InsertThreadAck (SInsertThreadAck 3)") simp_all
  with chk have "fst ?r = Inr ()"
    by (simp add: insert_thread_def abind_def alift_def assert_no_open_post_def client_new_def adb_def
        db_insert_thread_def cast_c_err_def demo_go_def aworld_def arequest_def send_request_def
        client_send_def aclient_def demo_world_def demo_env_def)
  then have r: "?r = (Inr (), fst (snd ?r), snd (snd ?r))"
    by (simp add: prod_eq_iff)
  from insert_thread_creates [OF r] r show ?thesis by blast
qed

theorem insert_post_ignores_key_witness:
  "let req = \<lparr>sage = False, pcr_thread = 1, pcr_opts = \<lparr>opts_name = []\<rparr>\<rparr>;
       k = \<lparr>priv_id = 8, pub_id = 8\<rparr> in
   fst (insert_post demo_env req ((client_new 5)\<lparr>pub_key := k\<rparr>, demo_world)) =
     fst (insert_post demo_env req (client_new 5, demo_world)) \<and>
   snd (snd (insert_post demo_env req ((client_new 5)\<lparr>pub_key := k\<rparr>, demo_world))) =
     snd (snd (insert_post demo_env req (client_new 5, demo_world)))"
  unfolding Let_def by (rule insert_post_ignores_key) (simp add: demo_env_def)

theorem saved_key_not_indexed_witness:
  "\<exists>d' c' w'. handle_message demo_env Handshake (demo_decoder 1) (client_new 5, demo_world) = (Inr d', c', w') \<and>
     conn_state c' = AcceptedHandshake \<and> w_registry w' = w_registry demo_world"
proof -
  let ?h = "handle_message demo_env Handshake (demo_decoder 1) (client_new 5, demo_world)"
  have "\<not> isl (fst ?h)" by code_simp
  then obtain d where h: "?h = (Inr d, fst (snd ?h), snd (snd ?h))"
    using act_done [of ?h] by (metis prod.collapse)
  have "snd (read_next (de_handshake demo_env) (demo_decoder 1)) =
      Inr \<lparr>protocol_version = 1, auth = Saved 9 [2] [3]\<rparr>"
    by (simp add: read_next_def demo_defs get_nth_def slice_def splitter_new_def)
  then have "conn_state (fst (snd ?h)) = AcceptedHandshake \<and>
      w_registry (snd (snd ?h)) = w_registry demo_world"
    by (rule saved_key_not_indexed [OF _ _ _ h, rotated]) (simp_all add: client_new_def)
  with h show ?thesis by blast
qed

definition demo_server :: "nat server" where
  "demo_server = \<lparr>srv_clients = [5 \<mapsto> client_new 5], srv_world = demo_world, srv_closed = []\<rparr>"

theorem failing_client_dropped_witness:
  "case fst (receive_message demo_env [] (client_new 5, srv_world demo_server)) of
     Inl err \<Rightarrow>
       get_client 5 (w_registry (srv_world (ws_receive_message demo_env 5 [] demo_server))) = None \<and>
       srv_closed (ws_receive_message demo_env 5 [] demo_server) = srv_closed demo_server @ [(5, err)]
   | Inr _ \<Rightarrow> srv_closed (ws_receive_message demo_env 5 [] demo_server) = srv_closed demo_server"
  by (rule failing_client_dropped)
    (simp_all add: demo_server_def demo_world_def get_client_def add_client_def client_descriptor_new_def)

end
