(* ===== verification/Server_Storage.thy ===== *)
theory Server_Storage
  imports Server_Client Body_Parser
begin

text \<open>
  The edges of the server crate: errors and message buffers that cross the foreign function
  interface and the entry points that only decode and forward
  (\<^verbatim>\<open>websockets/websockets/src/bindings.rs\<close>, \<^verbatim>\<open>pulsar.rs\<close>), and the writer of open post bodies
  (\<^verbatim>\<open>db.rs\<close>) with the rounds of its flush loop (\<^verbatim>\<open>body/persist.rs\<close>). JSON, the connection pool and
  PostgreSQL are arguments: a statement may fail, and a transaction that is not committed leaves
  no trace.
\<close>

section \<open>Errors for C\<close>

text \<open>
  An error is copied to a fresh buffer with a terminating zero byte; no error is the null pointer.
  The reader of a C string stops at the first zero byte.
\<close>

definition cast_to_c_error :: "string + unit \<Rightarrow> string option" where
  "cast_to_c_error r =
     (case r of
        Inr _ \<Rightarrow> None
      | Inl err \<Rightarrow> if length err = 0 then None else Some (err @ [CHR 0x00]))"

definition read_c_string :: "string \<Rightarrow> string" where
  "read_c_string buf = takeWhile (\<lambda>c. c \<noteq> CHR 0x00) buf"

text \<open>
  The Go side learns of every error with a text, and reads that text up to its first zero byte;
  an error with an empty text arrives as success.
\<close>

theorem c_error_roundtrip:
  "map_option read_c_string (cast_to_c_error (Inl err)) =
     (if err = [] then None else Some (takeWhile (\<lambda>c. c \<noteq> CHR 0x00) err))"
proof -
  have "takeWhile (\<lambda>c. c \<noteq> CHR 0x00) (err @ [CHR 0x00]) = takeWhile (\<lambda>c. c \<noteq> CHR 0x00) err"
    by (induction err) auto
  then show ?thesis by (simp add: cast_to_c_error_def read_c_string_def)
qed

section \<open>Entry points that decode and forward\<close>

definition ws_set_config ::
  "(u8 list \<Rightarrow> string + server_config) \<Rightarrow> u8 list \<Rightarrow> server_config \<Rightarrow> string option \<times> server_config" where
  "ws_set_config de buf c =
     (case de buf of
        Inr new \<Rightarrow> (cast_to_c_error (Inr ()), new)
      | Inl err \<Rightarrow> (cast_to_c_error (Inl err), c))"

definition pulsar_insert_image_req :: "u64 \<Rightarrow> u64 \<Rightarrow> image \<Rightarrow> channel \<Rightarrow> bool \<times> channel" where
  "pulsar_insert_image_req thread post img =
     send_request (ReqInsertImage \<lparr>iir_thread = thread, iir_post = post, iir_img = img\<rparr>)"

text \<open>The text of a failed send is that of \<^verbatim>\<open>SendError\<close>.\<close>

definition SEND_ERROR :: string where
  "SEND_ERROR = ''sending on a closed channel''"

definition ws_insert_image ::
  "(u8 list \<Rightarrow> string + image_json) \<Rightarrow> u64 \<Rightarrow> u64 \<Rightarrow> u8 list \<Rightarrow> channel \<Rightarrow> string option \<times> channel" where
  "ws_insert_image de thread post buf ch =
     (case de buf of
        Inl err \<Rightarrow> (cast_to_c_error (Inl err), ch)
      | Inr j \<Rightarrow>
          (case pulsar_insert_image_req thread post (image_json_into j) ch of
             (sent, ch) \<Rightarrow> (cast_to_c_error (if sent then Inr () else Inl SEND_ERROR), ch)))"

section \<open>Shared message buffers\<close>

text \<open>
  An \<^verbatim>\<open>Arc\<close> is a number with a count of references and its bytes. Rust code holds references it
  clones and drops; \<^verbatim>\<open>WSRcBuffer::from\<close> turns one into a raw pointer that the Go side holds until it
  calls \<^verbatim>\<open>ws_unref_message\<close>.
\<close>

type_synonym arc_id = nat

record ffi =
  arcs :: "arc_id \<rightharpoonup> nat \<times> u8 list"
  rust_refs :: "arc_id multiset"
  go_refs :: "arc_id multiset"

definition ffi_empty :: ffi where
  "ffi_empty = \<lparr>arcs = Map.empty, rust_refs = {#}, go_refs = {#}\<rparr>"

definition arc_clone :: "arc_id \<Rightarrow> (arc_id \<rightharpoonup> nat \<times> u8 list) \<Rightarrow> (arc_id \<rightharpoonup> nat \<times> u8 list)" where
  "arc_clone i m = m(i := map_option (\<lambda>(n, bs). (Suc n, bs)) (m i))"

definition arc_drop :: "arc_id \<Rightarrow> (arc_id \<rightharpoonup> nat \<times> u8 list) \<Rightarrow> (arc_id \<rightharpoonup> nat \<times> u8 list)" where
  "arc_drop i m =
     m(i := case m i of
        Some (n, bs) \<Rightarrow> if n = 1 then None else Some (n - 1, bs)
      | None \<Rightarrow> None)"

text \<open>\<^verbatim>\<open>write_message\<close>: the reference it is given becomes the raw pointer of the buffer.\<close>

definition ffi_write_message :: "arc_id \<Rightarrow> ffi \<Rightarrow> ffi" where
  "ffi_write_message i h = h\<lparr>rust_refs := rust_refs h - {#i#}, go_refs := add_mset i (go_refs h)\<rparr>"

definition ws_unref_message :: "arc_id \<Rightarrow> ffi \<Rightarrow> ffi" where
  "ws_unref_message i h = h\<lparr>arcs := arc_drop i (arcs h), go_refs := go_refs h - {#i#}\<rparr>"

datatype ffi_event = ArcNew arc_id "u8 list" | ArcClone arc_id | ArcDrop arc_id | WriteMsg arc_id | UnrefMsg arc_id

text \<open>Rust code only uses references it holds; the Go side gives back each pointer it holds once.\<close>

inductive ffi_step :: "ffi \<Rightarrow> ffi_event \<Rightarrow> ffi \<Rightarrow> bool" where
  made: "arcs h i = None \<Longrightarrow>
    ffi_step h (ArcNew i bs) (h\<lparr>arcs := (arcs h)(i \<mapsto> (1, bs)), rust_refs := add_mset i (rust_refs h)\<rparr>)"
| cloned: "i \<in># rust_refs h \<Longrightarrow>
    ffi_step h (ArcClone i) (h\<lparr>arcs := arc_clone i (arcs h), rust_refs := add_mset i (rust_refs h)\<rparr>)"
| dropped: "i \<in># rust_refs h \<Longrightarrow>
    ffi_step h (ArcDrop i) (h\<lparr>arcs := arc_drop i (arcs h), rust_refs := rust_refs h - {#i#}\<rparr>)"
| handed_over: "i \<in># rust_refs h \<Longrightarrow> ffi_step h (WriteMsg i) (ffi_write_message i h)"
| given_back: "i \<in># go_refs h \<Longrightarrow> ffi_step h (UnrefMsg i) (ws_unref_message i h)"

inductive ffi_reach :: "ffi \<Rightarrow> bool" where
  init: "ffi_reach ffi_empty"
| step: "ffi_reach h \<Longrightarrow> ffi_step h e h' \<Longrightarrow> ffi_reach h'"

text \<open>The count of a buffer is the number of references to it; without any it is gone.\<close>

definition ffi_ok :: "ffi \<Rightarrow> bool" where
  "ffi_ok h \<longleftrightarrow>
     (\<forall>i. case arcs h i of
        Some (n, _) \<Rightarrow> 0 < n \<and> n = count (rust_refs h) i + count (go_refs h) i
      | None \<Rightarrow> count (rust_refs h) i = 0 \<and> count (go_refs h) i = 0)"

lemma ffi_ok_at:
  "ffi_ok h \<Longrightarrow> (\<exists>n bs. arcs h i = Some (n, bs) \<and> 0 < n \<and> n = count (rust_refs h) i + count (go_refs h) i) \<or>
    arcs h i = None \<and> count (rust_refs h) i = 0 \<and> count (go_refs h) i = 0"
  unfolding ffi_ok_def by (drule spec [of _ i]) (auto split: option.splits)

lemma ffi_ok_upd:
  assumes "ffi_ok h" "\<And>j. j \<noteq> i \<Longrightarrow> arcs h' j = arcs h j \<and> count (rust_refs h') j = count (rust_refs h) j \<and>
      count (go_refs h') j = count (go_refs h) j"
    and "case arcs h' i of
        Some (n, _) \<Rightarrow> 0 < n \<and> n = count (rust_refs h') i + count (go_refs h') i
      | None \<Rightarrow> count (rust_refs h') i = 0 \<and> count (go_refs h') i = 0"
  shows "ffi_ok h'"
  unfolding ffi_ok_def
proof
  fix j
  show "case arcs h' j of
        Some (n, _) \<Rightarrow> 0 < n \<and> n = count (rust_refs h') j + count (go_refs h') j
      | None \<Rightarrow> count (rust_refs h') j = 0 \<and> count (go_refs h') j = 0"
    using assms(2) [of j] assms(3) ffi_ok_at [OF assms(1), of j] by (cases "j = i") (auto split: option.splits)
qed

lemma ffi_step_ok:
  assumes "ffi_step h e h'" "ffi_ok h"
  shows "ffi_ok h'"
  using assms(1)
proof (cases rule: ffi_step.cases)
  case (made i bs)
  then show ?thesis
    using ffi_ok_at [OF assms(2), of i] by (auto intro!: ffi_ok_upd [OF assms(2), of i])
next
  case (cloned i)
  then obtain R where "rust_refs h = add_mset i R" using multi_member_split by metis
  with cloned ffi_ok_at [OF assms(2), of i] show ?thesis
    by (auto intro!: ffi_ok_upd [OF assms(2), of i] simp: arc_clone_def)
next
  case (dropped i)
  then obtain R where "rust_refs h = add_mset i R" using multi_member_split by metis
  with dropped ffi_ok_at [OF assms(2), of i] show ?thesis
    by (auto intro!: ffi_ok_upd [OF assms(2), of i] simp: arc_drop_def)
next
  case (handed_over i)
  then obtain R where "rust_refs h = add_mset i R" using multi_member_split by metis
  with handed_over ffi_ok_at [OF assms(2), of i] show ?thesis
    by (auto intro!: ffi_ok_upd [OF assms(2), of i] simp: ffi_write_message_def)
next
  case (given_back i)
  then obtain R where "go_refs h = add_mset i R" using multi_member_split by metis
  with given_back ffi_ok_at [OF assms(2), of i] show ?thesis
    by (auto intro!: ffi_ok_upd [OF assms(2), of i] simp: ws_unref_message_def arc_drop_def)
qed

lemma ffi_reach_ok: "ffi_reach h \<Longrightarrow> ffi_ok h"
proof (induction rule: ffi_reach.induct)
  case init
  then show ?case by (simp add: ffi_ok_def ffi_empty_def)
qed (rule ffi_step_ok)

text \<open>
  C22: message buffers shared with the Go side are never used after they are freed and never
  leaked. In every reachable state a buffer some side holds a reference to is allocated, and a
  buffer no side refers to has been freed.
\<close>

theorem message_buffers_safe:
  assumes "ffi_reach h"
  shows "arcs h i \<noteq> None \<longleftrightarrow> i \<in># rust_refs h \<or> i \<in># go_refs h"
  using ffi_ok_at [OF ffi_reach_ok [OF assms], of i] by (auto simp flip: count_greater_zero_iff)

theorem message_buffers_safe_witness:
  "\<exists>h. ffi_reach h \<and> 3 \<in># go_refs h \<and> arcs h 3 \<noteq> None"
proof -
  define h1 where "h1 = ffi_empty\<lparr>arcs := [3 \<mapsto> (1, [7])], rust_refs := {#3#}\<rparr>"
  have "ffi_step ffi_empty (ArcNew 3 [7]) h1"
    using ffi_step.made [of ffi_empty 3 "[7]"] by (simp add: h1_def ffi_empty_def)
  moreover have "ffi_step h1 (WriteMsg 3) (ffi_write_message 3 h1)"
    by (rule ffi_step.handed_over) (simp add: h1_def)
  ultimately have r: "ffi_reach (ffi_write_message 3 h1)"
    by (blast intro: ffi_reach.intros)
  moreover have "3 \<in># go_refs (ffi_write_message 3 h1)"
    by (simp add: ffi_write_message_def)
  ultimately show ?thesis using message_buffers_safe [OF r, of 3] by blast
qed

section \<open>Writing open bodies\<close>

text \<open>
  PostgreSQL and its driver are arguments over a database \<open>'db\<close> they keep: getting a connection,
  starting a transaction, preparing a statement (the types of its placeholders), executing it
  with parameters and committing. A parameter is an \<^verbatim>\<open>i64\<close> or a \<^verbatim>\<open>Vec<u8>\<close>.
\<close>

datatype sql_type = JSONB | INT8 | BYTEA

datatype sql_param = ParamI64 u64 | ParamBytes "u8 list"

record 'db db_env =
  to_json :: "node \<Rightarrow> string + u8 list"
  db_connect :: "string + unit"
  db_begin :: "string + unit"
  db_prepare :: "string \<Rightarrow> string + sql_type list"
  db_execute :: "sql_type list \<Rightarrow> sql_param list \<Rightarrow> 'db \<Rightarrow> string + 'db"
  db_commit :: "string + unit"

definition UPDATE_BODY :: string where
  "UPDATE_BODY = ''update posts set body = $1 where id = $2 and editing = true''"

fun collect_json :: "'db db_env \<Rightarrow> (u64 \<times> node) list \<Rightarrow> string + (u64 \<times> u8 list) list" where
  "collect_json env [] = Inr []"
| "collect_json env ((pid, body) # bs) =
     rbind (to_json env body) (\<lambda>j. rbind (collect_json env bs) (\<lambda>js. Inr ((pid, j) # js)))"

fun execute_all ::
  "'db db_env \<Rightarrow> sql_type list \<Rightarrow> (u64 \<times> u8 list) list \<Rightarrow> 'db \<Rightarrow> string + 'db" where
  "execute_all env q [] t = Inr t"
| "execute_all env q ((pid, body) # vals) t =
     rbind (db_execute env q [ParamI64 pid, ParamBytes body] t) (execute_all env q vals)"

text \<open>A transaction that is dropped before its commit is rolled back.\<close>

definition write_open_post_bodies ::
  "'db db_env \<Rightarrow> u64 iter_order \<Rightarrow> open_bodies \<Rightarrow> 'db \<Rightarrow> (string + unit) \<times> 'db" where
  "write_open_post_bodies env ord bodies t =
     (case rbind (collect_json env (map (\<lambda>pid. (pid, the (bodies pid))) (ord (dom bodies)))) (\<lambda>vals.
             rbind (db_connect env) (\<lambda>_.
             rbind (db_begin env) (\<lambda>_.
             rbind (db_prepare env UPDATE_BODY) (\<lambda>q.
             rbind (execute_all env q (sort_key fst vals) t) (\<lambda>t'.
             rbind (db_commit env) (\<lambda>_. Inr t')))))) of
        Inr t' \<Rightarrow> (Inr (), t')
      | Inl err \<Rightarrow> (Inl err, t))"

text \<open>One round of the flush loop on the buffer and the database, with the error it logs.\<close>

definition flush_round ::
  "'db db_env \<Rightarrow> u64 iter_order \<Rightarrow> open_bodies \<Rightarrow> 'db \<Rightarrow> open_bodies \<times> 'db \<times> string option" where
  "flush_round env ord m t =
     (case flush_open_bodies (\<lambda>b. case fst (write_open_post_bodies env ord b t) of Inl e \<Rightarrow> Some e | Inr _ \<Rightarrow> None) m of
        (m', Some taken, err) \<Rightarrow> (m', snd (write_open_post_bodies env ord taken t), err)
      | (m', None, err) \<Rightarrow> (m', t, err))"

lemma flush_round_eq:
  "flush_round env ord m t =
     (if m = Map.empty then (Map.empty, t, None)
      else case write_open_post_bodies env ord m t of
        (r, t') \<Rightarrow> (Map.empty, t', case r of Inl e \<Rightarrow> Some e | Inr _ \<Rightarrow> None))"
  by (simp add: flush_round_def flush_open_bodies_def split: prod.split)

lemma collect_json_keys: "collect_json env bs = Inr vals \<Longrightarrow> map fst vals = map fst bs"
  by (induction bs arbitrary: vals) (auto simp: rbind_eq_Inr)

text \<open>Without an error every serialised body went through a statement, in the order of the identifiers.\<close>

lemma execute_all_runs:
  "execute_all env q vals t = Inr t' \<Longrightarrow> (pid, body) \<in> set vals \<Longrightarrow>
    \<exists>u v. db_execute env q [ParamI64 pid, ParamBytes body] u = Inr v"
  by (induction vals arbitrary: t) (auto simp: rbind_eq_Inr, blast)

lemma write_open_post_bodies_Inl:
  "write_open_post_bodies env ord bodies t = (Inl err, t') \<Longrightarrow> t' = t"
  by (auto simp: write_open_post_bodies_def split: sum.splits)

lemma write_open_post_bodies_Inr:
  assumes "enumerates ord" "finite (dom bodies)" "pid \<in> dom bodies"
    and "write_open_post_bodies env ord bodies t = (Inr (), t')"
  shows "\<exists>q body u v. db_prepare env UPDATE_BODY = Inr q \<and>
    db_execute env q [ParamI64 pid, ParamBytes body] u = Inr v"
proof -
  from assms(4) obtain vals q t1 where
    c: "collect_json env (map (\<lambda>pid. (pid, the (bodies pid))) (ord (dom bodies))) = Inr vals"
    and q: "db_prepare env UPDATE_BODY = Inr q"
    and x: "execute_all env q (sort_key fst vals) t = Inr t1"
    by (auto simp: write_open_post_bodies_def rbind_eq_Inr split: sum.splits)
  have "fst ` set vals = dom bodies"
    using arg_cong [OF collect_json_keys [OF c], of set] enumerates_set [OF assms(1,2)]
    by (simp add: image_image)
  with assms(3) obtain body where "(pid, body) \<in> set (sort_key fst vals)" by force
  with q execute_all_runs [OF x] show ?thesis by blast
qed

text \<open>
  What the driver and the schema promise: the first placeholder of the statement has the type of
  \<^verbatim>\<open>posts.body\<close>, \<^verbatim>\<open>jsonb\<close>, and the second that of \<^verbatim>\<open>posts.id\<close>, \<^verbatim>\<open>bigint\<close>; an \<^verbatim>\<open>i64\<close> is accepted for
  \<^verbatim>\<open>bigint\<close> only and a \<^verbatim>\<open>Vec<u8>\<close> for \<^verbatim>\<open>bytea\<close> only, and a parameter that is not accepted for its
  placeholder is an error.
\<close>

fun sql_accepts :: "sql_param \<Rightarrow> sql_type \<Rightarrow> bool" where
  "sql_accepts (ParamI64 _) ty = (ty = INT8)"
| "sql_accepts (ParamBytes _) ty = (ty = BYTEA)"

definition placeholder_types :: "'db db_env \<Rightarrow> bool" where
  "placeholder_types env \<longleftrightarrow> (\<forall>q. db_prepare env UPDATE_BODY = Inr q \<longrightarrow> q = [JSONB, INT8])"

definition parameters_checked :: "'db db_env \<Rightarrow> bool" where
  "parameters_checked env \<longleftrightarrow>
     (\<forall>q ps t v. db_execute env q ps t = Inr v \<longrightarrow> list_all2 sql_accepts ps q)"

text \<open>
  C23: what a round of the flush loop really does. It empties the buffer, leaves the database as it
  was and logs an error exactly if there was anything to write: the statement takes a \<^verbatim>\<open>jsonb\<close>
  body first and the identifier second, the code passes the identifier first and the body as
  bytes second, so that the driver refuses the first row and the transaction is rolled back.
\<close>

theorem flush_round_stores_nothing:
  assumes "enumerates ord" "finite (dom m)" "placeholder_types env" "parameters_checked env"
  shows "\<exists>err. flush_round env ord m t = (Map.empty, t, err) \<and> (err = None \<longleftrightarrow> m = Map.empty)"
proof (cases "m = Map.empty")
  case False
  obtain r t' where w: "write_open_post_bodies env ord m t = (r, t')" by (metis surj_pair)
  from False obtain pid where pid: "pid \<in> dom m" by auto
  have "r \<noteq> Inr ()"
  proof
    assume "r = Inr ()"
    with w write_open_post_bodies_Inr [OF assms(1,2) pid] obtain q body u v
      where q: "db_prepare env UPDATE_BODY = Inr q" and x: "db_execute env q [ParamI64 pid, ParamBytes body] u = Inr v"
      by metis
    from x assms(4) have "list_all2 sql_accepts [ParamI64 pid, ParamBytes body] q"
      unfolding parameters_checked_def by blast
    moreover from q assms(3) have "q = [JSONB, INT8]" by (simp add: placeholder_types_def)
    ultimately show False by simp
  qed
  then obtain e where "r = Inl e" by (cases r) auto
  with w False write_open_post_bodies_Inl [of env ord m t e t'] show ?thesis
    by (simp add: flush_round_eq)
qed (simp add: flush_round_eq)

text \<open>A database of bodies by post whose driver checks the types and stores what it is given.\<close>

definition demo_db :: "(u64 \<rightharpoonup> u8 list) db_env" where
  "demo_db =
     \<lparr>to_json = (\<lambda>n. Inr [9]), db_connect = Inr (), db_begin = Inr (),
      db_prepare = (\<lambda>_. Inr [JSONB, INT8]),
      db_execute = (\<lambda>q ps t.
        if list_all2 sql_accepts ps q
        then Inr (case ps of [ParamBytes j, ParamI64 pid] \<Rightarrow> t(pid \<mapsto> j) | _ \<Rightarrow> t)
        else Inl ''wrong type''),
      db_commit = Inr ()\<rparr>"

theorem flush_round_stores_nothing_witness:
  "\<exists>err. flush_round demo_db sorted_list_of_set [4 \<mapsto> Text ''a'', 7 \<mapsto> Empty] [4 \<mapsto> [1]] =
     (Map.empty, [4 \<mapsto> [1]], err) \<and> err \<noteq> None"
proof -
  have "finite (dom [4 \<mapsto> Text ''a'', 7 \<mapsto> Empty :: node])" by simp
  moreover have "placeholder_types demo_db" by (simp add: placeholder_types_def demo_db_def)
  moreover have "parameters_checked demo_db"
    by (simp add: parameters_checked_def demo_db_def split: if_split)
  ultimately show ?thesis
    using flush_round_stores_nothing [OF enumerates_sorted] by fastforce
qed

end
