(* ===== verification/Server_Threads.thy ===== *)
theory Server_Threads
  imports Prelude
begin

text \<open>
  Threads of the server and the locks they take. The Go side calls the entry points of
  \<^verbatim>\<open>bindings.rs\<close> from many threads, the pulsar and the writer of open bodies have threads of their
  own, and the parser runs on a pool. This theory holds which locks each of them takes in which
  order (\<^verbatim>\<open>bindings.rs\<close>, \<^verbatim>\<open>registry.rs\<close>, \<^verbatim>\<open>client.rs\<close>, \<^verbatim>\<open>pulsar.rs\<close>, \<^verbatim>\<open>body/links.rs\<close>, \<^verbatim>\<open>body/persist.rs\<close>),
  that they never wait for each other in a circle, and what the reference count of a client does
  when two threads drop it at the same time.
\<close>

section \<open>Threads that hold locks\<close>

datatype lock_mode = Shared | Exclusive

datatype 'l lock_op = Acquire 'l lock_mode | Release 'l

text \<open>A thread is the locks it holds, innermost first, and what it has still to do.\<close>

type_synonym 'l lock_thread = "('l \<times> lock_mode) list \<times> 'l lock_op list"

definition lock_grantable :: "'l \<Rightarrow> lock_mode \<Rightarrow> 'l lock_thread list \<Rightarrow> bool" where
  "lock_grantable l m ts \<longleftrightarrow>
     (\<forall>th \<in> set ts. \<forall>m'. (l, m') \<in> set (fst th) \<longrightarrow> m = Shared \<and> m' = Shared)"

text \<open>
  Guards are dropped in the reverse order of their creation. A lock that nobody holds is granted
  to someone who waits for it; the step relation leaves open to whom.
\<close>

inductive lock_step :: "'l lock_thread list \<Rightarrow> 'l lock_thread list \<Rightarrow> bool" where
  acquired: "i < length ts \<Longrightarrow> ts ! i = (held, Acquire l m # ops) \<Longrightarrow> lock_grantable l m ts \<Longrightarrow>
    lock_step ts (ts[i := ((l, m) # held, ops)])"
| released: "i < length ts \<Longrightarrow> ts ! i = ((l, m) # held, Release l # ops) \<Longrightarrow>
    lock_step ts (ts[i := (held, ops)])"

definition lock_start :: "'l lock_op list list \<Rightarrow> 'l lock_thread list" where
  "lock_start ps = map (\<lambda>p. ([], p)) ps"

definition lock_finished :: "'l lock_thread list \<Rightarrow> bool" where
  "lock_finished ts \<longleftrightarrow> (\<forall>th \<in> set ts. snd th = [])"

definition ops_left :: "'l lock_thread list \<Rightarrow> nat" where
  "ops_left ts = sum_list (map (length \<circ> snd) ts)"

text \<open>A program that takes locks in the order of their ranks and gives back what it took.\<close>

fun ranked :: "('l \<Rightarrow> nat) \<Rightarrow> 'l list \<Rightarrow> 'l lock_op list \<Rightarrow> bool" where
  "ranked rank held [] = (held = [])"
| "ranked rank held (Acquire l m # ops) = ((\<forall>h \<in> set held. rank h < rank l) \<and> ranked rank (l # held) ops)"
| "ranked rank held (Release l # ops) = (held \<noteq> [] \<and> hd held = l \<and> ranked rank (tl held) ops)"

lemma ranked_append: "ranked rank [] p \<Longrightarrow> ranked rank held q \<Longrightarrow>
    (\<And>l m. Acquire l m \<in> set p \<Longrightarrow> \<forall>h \<in> set held. rank h < rank l) \<Longrightarrow> ranked rank held (p @ q)"
proof -
  have "ranked rank (inner @ held) (p @ q)"
    if "ranked rank inner p" "ranked rank held q"
      "\<And>l m. Acquire l m \<in> set p \<Longrightarrow> \<forall>h \<in> set held. rank h < rank l" for inner
    using that
  proof (induction rank inner p rule: ranked.induct)
    case (2 rank inner l m ops)
    then show ?case by auto
  next
    case (3 rank inner l ops)
    then show ?case by (cases inner) auto
  qed simp
  from this [of "[]"] show "ranked rank [] p \<Longrightarrow> ranked rank held q \<Longrightarrow>
    (\<And>l m. Acquire l m \<in> set p \<Longrightarrow> \<forall>h \<in> set held. rank h < rank l) \<Longrightarrow> ranked rank held (p @ q)" by simp
qed

lemma ops_left_update:
  "i < length ts \<Longrightarrow> length (snd (ts ! i)) = Suc (length (snd th)) \<Longrightarrow>
    ops_left ts = Suc (ops_left (ts[i := th]))"
proof (induction ts arbitrary: i)
  case (Cons a ts)
  then show ?case by (cases i) (simp_all add: ops_left_def)
qed simp

lemma step_ops_left: "lock_step ts ts' \<Longrightarrow> ops_left ts = Suc (ops_left ts')"
  by (induction rule: lock_step.induct) (simp_all add: ops_left_update)

section \<open>No circular waiting\<close>

locale lock_order =
  fixes rank :: "'l \<Rightarrow> nat"
    and runs :: "'l lock_op list \<Rightarrow> bool"
  assumes runs_ranked: "runs p \<Longrightarrow> ranked rank [] p"
begin

definition threads_ok :: "'l lock_thread list \<Rightarrow> bool" where
  "threads_ok ts \<longleftrightarrow> (\<forall>th \<in> set ts. ranked rank (map fst (fst th)) (snd th))"

lemma start_ok: "\<forall>p \<in> set ps. runs p \<Longrightarrow> threads_ok (lock_start ps)"
  by (auto simp: threads_ok_def lock_start_def runs_ranked)

lemma step_ok: "lock_step ts ts' \<Longrightarrow> threads_ok ts \<Longrightarrow> threads_ok ts'"
proof (induction rule: lock_step.induct)
  case (acquired i ts held l m ops)
  then have "ranked rank (map fst held) (Acquire l m # ops)"
    unfolding threads_ok_def by (metis fst_conv nth_mem snd_conv)
  with acquired show ?case
    by (auto simp: threads_ok_def dest!: set_update_subset_insert [THEN subsetD])
next
  case (released i ts l m held ops)
  then have "ranked rank (map fst ((l, m) # held)) (Release l # ops)"
    unfolding threads_ok_def by (metis fst_conv nth_mem snd_conv)
  with released show ?case
    by (auto simp: threads_ok_def dest!: set_update_subset_insert [THEN subsetD])
qed

text \<open>
  Among the threads that wait take one that waits for a lock of the highest rank. Whoever held
  that lock would wait for one of a higher rank still, so nobody holds it.
\<close>

lemma thread_ok: "threads_ok ts \<Longrightarrow> i < length ts \<Longrightarrow> ranked rank (map fst (fst (ts ! i))) (snd (ts ! i))"
  by (simp add: threads_ok_def)

lemma waiting_for_free:
  assumes ok: "threads_ok ts" and i: "i < length ts" "snd (ts ! i) = Acquire l m # ops"
    and top: "\<And>j l' m' ops'. j < length ts \<Longrightarrow> snd (ts ! j) = Acquire l' m' # ops' \<Longrightarrow> rank l' \<le> rank l"
    and wait: "\<And>j l' ops'. j < length ts \<Longrightarrow> snd (ts ! j) \<noteq> Release l' # ops'"
  shows "lock_grantable l m ts"
  unfolding lock_grantable_def
proof (intro ballI allI impI)
  fix th m'
  assume "th \<in> set ts" "(l, m') \<in> set (fst th)"
  then obtain j where j: "j < length ts" "(l, m') \<in> set (fst (ts ! j))" by (metis in_set_conv_nth)
  have r: "ranked rank (map fst (fst (ts ! j))) (snd (ts ! j))" by (rule thread_ok [OF ok j(1)])
  have l: "l \<in> set (map fst (fst (ts ! j)))" using j(2) by force
  show "m = Shared \<and> m' = Shared"
  proof (cases "snd (ts ! j)")
    case Nil
    with r l show ?thesis by simp
  next
    case (Cons op ops')
    show ?thesis
    proof (cases op)
      case (Acquire l2 m2)
      with Cons r l have "rank l < rank l2" by auto
      moreover have "rank l2 \<le> rank l" using top [OF j(1)] Cons Acquire by blast
      ultimately show ?thesis by simp
    next
      case (Release l2)
      with Cons wait [OF j(1)] show ?thesis by blast
    qed
  qed
qed

lemma progress:
  assumes ok: "threads_ok ts" and nf: "\<not> lock_finished ts"
  shows "\<exists>ts'. lock_step ts ts'"
proof (cases "\<exists>i l ops. i < length ts \<and> snd (ts ! i) = Release l # ops")
  case True
  then obtain i l ops where i: "i < length ts" "snd (ts ! i) = Release l # ops" by blast
  with thread_ok [OF ok i(1)] obtain m held where "fst (ts ! i) = (l, m) # held"
    by (cases "fst (ts ! i)") auto
  with i have "ts ! i = ((l, m) # held, Release l # ops)" by (cases "ts ! i") simp
  with i(1) show ?thesis by (blast intro: lock_step.released)
next
  case False
  define waits where "waits n \<longleftrightarrow> (\<exists>i l m ops. i < length ts \<and> snd (ts ! i) = Acquire l m # ops \<and> rank l = n)" for n
  obtain th where th: "th \<in> set ts" "snd th \<noteq> []" using nf by (auto simp: lock_finished_def)
  then obtain k where k: "k < length ts" "snd (ts ! k) \<noteq> []" by (metis in_set_conv_nth)
  then obtain l0 m0 ops0 where "snd (ts ! k) = Acquire l0 m0 # ops0"
    using False by (metis lock_op.exhaust list.exhaust)
  with k have w: "waits (rank l0)" unfolding waits_def by blast
  have "{n. waits n} \<subseteq> (\<lambda>i. case hd (snd (ts ! i)) of Acquire l m \<Rightarrow> rank l | Release l \<Rightarrow> 0) ` {..< length ts}"
    unfolding waits_def by force
  then have fin: "finite {n. waits n}" by (rule finite_subset) simp
  have "waits (Max {n. waits n})" using Max_in [OF fin] w by blast
  then obtain i l m ops where i: "i < length ts" "snd (ts ! i) = Acquire l m # ops" "rank l = Max {n. waits n}"
    unfolding waits_def by blast
  have "lock_grantable l m ts"
  proof (rule waiting_for_free [OF ok i(1,2)])
    fix j l' m' ops'
    assume "j < length ts" "snd (ts ! j) = Acquire l' m' # ops'"
    then have "waits (rank l')" unfolding waits_def by blast
    then show "rank l' \<le> rank l" using i(3) Max_ge [OF fin, of "rank l'"] by simp
  next
    fix j l' ops'
    assume "j < length ts"
    then show "snd (ts ! j) \<noteq> Release l' # ops'" using False by blast
  qed
  moreover obtain held where "ts ! i = (held, Acquire l m # ops)" using i(2) by (cases "ts ! i") simp
  ultimately show ?thesis using i(1) by (blast intro: lock_step.acquired)
qed

text \<open>Every run of the threads takes one step for each operation, and stops only when all have finished.\<close>

lemma steps_left:
  assumes "(lock_step ^^ n) ts ts'" "threads_ok ts"
  shows "threads_ok ts' \<and> ops_left ts = n + ops_left ts'"
  using assms
proof (induction n arbitrary: ts')
  case (Suc n)
  then obtain t1 where "(lock_step ^^ n) ts t1" "lock_step t1 ts'" by auto
  with Suc.IH [of t1] Suc.prems(2) step_ok [of t1 ts'] step_ops_left [of t1 ts'] show ?case by simp
qed simp

lemma runs_finish:
  assumes "\<forall>p \<in> set ps. runs p" "(lock_step ^^ n) (lock_start ps) ts"
  shows "n + ops_left ts = sum_list (map length ps) \<and> (lock_finished ts \<or> (\<exists>ts'. lock_step ts ts'))"
proof -
  have "ops_left (lock_start ps) = sum_list (map length ps)"
    by (simp add: ops_left_def lock_start_def comp_def)
  with steps_left [OF assms(2) start_ok [OF assms(1)]] progress show ?thesis by auto
qed

end

section \<open>Locks of the server\<close>

datatype server_lock =
    RegistryLock
  | ClientLock u64
  | ConfigLock
  | CacheLock
  | LocationLock u64
  | BodiesLock
  | RequestLock

fun lock_rank :: "server_lock \<Rightarrow> nat" where
  "lock_rank (ClientLock _) = 0"
| "lock_rank _ = 1"

definition critical :: "'l \<Rightarrow> lock_mode \<Rightarrow> 'l lock_op list" where
  "critical l m = [Acquire l m, Release l]"

text \<open>
  The critical sections of the handlers of \<^verbatim>\<open>Client::receive_message\<close>, in order: the registry
  (\<^verbatim>\<open>set_client_thread\<close>, \<^verbatim>\<open>set_client_key\<close>), the configuration (captchas, spam scores), the location
  cache (\<^verbatim>\<open>cache_location\<close>) and the sender of the request channel. A handler that returns early has
  gone through the first of them only.
\<close>

definition synchronize_locks :: "server_lock lock_op list list" where
  "synchronize_locks = [critical RegistryLock Exclusive]"

definition handle_handshake_locks :: "server_lock lock_op list list" where
  "handle_handshake_locks = [critical RegistryLock Exclusive]"

definition insert_thread_locks :: "server_lock lock_op list list" where
  "insert_thread_locks =
     [critical ConfigLock Shared, critical CacheLock Exclusive, critical RequestLock Exclusive]"

definition insert_post_locks :: "server_lock lock_op list list" where
  "insert_post_locks =
     [critical ConfigLock Shared, critical CacheLock Exclusive, critical RequestLock Exclusive]"

definition update_body_locks :: "server_lock lock_op list list" where
  "update_body_locks = [critical RequestLock Exclusive, critical ConfigLock Shared]"

definition handler_locks :: "server_lock lock_op list list list" where
  "handler_locks =
     [synchronize_locks, handle_handshake_locks, insert_thread_locks, insert_post_locks, update_body_locks]"

definition handler_run :: "server_lock lock_op list list \<Rightarrow> bool" where
  "handler_run sections \<longleftrightarrow> (\<exists>h \<in> set handler_locks. \<exists>n. sections = take n h)"

lemmas handler_locks_defs =
  handler_locks_def synchronize_locks_def handle_handshake_locks_def insert_thread_locks_def
  insert_post_locks_def update_body_locks_def

text \<open>
  \<^verbatim>\<open>ws_receive_message\<close>: the client is looked up under the lock of the registry, which is given back
  at once; the handlers run under the lock of the client, and so does the removal of a client
  whose message failed, because the guard lives until the end of the \<^verbatim>\<open>if let\<close>.
\<close>

definition receive_program :: "u64 \<Rightarrow> server_lock lock_op list list \<Rightarrow> bool \<Rightarrow> server_lock lock_op list" where
  "receive_program cid sections failed =
     critical RegistryLock Shared @
     Acquire (ClientLock cid) Exclusive #
       concat sections @ (if failed then critical RegistryLock Exclusive else []) @
     [Release (ClientLock cid)]"

text \<open>
  \<^verbatim>\<open>post_location\<close> finds the entry in the cache, reads it, and then is done, or has got the lock to
  fetch it from the database, or has not and reads it again.
\<close>

datatype lookup_path = Known | Fetching | WouldBlock

definition post_location_program :: "u64 \<Rightarrow> lookup_path \<Rightarrow> server_lock lock_op list" where
  "post_location_program pid way =
     critical CacheLock Exclusive @ critical (LocationLock pid) Shared @
     (case way of
        Known \<Rightarrow> []
      | Fetching \<Rightarrow> critical (LocationLock pid) Exclusive
      | WouldBlock \<Rightarrow> critical (LocationLock pid) Shared)"

text \<open>What one thread of the server does: any of these, any number of times.\<close>

inductive server_program :: "server_lock lock_op list \<Rightarrow> bool" where
  idle: "server_program []"
| registered: "server_program (critical RegistryLock Exclusive)"
| received_unknown: "server_program (critical RegistryLock Shared)"
| received: "\<forall>r \<in> set handled. handler_run r \<Longrightarrow> server_program (receive_program cid (concat handled) failed)"
| configured: "server_program (critical ConfigLock Exclusive)"
| image_inserted: "server_program (critical RequestLock Exclusive)"
| snapshot: "server_program (critical RegistryLock Exclusive)"
| link_parsed: "server_program (post_location_program pid way)"
| reference_parsed: "server_program (critical ConfigLock Shared)"
| body_buffered: "server_program (critical BodiesLock Exclusive)"
| bodies_flushed: "server_program (critical BodiesLock Exclusive @ critical ConfigLock Shared)"
| further: "server_program p \<Longrightarrow> server_program q \<Longrightarrow> server_program (p @ q)"

lemma ranked_critical [simp]: "ranked rank [] (critical l m)"
  by (simp add: critical_def)

lemma ranked_critical_append:
  "\<forall>h \<in> set held. rank h < rank l \<Longrightarrow> ranked rank held q \<Longrightarrow> ranked rank held (critical l m @ q)"
  by (simp add: critical_def)

definition handler_sections :: "server_lock lock_op list set" where
  "handler_sections =
     {critical RegistryLock Exclusive, critical ConfigLock Shared, critical CacheLock Exclusive,
      critical RequestLock Exclusive}"

lemma handler_run_sections: "handler_run r \<Longrightarrow> set r \<subseteq> handler_sections"
  by (auto simp: handler_run_def handler_locks_defs handler_sections_def dest!: in_set_takeD)

lemma ranked_sections:
  "set sections \<subseteq> handler_sections \<Longrightarrow> ranked lock_rank [ClientLock cid] q \<Longrightarrow>
    ranked lock_rank [ClientLock cid] (concat sections @ q)"
  by (induction sections) (auto simp: handler_sections_def intro!: ranked_critical_append)

lemma server_program_ranked: "server_program p \<Longrightarrow> ranked lock_rank [] p"
proof (induction rule: server_program.induct)
  case (received handled cid failed)
  then have "set (concat handled) \<subseteq> handler_sections" using handler_run_sections by fastforce
  then show ?case
    by (auto simp: receive_program_def simp del: set_concat intro!: ranked_critical_append ranked_sections)
next
  case (link_parsed pid way)
  then show ?case
    by (auto simp: post_location_program_def intro!: ranked_critical_append split: lookup_path.split)
qed (auto intro: ranked_critical_append ranked_append)

interpretation server_locks: lock_order lock_rank server_program
  by unfold_locales (rule server_program_ranked)

text \<open>
  C20: the threads of the server never wait for each other in a circle. However many threads run
  the entry points, the pulsar, the parser and the writer of bodies, and in whatever order they
  are scheduled, as long as something is left to do some thread can go on, and every run comes to
  an end after as many steps as the threads have operations.
\<close>

theorem server_threads_finish:
  assumes "\<forall>p \<in> set ps. server_program p" "(lock_step ^^ n) (lock_start ps) ts"
  shows "n + ops_left ts = sum_list (map length ps) \<and> (lock_finished ts \<or> (\<exists>ts'. lock_step ts ts'))"
  using assms by (rule server_locks.runs_finish)

theorem server_threads_finish_witness:
  "\<exists>ts. (lock_step ^^ 3) (lock_start [receive_program 1 [critical RegistryLock Exclusive] True,
       critical RegistryLock Exclusive]) ts \<and> ops_left ts = 7 \<and> (lock_finished ts \<or> (\<exists>ts'. lock_step ts ts'))"
proof -
  define ops where "ops = concat [critical RegistryLock Exclusive] @ critical RegistryLock Exclusive @ [Release (ClientLock 1)]"
  define other :: "server_lock lock_op list" where "other = critical RegistryLock Exclusive"
  let ?a = "[([], Acquire RegistryLock Shared # Release RegistryLock # Acquire (ClientLock 1) Exclusive # ops), ([], other)]"
  let ?b = "[([(RegistryLock, Shared)], Release RegistryLock # Acquire (ClientLock 1) Exclusive # ops), ([], other)]"
  let ?c = "[([], Acquire (ClientLock 1) Exclusive # ops), ([], other)]"
  let ?d = "[([(ClientLock 1, Exclusive)], ops), ([], other)]"
  have "lock_step ?a ?b" "lock_step ?b ?c" "lock_step ?c ?d"
    using lock_step.acquired [of 0 ?a "[]" RegistryLock Shared]
      lock_step.released [of 0 ?b RegistryLock Shared "[]"]
      lock_step.acquired [of 0 ?c "[]" "ClientLock 1" Exclusive]
    by (simp_all add: lock_grantable_def)
  then have "(lock_step ^^ 3) ?a ?d" by (auto simp: numeral_3_eq_3 intro!: relcomppI)
  moreover have "?a = lock_start [receive_program 1 [critical RegistryLock Exclusive] True, critical RegistryLock Exclusive]"
    by (simp add: lock_start_def receive_program_def critical_def ops_def other_def)
  ultimately have s: "(lock_step ^^ 3) (lock_start [receive_program 1 [critical RegistryLock Exclusive] True,
      critical RegistryLock Exclusive]) ?d" by simp
  have "handler_run [critical RegistryLock Exclusive]"
    by (auto simp: handler_run_def handler_locks_defs intro!: exI [of _ 1])
  then have "\<forall>p \<in> set [receive_program 1 [critical RegistryLock Exclusive] True, critical RegistryLock Exclusive].
      server_program p"
    using server_program.received [of "[[critical RegistryLock Exclusive]]" 1 True]
    by (auto intro: server_program.registered)
  from server_threads_finish [OF this s]
  have "3 + ops_left ?d = 10 \<and> (lock_finished ?d \<or> (\<exists>ts'. lock_step ?d ts'))"
    by (simp add: receive_program_def critical_def)
  with s show ?thesis by (intro exI [of _ ?d]) simp
qed

section \<open>Shared clients\<close>

text \<open>
  A client is shared as an \<^verbatim>\<open>Rc\<close>, whose count is not atomic: dropping it loads the count, stores
  one less, and then looks whether it is zero to free the client. \<^verbatim>\<open>ws_receive_message\<close> drops the
  reference it got from \<^verbatim>\<open>get_client\<close> under no lock, while \<^verbatim>\<open>ws_unregister_client\<close>, called from the
  thread that writes to the socket, drops the one of the registry.
\<close>

datatype dropper = Receiving | Unregistering

datatype drop_pc = Holding | Loaded nat | Stored | Gone

record client_rc =
  strong :: nat
  drop_pcs :: "dropper \<Rightarrow> drop_pc"
  frees :: nat

definition client_shared :: client_rc where
  "client_shared = \<lparr>strong = 2, drop_pcs = (\<lambda>_. Holding), frees = 0\<rparr>"

definition rc_drop_step :: "client_rc \<Rightarrow> dropper \<Rightarrow> client_rc" where
  "rc_drop_step c t =
     (case drop_pcs c t of
        Holding \<Rightarrow> c\<lparr>drop_pcs := (drop_pcs c)(t := Loaded (strong c))\<rparr>
      | Loaded n \<Rightarrow> c\<lparr>strong := n - 1, drop_pcs := (drop_pcs c)(t := Stored)\<rparr>
      | Stored \<Rightarrow>
          c\<lparr>drop_pcs := (drop_pcs c)(t := Gone), frees := if strong c = 0 then frees c + 1 else frees c\<rparr>
      | Gone \<Rightarrow> c)"

definition drop_schedules :: "dropper list set" where
  "drop_schedules = shuffles (replicate 3 Receiving) (replicate 3 Unregistering)"

lemma drop_schedules_eq:
  "drop_schedules = shuffles [Receiving, Receiving, Receiving] [Unregistering, Unregistering, Unregistering]"
  by (simp add: drop_schedules_def numeral_3_eq_3)

text \<open>One after the other the two threads free the client once.\<close>

lemma drops_in_turn:
  "frees (foldl rc_drop_step client_shared (replicate 3 t @ replicate 3 u)) = 1" if "t \<noteq> u"
  using that by (cases t; cases u) (simp_all add: rc_drop_step_def client_shared_def numeral_3_eq_3)


end
