(* ===== verification/Global_Lock.thy ===== *)
theory Global_Lock
  imports Registry
begin

text \<open>
  The global variables of both crates (\<^verbatim>\<open>gen_global!\<close> of \<^verbatim>\<open>protocol/src/util.rs\<close>): a static that is
  initialised by the first access and accessed by closures under a \<^verbatim>\<open>RwLock\<close>. Here a closure is not
  one step: it looks at or changes the variable many times, other threads run in between, and it
  may panic half way, which poisons the lock. The main result justifies the rest of the
  development, where an operation on a global variable is one step.
\<close>

section \<open>Variable and lock\<close>

text \<open>Closures that write are the list of their updates; the lock is held by readers or by a writer.\<close>

datatype rw_lock = Readers "nat set" | Writer nat

datatype 's closure =
    Outside
  | InRead (seen: "'s list")
  | InWrite (performed: "('s \<Rightarrow> 's) list") (pending: "('s \<Rightarrow> 's) list")

datatype 's access =
    ReadDone nat "'s list"
  | WriteDone nat "('s \<Rightarrow> 's) list"
  | Refused nat

record 's global_var =
  cell :: "'s option"
  rw :: rw_lock
  poisoned :: bool
  closures :: "nat \<Rightarrow> 's closure"
  accesses :: "'s access list"

definition global_static :: "'s global_var" where
  "global_static =
     \<lparr>cell = None, rw = Readers {}, poisoned = False, closures = (\<lambda>_. Outside), accesses = []\<rparr>"

text \<open>\<^verbatim>\<open>__init\<close>: the first access stores the default value.\<close>

definition global_init :: "'s \<Rightarrow> 's global_var \<Rightarrow> 's global_var" where
  "global_init def g = (case cell g of None \<Rightarrow> g\<lparr>cell := Some def\<rparr> | Some _ \<Rightarrow> g)"

definition run_writes :: "('s \<Rightarrow> 's) list \<Rightarrow> 's \<Rightarrow> 's" where
  "run_writes fs d = foldl (\<lambda>d f. f d) d fs"

lemma run_writes_simps [simp]:
  "run_writes [] d = d"
  "run_writes (f # fs) d = run_writes fs (f d)"
  "run_writes (fs @ gs) d = run_writes gs (run_writes fs d)"
  by (simp_all add: run_writes_def)

definition enter_read :: "nat \<Rightarrow> 's global_var \<Rightarrow> 's global_var" where
  "enter_read t g =
     g\<lparr>rw := (case rw g of Readers R \<Rightarrow> Readers (insert t R) | Writer u \<Rightarrow> Writer u),
       closures := (closures g)(t := InRead [])\<rparr>"

definition leave_read :: "nat \<Rightarrow> 's list \<Rightarrow> 's global_var \<Rightarrow> 's global_var" where
  "leave_read t xs g =
     g\<lparr>rw := (case rw g of Readers R \<Rightarrow> Readers (R - {t}) | Writer u \<Rightarrow> Writer u),
       closures := (closures g)(t := Outside), accesses := accesses g @ [ReadDone t xs]\<rparr>"

definition enter_write :: "nat \<Rightarrow> ('s \<Rightarrow> 's) list \<Rightarrow> 's global_var \<Rightarrow> 's global_var" where
  "enter_write t fs g = g\<lparr>rw := Writer t, closures := (closures g)(t := InWrite [] fs)\<rparr>"

definition leave_write :: "nat \<Rightarrow> ('s \<Rightarrow> 's) list \<Rightarrow> 's global_var \<Rightarrow> 's global_var" where
  "leave_write t fs g =
     g\<lparr>rw := Readers {}, closures := (closures g)(t := Outside), accesses := accesses g @ [WriteDone t fs]\<rparr>"

text \<open>
  Any number of threads call \<^verbatim>\<open>read\<close> and \<^verbatim>\<open>write\<close>. \<open>allowed\<close> says which closures may be called for the
  value they will find. A poisoned lock makes the caller panic. Leaving a read by a panic or by
  returning is the same; leaving a write by a panic poisons the lock.
\<close>

inductive global_step ::
  "'s \<Rightarrow> ('s \<Rightarrow> ('s \<Rightarrow> 's) list \<Rightarrow> bool) \<Rightarrow> 's global_var \<Rightarrow> 's global_var \<Rightarrow> bool" for def allowed where
  read_enter: "closures g t = Outside \<Longrightarrow> \<not> poisoned g \<Longrightarrow> rw g = Readers R \<Longrightarrow>
    global_step def allowed g (enter_read t (global_init def g))"
| read_look: "closures g t = InRead xs \<Longrightarrow> cell g = Some d \<Longrightarrow>
    global_step def allowed g (g\<lparr>closures := (closures g)(t := InRead (xs @ [d]))\<rparr>)"
| read_leave: "closures g t = InRead xs \<Longrightarrow> global_step def allowed g (leave_read t xs g)"
| write_enter: "closures g t = Outside \<Longrightarrow> \<not> poisoned g \<Longrightarrow> rw g = Readers {} \<Longrightarrow>
    allowed (the (cell (global_init def g))) fs \<Longrightarrow>
    global_step def allowed g (enter_write t fs (global_init def g))"
| write_do: "closures g t = InWrite fs (f # gs) \<Longrightarrow> cell g = Some d \<Longrightarrow>
    global_step def allowed g (g\<lparr>cell := Some (f d), closures := (closures g)(t := InWrite (fs @ [f]) gs)\<rparr>)"
| write_leave: "closures g t = InWrite fs [] \<Longrightarrow> global_step def allowed g (leave_write t fs g)"
| write_panic: "closures g t = InWrite fs gs \<Longrightarrow>
    global_step def allowed g
      (g\<lparr>rw := Readers {}, poisoned := True, closures := (closures g)(t := Outside)\<rparr>)"
| refused: "closures g t = Outside \<Longrightarrow> poisoned g \<Longrightarrow>
    global_step def allowed g (g\<lparr>accesses := accesses g @ [Refused t]\<rparr>)"

abbreviation global_reach :: "'s \<Rightarrow> ('s \<Rightarrow> ('s \<Rightarrow> 's) list \<Rightarrow> bool) \<Rightarrow> 's global_var \<Rightarrow> bool" where
  "global_reach def allowed g \<equiv> (global_step def allowed)\<^sup>*\<^sup>* global_static g"

section \<open>The atomic variable\<close>

text \<open>
  The specification: accesses happen one after the other, each at once. The value after some of
  them is the default with their writes applied in order, and a read returns that value however
  often it looks.
\<close>

fun access_value :: "'s \<Rightarrow> 's access list \<Rightarrow> 's" where
  "access_value d [] = d"
| "access_value d (WriteDone t fs # as) = access_value (run_writes fs d) as"
| "access_value d (a # as) = access_value d as"

fun atomic_history :: "('s \<Rightarrow> ('s \<Rightarrow> 's) list \<Rightarrow> bool) \<Rightarrow> 's \<Rightarrow> 's access list \<Rightarrow> bool" where
  "atomic_history allowed d [] = True"
| "atomic_history allowed d (ReadDone t xs # as) = (set xs \<subseteq> {d} \<and> atomic_history allowed d as)"
| "atomic_history allowed d (WriteDone t fs # as) =
     (allowed d fs \<and> atomic_history allowed (run_writes fs d) as)"
| "atomic_history allowed d (Refused t # as) = atomic_history allowed d as"

lemma access_value_append [simp]: "access_value d (as @ bs) = access_value (access_value d as) bs"
  by (induction d as rule: access_value.induct) simp_all

lemma atomic_history_append [simp]:
  "atomic_history allowed d (as @ bs) \<longleftrightarrow>
     atomic_history allowed d as \<and> atomic_history allowed (access_value d as) bs"
  by (induction allowed d as rule: atomic_history.induct) auto

text \<open>
  What holds all the time: the history is atomic, and the value of the history is what the
  variable holds, or held when the present writer entered; those inside match the lock.
\<close>

definition global_ok :: "'s \<Rightarrow> ('s \<Rightarrow> ('s \<Rightarrow> 's) list \<Rightarrow> bool) \<Rightarrow> 's global_var \<Rightarrow> bool" where
  "global_ok def allowed g \<longleftrightarrow>
     (let v = access_value def (accesses g) in
      atomic_history allowed def (accesses g) \<and>
      (if poisoned g then (\<forall>t. closures g t = Outside)
       else case rw g of
         Readers R \<Rightarrow>
           (\<forall>t. if t \<in> R then (\<exists>xs. closures g t = InRead xs \<and> set xs \<subseteq> {v}) else closures g t = Outside) \<and>
           (case cell g of Some d \<Rightarrow> d = v | None \<Rightarrow> v = def \<and> R = {})
       | Writer u \<Rightarrow>
           (\<exists>fs gs. closures g u = InWrite fs gs \<and> allowed v (fs @ gs) \<and> cell g = Some (run_writes fs v)) \<and>
           (\<forall>t. t \<noteq> u \<longrightarrow> closures g t = Outside)))"

lemma global_ok_static: "global_ok def allowed global_static"
  by (simp add: global_ok_def global_static_def)

lemma global_ok_readers:
  assumes "global_ok def allowed g" "\<not> poisoned g" "rw g = Readers R"
  shows "atomic_history allowed def (accesses g)"
    "t \<in> R \<Longrightarrow> \<exists>xs. closures g t = InRead xs \<and> set xs \<subseteq> {access_value def (accesses g)}"
    "t \<notin> R \<Longrightarrow> closures g t = Outside"
    "cell (global_init def g) = Some (access_value def (accesses g))"
    "cell g = Some d \<Longrightarrow> d = access_value def (accesses g)"
  using assms by (auto simp: global_ok_def Let_def global_init_def split: option.splits if_splits)

lemma global_ok_in_read:
  assumes "global_ok def allowed g" "closures g t = InRead xs"
  obtains R where "\<not> poisoned g" "rw g = Readers R" "t \<in> R" "set xs \<subseteq> {access_value def (accesses g)}"
proof -
  have p: "\<not> poisoned g" using assms by (auto simp: global_ok_def Let_def)
  show ?thesis
  proof (cases "rw g")
    case (Readers R)
    with global_ok_readers(2,3) [OF assms(1) p this, of t] assms(2) p that show ?thesis
      by (cases "t \<in> R") auto
  next
    case (Writer u)
    with assms p show ?thesis by (cases "t = u") (auto simp: global_ok_def Let_def)
  qed
qed

lemma global_ok_in_write:
  assumes "global_ok def allowed g" "closures g t = InWrite fs gs"
  shows "\<not> poisoned g" "rw g = Writer t" "allowed (access_value def (accesses g)) (fs @ gs)"
    "cell g = Some (run_writes fs (access_value def (accesses g)))"
    "u \<noteq> t \<Longrightarrow> closures g u = Outside" "atomic_history allowed def (accesses g)"
proof -
  show p: "\<not> poisoned g" using assms by (auto simp: global_ok_def Let_def)
  show w: "rw g = Writer t"
  proof (cases "rw g")
    case (Readers R)
    with global_ok_readers(2,3) [OF assms(1) p this, of t] assms(2) show ?thesis by (cases "t \<in> R") auto
  next
    case (Writer u)
    with assms p show ?thesis by (cases "t = u") (auto simp: global_ok_def Let_def)
  qed
  show "allowed (access_value def (accesses g)) (fs @ gs)"
    "cell g = Some (run_writes fs (access_value def (accesses g)))"
    "u \<noteq> t \<Longrightarrow> closures g u = Outside" "atomic_history allowed def (accesses g)"
    using assms p w by (auto simp: global_ok_def Let_def)
qed

lemma global_init_simps [simp]:
  "rw (global_init def g) = rw g" "poisoned (global_init def g) = poisoned g"
  "closures (global_init def g) = closures g" "accesses (global_init def g) = accesses g"
  by (simp_all add: global_init_def split: option.splits)

lemma global_step_ok:
  assumes "global_step def allowed g g'" "global_ok def allowed g"
  shows "global_ok def allowed g'"
  using assms(1)
proof (cases rule: global_step.cases)
  case (read_enter t R)
  note ok = global_ok_readers [OF assms(2) read_enter(3,4)]
  from read_enter ok show ?thesis
    by (auto simp: global_ok_def Let_def enter_read_def)
next
  case (read_look t xs d)
  from assms(2) read_look(2) obtain R where r: "\<not> poisoned g" "rw g = Readers R" "t \<in> R"
    "set xs \<subseteq> {access_value def (accesses g)}" by (rule global_ok_in_read)
  note ok = global_ok_readers [OF assms(2) r(1,2)]
  from read_look r ok(1,2,3) ok(5) [of d] show ?thesis
    by (auto simp: global_ok_def Let_def)
next
  case (read_leave t xs)
  from assms(2) read_leave(2) obtain R where r: "\<not> poisoned g" "rw g = Readers R" "t \<in> R"
    "set xs \<subseteq> {access_value def (accesses g)}" by (rule global_ok_in_read)
  note ok = global_ok_readers [OF assms(2) r(1,2)]
  have "cell g \<noteq> None" using assms(2) r by (auto simp: global_ok_def Let_def split: option.splits)
  with read_leave r ok(1,2,3) ok(5) show ?thesis
    by (auto simp: global_ok_def Let_def leave_read_def)
next
  case (write_enter t fs)
  note ok = global_ok_readers [OF assms(2) write_enter(3,4)]
  from write_enter ok show ?thesis by (simp add: global_ok_def Let_def enter_write_def)
next
  case (write_do t fs f gs d)
  with global_ok_in_write [OF assms(2) write_do(2)] show ?thesis by (simp add: global_ok_def Let_def)
next
  case (write_leave t fs)
  with global_ok_in_write [OF assms(2) write_leave(2)] show ?thesis
    by (auto simp: global_ok_def Let_def leave_write_def)
next
  case (write_panic t fs gs)
  with global_ok_in_write [OF assms(2) write_panic(2)] show ?thesis
    by (auto simp: global_ok_def Let_def)
next
  case (refused t)
  with assms(2) show ?thesis by (auto simp: global_ok_def Let_def)
qed

lemma global_reach_ok: "global_reach def allowed g \<Longrightarrow> global_ok def allowed g"
  by (induction rule: rtranclp_induct) (auto intro: global_ok_static global_step_ok)

text \<open>
  C5: the global variables behind locks are atomic. However the closures of any number of threads
  interleave and wherever they panic, the accesses that were completed form a sequential history:
  in the order of their completion every write was made on the value its predecessors left, and
  every read saw that value each time it looked. As long as no write panicked and none is under
  way, the variable holds the value of the history.
\<close>

theorem global_access_atomic:
  assumes "global_reach def allowed g"
  shows "atomic_history allowed def (accesses g) \<and>
    (\<not> poisoned g \<longrightarrow> (\<forall>t. rw g \<noteq> Writer t) \<longrightarrow> cell g \<in> {None, Some (access_value def (accesses g))})"
  using global_reach_ok [OF assms]
  by (auto simp: global_ok_def Let_def split: rw_lock.splits option.splits if_splits)

definition demo_enter :: "nat global_var" where
  "demo_enter = enter_write 1 [Suc, Suc] (global_init 0 global_static)"

lemma demo_half_written:
  "global_reach 0 (\<lambda>_ _. True) (demo_enter\<lparr>cell := Some 1, closures := (closures demo_enter)(1 := InWrite [Suc] [Suc])\<rparr>)"
proof -
  have "global_step 0 (\<lambda>_ _. True) global_static demo_enter"
    unfolding demo_enter_def by (rule global_step.write_enter) (simp_all add: global_static_def)
  moreover have "global_step 0 (\<lambda>_ _. True) demo_enter
      (demo_enter\<lparr>cell := Some (Suc 0), closures := (closures demo_enter)(1 := InWrite ([] @ [Suc]) [Suc])\<rparr>)"
    by (rule global_step.write_do) (simp_all add: demo_enter_def enter_write_def global_init_def global_static_def)
  ultimately show ?thesis by simp
qed

theorem global_access_atomic_witness:
  "let g = demo_enter\<lparr>cell := Some 1, closures := (closures demo_enter)(1 := InWrite [Suc] [Suc])\<rparr> in
   global_reach 0 (\<lambda>_ _. True) g \<and> atomic_history (\<lambda>_ _. True) 0 (accesses g)"
  using global_access_atomic [OF demo_half_written] demo_half_written by (simp add: Let_def)

section \<open>Invariants behind a lock\<close>

text \<open>
  What every closure that writes keeps as a whole, whatever it breaks on the way, every reader
  sees every time it looks.
\<close>

locale global_invariant =
  fixes def :: 's
    and allowed :: "'s \<Rightarrow> ('s \<Rightarrow> 's) list \<Rightarrow> bool"
    and inv :: "'s \<Rightarrow> bool"
  assumes inv_default: "inv def"
    and inv_write: "inv d \<Longrightarrow> allowed d fs \<Longrightarrow> inv (run_writes fs d)"
begin

lemma history_keeps:
  "atomic_history allowed d as \<Longrightarrow> inv d \<Longrightarrow> ReadDone t xs \<in> set as \<Longrightarrow> x \<in> set xs \<Longrightarrow> inv x"
proof (induction as arbitrary: d)
  case (Cons a as)
  then show ?case by (cases a) (auto dest: inv_write)
qed simp

lemma observed:
  assumes "global_reach def allowed g" "ReadDone t xs \<in> set (accesses g)" "x \<in> set xs"
  shows "inv x"
proof -
  have "global_ok def allowed g" by (rule global_reach_ok [OF assms(1)])
  then have "atomic_history allowed def (accesses g)" by (simp add: global_ok_def Let_def)
  with inv_default assms(2,3) show ?thesis by (rule history_keeps [rotated 1])
qed

end

text \<open>A call on a free lock that is not poisoned runs to its end.\<close>

lemma write_runs:
  "closures g t = InWrite fs gs \<Longrightarrow> cell g = Some d \<Longrightarrow>
    (global_step def allowed)\<^sup>*\<^sup>* g
      (g\<lparr>cell := Some (run_writes gs d), closures := (closures g)(t := InWrite (fs @ gs) [])\<rparr>)"
proof (induction gs arbitrary: g fs d)
  case Nil
  then have "g\<lparr>cell := Some d, closures := (closures g)(t := InWrite fs [])\<rparr> = g"
    by (cases g) (simp add: fun_upd_idem)
  then show ?case by (simp only: append_Nil2 run_writes_simps rtranclp.rtrancl_refl)
next
  case (Cons f gs)
  let ?g = "g\<lparr>cell := Some (f d), closures := (closures g)(t := InWrite (fs @ [f]) gs)\<rparr>"
  have "global_step def allowed g ?g" using Cons.prems by (rule global_step.write_do)
  moreover have "(global_step def allowed)\<^sup>*\<^sup>* ?g
      (g\<lparr>cell := Some (run_writes (f # gs) d), closures := (closures g)(t := InWrite (fs @ f # gs) [])\<rparr>)"
    using Cons.IH [of ?g "fs @ [f]" "f d"] by (simp add: fun_upd_def cong: if_cong)
  ultimately show ?case by (rule converse_rtranclp_into_rtranclp)
qed

lemma write_call:
  assumes "\<not> poisoned g" "rw g = Readers {}" "closures g t = Outside" "cell (global_init def g) = Some d"
    and "allowed d fs"
  shows "(global_step def allowed)\<^sup>*\<^sup>* g
    (g\<lparr>cell := Some (run_writes fs d), accesses := accesses g @ [WriteDone t fs]\<rparr>)"
proof -
  let ?a = "enter_write t fs (global_init def g)"
  let ?b = "?a\<lparr>cell := Some (run_writes fs d), closures := (closures ?a)(t := InWrite ([] @ fs) [])\<rparr>"
  have "global_step def allowed g ?a" using assms by (intro global_step.write_enter) simp_all
  moreover have "(global_step def allowed)\<^sup>*\<^sup>* ?a ?b"
    by (rule write_runs) (use assms in \<open>simp_all add: enter_write_def\<close>)
  ultimately have "(global_step def allowed)\<^sup>*\<^sup>* g ?b" by (rule converse_rtranclp_into_rtranclp)
  moreover have "global_step def allowed ?b (leave_write t fs ?b)" by (rule global_step.write_leave) simp
  ultimately have "(global_step def allowed)\<^sup>*\<^sup>* g (leave_write t fs ?b)" by (rule rtranclp.rtrancl_into_rtrancl)
  moreover have "leave_write t fs ?b = g\<lparr>cell := Some (run_writes fs d), accesses := accesses g @ [WriteDone t fs]\<rparr>"
    using assms by (simp add: leave_write_def enter_write_def global_init_def fun_upd_idem split: option.splits)
  ultimately show ?thesis by simp
qed

lemma read_call:
  assumes "\<not> poisoned g" "rw g = Readers {}" "closures g t = Outside" "cell g = Some d"
  shows "(global_step def allowed)\<^sup>*\<^sup>* g (g\<lparr>accesses := accesses g @ [ReadDone t [d]]\<rparr>)"
proof -
  let ?a = "enter_read t (global_init def g)"
  let ?b = "?a\<lparr>closures := (closures ?a)(t := InRead ([] @ [d]))\<rparr>"
  have "global_step def allowed g ?a" using assms by (intro global_step.read_enter) simp_all
  moreover have "global_step def allowed ?a ?b"
    by (rule global_step.read_look) (use assms in \<open>simp_all add: enter_read_def global_init_def\<close>)
  ultimately have "(global_step def allowed)\<^sup>*\<^sup>* g ?b" by (simp add: converse_rtranclp_into_rtranclp)
  moreover have "global_step def allowed ?b (leave_read t [d] ?b)" by (rule global_step.read_leave) simp
  ultimately have "(global_step def allowed)\<^sup>*\<^sup>* g (leave_read t [d] ?b)" by (rule rtranclp.rtrancl_into_rtrancl)
  moreover have "leave_read t [d] ?b = g\<lparr>accesses := accesses g @ [ReadDone t [d]]\<rparr>"
    using assms by (simp add: leave_read_def enter_read_def global_init_def fun_upd_idem)
  ultimately show ?thesis by simp
qed

text \<open>The registry: each closure that writes is an operation of it, in as many updates as it needs.\<close>

definition registry_closure :: "'c registry \<Rightarrow> ('c registry \<Rightarrow> 'c registry) list \<Rightarrow> bool" where
  "registry_closure r fs \<longleftrightarrow> reg_step r (run_writes fs r)"

interpretation registry_lock: global_invariant registry_default registry_closure reg_inv
  by unfold_locales (auto simp: registry_closure_def intro: reg_inv_default reg_step_inv)

text \<open>The updates of \<^verbatim>\<open>set_client_thread\<close> one by one; after the first the index by thread is out of date.\<close>

definition set_client_thread_updates :: "u64 \<Rightarrow> u64 \<Rightarrow> 'c client_descriptor \<Rightarrow> ('c registry \<Rightarrow> 'c registry) list" where
  "set_client_thread_updates client thread desc =
     [\<lambda>r. r\<lparr>clients := (clients r)(client \<mapsto> desc\<lparr>desc_thread := Some thread\<rparr>)\<rparr>,
      remove_from_thread client (desc_thread desc),
      \<lambda>r. r\<lparr>by_thread := sm_insert thread client (by_thread r)\<rparr>,
      \<lambda>r. r\<lparr>need_init := sm_insert thread client (need_init r)\<rparr>]"

lemma set_client_thread_updates:
  assumes "clients r client = Some desc"
  shows "run_writes (set_client_thread_updates client thread desc) r = set_client_thread client thread r"
  using assms by (simp add: set_client_thread_updates_def set_client_thread_def Let_def)

text \<open>
  Every thread that reads the registry finds it consistent. While other threads add, remove and
  move clients, each in several updates that leave the indexes wrong in between, the clients a
  reader finds under a thread are exactly those whose descriptor names the thread, and likewise
  for keys, each time it looks.
\<close>

theorem registry_reads_consistent:
  assumes "global_reach registry_default registry_closure g"
    and "ReadDone u xs \<in> set (accesses g)" "r \<in> set xs"
  shows "(case sm_get (by_thread r) t of Some cs \<Rightarrow> cs | None \<Rightarrow> {}) =
      {c. \<exists>d. clients r c = Some d \<and> desc_thread d = Some t} \<and>
    (case sm_get (by_pub_key r) k of Some cs \<Rightarrow> cs | None \<Rightarrow> {}) =
      {c. \<exists>d. clients r c = Some d \<and> desc_pub_key d = Some k}"
  using registry_lock.observed [OF assms]
  by (auto simp: reg_inv_def sm_get_rel thread_pairs_def key_pairs_def split: option.splits if_splits)

theorem registry_reads_consistent_witness:
  "\<exists>g r. global_reach registry_default registry_closure g \<and>
     accesses g = [WriteDone 1 [add_client 5 (0 :: nat)],
       WriteDone 1 (set_client_thread_updates 5 9 (client_descriptor_new 0)), ReadDone 2 [r]] \<and>
     (case sm_get (by_thread r) 9 of Some cs \<Rightarrow> cs | None \<Rightarrow> {}) =
       {c. \<exists>d. clients r c = Some d \<and> desc_thread d = Some 9}"
proof -
  define r1 where "r1 = add_client 5 (0 :: nat) registry_default"
  define fs where "fs = set_client_thread_updates 5 9 (client_descriptor_new (0 :: nat))"
  define r2 where "r2 = run_writes fs r1"
  let ?g1 = "global_static\<lparr>cell := Some r1, accesses := [WriteDone 1 [add_client 5 0]]\<rparr>"
  let ?g2 = "global_static\<lparr>cell := Some r2, accesses := [WriteDone 1 [add_client 5 0], WriteDone 1 fs]\<rparr>"
  let ?g3 = "global_static\<lparr>cell := Some r2, accesses := [WriteDone 1 [add_client 5 0], WriteDone 1 fs, ReadDone 2 [r2]]\<rparr>"
  let ?S = "(global_step registry_default registry_closure)\<^sup>*\<^sup>*"
  have "reg_step registry_default r1"
    unfolding r1_def by (rule reg_step.add) (simp add: registry_default_def)
  then have "?S global_static ?g1"
    using write_call [of global_static 1 registry_default registry_default registry_closure "[add_client 5 0]"]
    by (simp add: global_static_def global_init_def registry_closure_def r1_def)
  moreover have "clients r1 5 = Some (client_descriptor_new 0)"
    by (simp add: r1_def add_client_def)
  then have "registry_closure r1 fs"
    by (simp add: registry_closure_def fs_def set_client_thread_updates reg_step.thread)
  then have "?S ?g1 ?g2"
    using write_call [of ?g1 1 registry_default r1 registry_closure fs]
    by (simp add: global_static_def global_init_def r2_def)
  moreover have "?S ?g2 ?g3"
    using read_call [of ?g2 2 r2] by (simp add: global_static_def)
  ultimately have g3: "?S global_static ?g3" by (meson rtranclp_trans)
  moreover have "ReadDone 2 [r2] \<in> set (accesses ?g3)" "r2 \<in> set [r2]" by simp_all
  ultimately show ?thesis
    using registry_reads_consistent [of ?g3 2 "[r2]" r2 9 0] unfolding fs_def by fastforce
qed

end
