(* ===== verification/Pulsar.thy ===== *)
theory Pulsar
  imports Server_World Body_Parser Diff
begin

text \<open>
  The update dispatcher of the server, \<^verbatim>\<open>websockets/websockets/src/pulsar.rs\<close>: one feed per
  thread and a global one, fed by requests over a channel and emptied by a pulse that encodes
  what is pending and distributes it to the clients of the registry. Hash containers are iterated
  in an order that is an argument; parallel loops run in that order. A handler may panic or not
  return (the differ does not always), which its result says; messages for the error log are part
  of the result.
\<close>

section \<open>State\<close>

text \<open>The payloads of feed messages.\<close>

datatype feed_payload =
    InitPayload feed_data
  | ThreadPayload thread_creation_notice
  | PostPayload post_creation_notice
  | ImagePayload insert_image
  | PatchPayload patch_node

record pulsar_env =
  pe_parse :: parse_env
  pe_deflate :: deflater
  pe_ser :: "feed_payload serializer"

datatype pulsar_log =
    EncodeLog u64 io_error
  | NotFoundLog string "u64 list"
  | ParseLog u64 string

type_synonym msg = "u8 list"

record feed_common =
  fc_id :: u64
  fc_need_init :: "u64 set"
  init_msg_cache :: "msg option"
  fc_pending :: "encoder option"

definition feed_common_new :: "u64 \<Rightarrow> feed_common" where
  "feed_common_new fid =
     \<lparr>fc_id = fid, fc_need_init = {}, init_msg_cache = None, fc_pending = None\<rparr>"

definition common_clear_cache :: "feed_common \<Rightarrow> feed_common" where
  "common_clear_cache c = c\<lparr>init_msg_cache := None\<rparr>"

text \<open>
  \<^verbatim>\<open>Last5Posts\<close>, a min-heap of the \<^verbatim>\<open>heapless\<close> library with room for five: its contents in
  ascending order. \<open>push_unchecked\<close> on a full heap is undefined behaviour in the source.
\<close>

type_synonym last_5_posts = "u64 list"

definition heap_push :: "u64 \<Rightarrow> last_5_posts \<Rightarrow> last_5_posts" where
  "heap_push pid h = insort pid h"

definition heap_pop :: "last_5_posts \<Rightarrow> last_5_posts" where
  "heap_pop h = tl h"

record feed =
  common :: feed_common
  global_init_msg_part :: "msg option"
  pending_global :: "encoder option"
  last_5_posts :: last_5_posts
  data :: feed_data
  pending_open_bodies :: "u64 \<rightharpoonup> string"

record pulsar =
  feeds :: "u64 \<rightharpoonup> feed"
  global :: feed_common

definition pulsar_default :: pulsar where
  "pulsar_default = \<lparr>feeds = Map.empty, global = feed_common_new 0\<rparr>"

text \<open>What the pulsar shares with the rest of the server: location cache and open body buffer.\<close>

record shared =
  sh_locations :: location_cache
  sh_bodies :: open_bodies

section \<open>Runs\<close>

definition run_bind :: "'a run \<Rightarrow> ('a \<Rightarrow> 'b run) \<Rightarrow> 'b run" where
  "run_bind r f = (case r of Done v \<Rightarrow> f v | Panicked \<Rightarrow> Panicked | Diverged \<Rightarrow> Diverged)"

lemma run_bind_simps [simp]:
  "run_bind (Done v) f = f v" "run_bind Panicked f = Panicked" "run_bind Diverged f = Diverged"
  by (simp_all add: run_bind_def)

lemma run_bind_Done: "run_bind r f = Done w \<longleftrightarrow> (\<exists>v. r = Done v \<and> f v = Done w)"
  by (cases r) simp_all

section \<open>Feeds\<close>

definition get_encoder :: "encoder option \<Rightarrow> encoder" where
  "get_encoder enc = (case enc of Some e \<Rightarrow> e | None \<Rightarrow> encoder_new [])"

text \<open>The loop of \<^verbatim>\<open>Feed::new\<close> over the keys of the recent posts.\<close>

definition last_5_step :: "last_5_posts \<Rightarrow> u64 \<Rightarrow> last_5_posts" where
  "last_5_step l5 pid =
     (case l5 of
        mn # _ \<Rightarrow> if mn < pid then heap_push pid (heap_pop l5) else l5
      | [] \<Rightarrow> heap_push pid l5)"

definition feed_new :: "u64 iter_order \<Rightarrow> feed_data \<Rightarrow> feed" where
  "feed_new ord d =
     \<lparr>common = feed_common_new (fd_thread d), global_init_msg_part = None, pending_global = None,
      last_5_posts = foldl last_5_step [] (ord (dom (recent_posts d))), data = d,
      pending_open_bodies = Map.empty\<rparr>"

definition feed_clear_cache :: "feed \<Rightarrow> feed" where
  "feed_clear_cache f = f\<lparr>global_init_msg_part := None, common := common_clear_cache (common f)\<rparr>"

definition encode_init :: "pulsar_env \<Rightarrow> feed_data \<Rightarrow> io_error + msg" where
  "encode_init env d = encode (pe_deflate env) (pe_ser env) FeedInit (InitPayload d)"

definition get_init_msg :: "pulsar_env \<Rightarrow> feed \<Rightarrow> (io_error + msg) \<times> feed" where
  "get_init_msg env f =
     (case init_msg_cache (common f) of
        Some msg \<Rightarrow> (Inr msg, f)
      | None \<Rightarrow>
          (case encode_init env (data f) of
             Inl e \<Rightarrow> (Inl e, f)
           | Inr msg \<Rightarrow> (Inr msg, f\<lparr>common := (common f)\<lparr>init_msg_cache := Some msg\<rparr>\<rparr>)))"

definition include_in_global :: "feed \<Rightarrow> u64 \<Rightarrow> bool" where
  "include_in_global f pid \<longleftrightarrow> pid = fd_thread (data f) \<or> pid \<in> set (last_5_posts f)"

definition filter_recent :: "feed \<Rightarrow> (u64 \<rightharpoonup> 'v) \<Rightarrow> u64 \<rightharpoonup> 'v" where
  "filter_recent f m = (\<lambda>pid. if include_in_global f pid then m pid else None)"

definition global_part_data :: "feed \<Rightarrow> feed_data" where
  "global_part_data f =
     \<lparr>fd_thread = fc_id (common f), recent_posts = filter_recent f (recent_posts (data f)),
      open_posts = filter_recent f (open_posts (data f))\<rparr>"

definition get_global_init_msg_part :: "pulsar_env \<Rightarrow> feed \<Rightarrow> (io_error + msg) \<times> feed" where
  "get_global_init_msg_part env f =
     (case global_init_msg_part f of
        Some msg \<Rightarrow> (Inr msg, f)
      | None \<Rightarrow>
          (case encode_init env (global_part_data f) of
             Inl e \<Rightarrow> (Inl e, f)
           | Inr msg \<Rightarrow> (Inr msg, f\<lparr>global_init_msg_part := Some msg\<rparr>)))"

definition feed_insert_post :: "u64 \<Rightarrow> u32 \<Rightarrow> feed \<Rightarrow> feed" where
  "feed_insert_post pid time f =
     (let d = (data f)\<lparr>recent_posts := (recent_posts (data f))(pid \<mapsto> time)\<rparr>;
          l5 = (if length (last_5_posts f) = 5 then heap_pop (last_5_posts f) else last_5_posts f)
      in f\<lparr>last_5_posts := heap_push pid l5,
           data := d\<lparr>open_posts := (open_posts d)(pid \<mapsto> open_post_new (fc_id (common f)) time)\<rparr>\<rparr>)"

text \<open>Write a message to an encoder that is created when there is none; a failure is logged.\<close>

definition encode_pending ::
  "pulsar_env \<Rightarrow> u64 \<Rightarrow> message_type \<Rightarrow> feed_payload \<Rightarrow> encoder option \<Rightarrow> encoder option \<times> pulsar_log list"
  where
  "encode_pending env fid typ payload enc =
     (case write_message (pe_ser env) (get_encoder enc) typ payload of
        (e, err) \<Rightarrow> (Some e, case err of None \<Rightarrow> [] | Some er \<Rightarrow> [EncodeLog fid er]))"

definition encode_post_message ::
  "pulsar_env \<Rightarrow> u64 \<Rightarrow> message_type \<Rightarrow> feed_payload \<Rightarrow> feed \<Rightarrow> feed \<times> pulsar_log list" where
  "encode_post_message env post typ payload f =
     (let fid = fc_id (common f);
          (p, l1) = encode_pending env fid typ payload (fc_pending (common f));
          f = f\<lparr>common := (common f)\<lparr>fc_pending := p\<rparr>\<rparr> in
      if include_in_global f post then
        let (g, l2) = encode_pending env fid typ payload (pending_global f)
        in (f\<lparr>pending_global := g\<rparr>, l1 @ l2)
      else (f, l1))"

section \<open>Open bodies\<close>

text \<open>Parsing and diffing one pending body against the feed's state.\<close>

definition diff_one ::
  "pulsar_env \<Rightarrow> feed \<Rightarrow> u64 \<times> string \<Rightarrow> location_cache \<Rightarrow>
   ((u64 \<times> patch_node \<times> node) list \<times> pulsar_log list) run \<times> location_cache" where
  "diff_one env f e lc =
     (case open_posts (data f) (fst e) of
        None \<Rightarrow> (Done ([], []), lc)
      | Some p \<Rightarrow>
          (case parse (pe_parse env) (snd e) True lc of
             (Inl Panic, lc) \<Rightarrow> (Panicked, lc)
           | (Inl (Err err), lc) \<Rightarrow> (Done ([], [ParseLog (fst e) err]), lc)
           | (Inr new, lc) \<Rightarrow>
               (map_run (\<lambda>patch. case patch of
                    None \<Rightarrow> ([], [])
                  | Some pt \<Rightarrow> ([(fst e, pt, new)], [])) (diff (op_body p) new), lc)))"

fun diff_collect ::
  "pulsar_env \<Rightarrow> feed \<Rightarrow> (u64 \<times> string) list \<Rightarrow> location_cache \<Rightarrow>
   ((u64 \<times> patch_node \<times> node) list \<times> pulsar_log list) run \<times> location_cache" where
  "diff_collect env f [] lc = (Done ([], []), lc)"
| "diff_collect env f (e # es) lc =
     (let (r1, lc) = diff_one env f e lc; (r2, lc) = diff_collect env f es lc
      in (run_bind r1 (\<lambda>(ps, l1). run_bind r2 (\<lambda>(qs, l2). Done (ps @ qs, l1 @ l2))), lc))"

text \<open>Storing a new body; the post was open when its body was diffed.\<close>

definition apply_body ::
  "pulsar_env \<Rightarrow> feed \<times> open_bodies \<times> pulsar_log list \<Rightarrow> u64 \<times> patch_node \<times> node \<Rightarrow>
   feed \<times> open_bodies \<times> pulsar_log list" where
  "apply_body env s p =
     (case s of (f, ob, l) \<Rightarrow> case p of (pid, patch, new) \<Rightarrow>
        let ops = open_posts (data f);
            f = f\<lparr>data := (data f)\<lparr>open_posts :=
                    ops(pid := map_option (\<lambda>op. op\<lparr>op_body := new\<rparr>) (ops pid))\<rparr>\<rparr>;
            ob = persist_open_body pid new ob;
            (f, l') = encode_post_message env pid PatchPostBody (PatchPayload patch) f
        in (f, ob, l @ l'))"

definition diff_open_bodies ::
  "pulsar_env \<Rightarrow> u64 iter_order \<Rightarrow> feed \<Rightarrow> shared \<Rightarrow> (feed \<times> shared \<times> pulsar_log list) run" where
  "diff_open_bodies env ord f sh =
     (let pend = map (\<lambda>pid. (pid, the (pending_open_bodies f pid))) (ord (dom (pending_open_bodies f)));
          f = f\<lparr>pending_open_bodies := Map.empty\<rparr>;
          (r, lc) = diff_collect env f pend (sh_locations sh) in
      run_bind r (\<lambda>(ps, l).
        case foldl (apply_body env) (f, sh_bodies sh, l) ps of
          (f, ob, l) \<Rightarrow> Done (f, \<lparr>sh_locations = lc, sh_bodies = ob\<rparr>, l)))"

section \<open>Requests\<close>

definition pulsar_init :: "u64 iter_order \<Rightarrow> feed_data list \<Rightarrow> pulsar \<Rightarrow> pulsar" where
  "pulsar_init ord ds p =
     p\<lparr>feeds := foldl (\<lambda>m d. m(fd_thread d \<mapsto> feed_new ord d)) Map.empty ds\<rparr>"

definition pulsar_insert_thread ::
  "pulsar_env \<Rightarrow> thread_creation_notice \<Rightarrow> pulsar \<Rightarrow> pulsar \<times> pulsar_log list" where
  "pulsar_insert_thread env d p =
     (let g = common_clear_cache (global p);
          f = feed_new (\<lambda>_. [])
                \<lparr>fd_thread = tcn_id d, recent_posts = Map.empty, open_posts = Map.empty\<rparr>;
          f = feed_insert_post (tcn_id d) (tcn_time d) f;
          (e, l) = encode_pending env (fc_id g) InsertThread (ThreadPayload d) (fc_pending g)
      in (p\<lparr>feeds := (feeds p)(tcn_id d \<mapsto> f), global := g\<lparr>fc_pending := e\<rparr>\<rparr>, l))"

definition mod_thread ::
  "u64 \<Rightarrow> (feed \<Rightarrow> feed \<times> pulsar_log list) \<Rightarrow> pulsar \<Rightarrow> pulsar \<times> pulsar_log list" where
  "mod_thread thread handler p =
     (case feeds p thread of
        Some f \<Rightarrow>
          let (f, l) = handler (feed_clear_cache f)
          in (p\<lparr>global := common_clear_cache (global p), feeds := (feeds p)(thread \<mapsto> f)\<rparr>, l)
      | None \<Rightarrow> (p, [NotFoundLog ''thread'' [thread]]))"

definition pulsar_insert_post ::
  "pulsar_env \<Rightarrow> post_creation_notice \<Rightarrow> pulsar \<Rightarrow> pulsar \<times> pulsar_log list" where
  "pulsar_insert_post env d =
     mod_thread (pcn_thread d) (\<lambda>f.
       encode_post_message env (pcn_id d) InsertPost (PostPayload d)
         (feed_insert_post (pcn_id d) (pcn_time d) f))"

text \<open>\<^verbatim>\<open>remove_thread\<close> ends in \<^verbatim>\<open>todo!()\<close>.\<close>

definition pulsar_remove_thread :: "u64 \<Rightarrow> pulsar \<Rightarrow> (pulsar \<times> pulsar_log list) run" where
  "pulsar_remove_thread tid p = Panicked"

definition pulsar_insert_image ::
  "pulsar_env \<Rightarrow> image_insertion_req \<Rightarrow> pulsar \<Rightarrow> pulsar \<times> pulsar_log list" where
  "pulsar_insert_image env req =
     mod_thread (iir_thread req) (\<lambda>f.
       case open_posts (data f) (iir_post req) of
         Some p \<Rightarrow>
           let p = p\<lparr>has_image := True, image_spoilered := spoilered (img_common (iir_img req))\<rparr>;
               f = f\<lparr>data := (data f)\<lparr>open_posts := (open_posts (data f))(iir_post req \<mapsto> p)\<rparr>\<rparr>
           in encode_post_message env (iir_post req) InsertImage
                (ImagePayload \<lparr>ii_post = iir_post req, ii_image = iir_img req\<rparr>) f
       | None \<Rightarrow> (f, [NotFoundLog ''open post'' [iir_thread req, iir_post req]]))"

definition enqueue_open_body ::
  "u64 \<Rightarrow> u64 \<Rightarrow> string \<Rightarrow> pulsar \<Rightarrow> pulsar \<times> pulsar_log list" where
  "enqueue_open_body post thread body =
     mod_thread thread (\<lambda>f. (f\<lparr>pending_open_bodies := (pending_open_bodies f)(post \<mapsto> body)\<rparr>, []))"

definition handle_request ::
  "pulsar_env \<Rightarrow> pulsar_request \<Rightarrow> pulsar \<Rightarrow> (pulsar \<times> pulsar_log list) run" where
  "handle_request env req p =
     (case req of
        ReqInsertThread d \<Rightarrow> Done (pulsar_insert_thread env d p)
      | ReqInsertPost d \<Rightarrow> Done (pulsar_insert_post env d p)
      | ReqRemoveThread tid \<Rightarrow> pulsar_remove_thread tid p
      | ReqInsertImage r \<Rightarrow> Done (pulsar_insert_image env r p)
      | ReqSetOpenBody post thread body \<Rightarrow> Done (enqueue_open_body post thread body p))"

text \<open>
  \<open>t0\<close> and \<open>t1\<close> are two readings of the system clock in nanoseconds: the threshold is the time
  elapsed at \<open>t1\<close> since fifteen minutes before \<open>t0\<close>, in whole seconds, or zero when the clock went
  back further than that.
\<close>

definition clean_up_threshold :: "int \<Rightarrow> int \<Rightarrow> u32" where
  "clean_up_threshold t0 t1 =
     (let from = t0 - 900 * 10 ^ 9 in
      word_of_int (if from \<le> t1 then (t1 - from) div 10 ^ 9 else 0))"

definition retain_recent :: "u32 \<Rightarrow> feed \<Rightarrow> feed" where
  "retain_recent threshold f =
     f\<lparr>data := (data f)\<lparr>recent_posts := (\<lambda>pid.
         case recent_posts (data f) pid of
           Some created \<Rightarrow> if created > threshold then Some created else None
         | None \<Rightarrow> None)\<rparr>\<rparr>"

definition clean_up :: "int \<Rightarrow> int \<Rightarrow> pulsar \<Rightarrow> pulsar" where
  "clean_up t0 t1 p =
     p\<lparr>feeds := (\<lambda>tid. map_option (retain_recent (clean_up_threshold t0 t1)) (feeds p tid))\<rparr>"

section \<open>Pulses\<close>

record message_set =
  global_init_parts :: "msg list"
  global_feed_messages :: "msg list"
  thread_messages :: "u64 \<rightharpoonup> msg"

definition message_set_default :: message_set where
  "message_set_default =
     \<lparr>global_init_parts = [], global_feed_messages = [], thread_messages = Map.empty\<rparr>"

definition message_set_is_empty :: "message_set \<Rightarrow> bool" where
  "message_set_is_empty ms \<longleftrightarrow>
     global_init_parts ms = [] \<and> global_feed_messages ms = [] \<and> thread_messages ms = Map.empty"

text \<open>
  The messages of one thread feed for its clients, by client. The pending encoder is taken out
  in every case; an encoding error is returned with the feed as it is then.
\<close>

definition take_thread_messages ::
  "pulsar_env \<Rightarrow> u64 set option \<Rightarrow> feed \<Rightarrow> (io_error + (u64 \<rightharpoonup> msg)) \<times> feed" where
  "take_thread_messages env on_feed f =
     (let need = fc_need_init (common f);
          pend = fc_pending (common f);
          f = f\<lparr>common := (common f)\<lparr>fc_pending := None\<rparr>\<rparr> in
      case (pend, on_feed) of
        (None, Some cs) \<Rightarrow>
          if need \<noteq> {} then
            (case get_init_msg env f of
               (Inl e, f) \<Rightarrow> (Inl e, f)
             | (Inr msg, f) \<Rightarrow> (Inr (\<lambda>c. if c \<in> need \<inter> cs then Some msg else None), f))
          else (Inr Map.empty, f)
      | (Some pending, Some cs) \<Rightarrow>
          (case encoder_finish (pe_deflate env) pending of
             Inl e \<Rightarrow> (Inl e, f)
           | Inr m \<Rightarrow>
               if need \<noteq> {} then
                 (case get_init_msg env f of
                    (Inl e, f) \<Rightarrow> (Inl e, f)
                  | (Inr ini, f) \<Rightarrow>
                      (Inr (\<lambda>c. if c \<in> cs then Some (if c \<in> need then encoder_join [ini, m] else m)
                                else None), f))
               else (Inr (\<lambda>c. if c \<in> cs then Some m else None), f))
      | (_, None) \<Rightarrow> (Inr Map.empty, f))"

text \<open>One feed's share of a pulse; \<open>None\<close> when it has nothing to do or failed to encode.\<close>

definition feed_messages ::
  "pulsar_env \<Rightarrow> u64 iter_order \<Rightarrow> bool \<Rightarrow> (u64, u64) set_map \<Rightarrow> u64 \<Rightarrow> feed \<Rightarrow> shared \<Rightarrow>
   (message_set option \<times> feed \<times> shared \<times> pulsar_log list) run" where
  "feed_messages env ord build_global_init clients_by_feed fid f sh =
     (if \<not> build_global_init \<and> fc_need_init (common f) = {} \<and> sm_get clients_by_feed fid = None
      then Done (None, f, sh, [])
      else
        run_bind (diff_open_bodies env ord f sh) (\<lambda>(f, sh, l).
          case take_thread_messages env (sm_get clients_by_feed fid) f of
            (Inl e, f) \<Rightarrow> Done (None, f, sh, l @ [EncodeLog (fc_id (common f)) e])
          | (Inr tm, f) \<Rightarrow>
              let f = f\<lparr>common := (common f)\<lparr>fc_need_init := {}\<rparr>\<rparr> in
              (case (if build_global_init then get_global_init_msg_part env f else (Inr [], f)) of
                 (Inl e, f) \<Rightarrow> Done (None, f, sh, l @ [EncodeLog (fc_id (common f)) e])
               | (Inr part, f) \<Rightarrow>
                   let pg = pending_global f;
                       f = f\<lparr>pending_global := None\<rparr> in
                   (case (case pg of None \<Rightarrow> Inr []
                          | Some e \<Rightarrow> rbind (encoder_finish (pe_deflate env) e) (\<lambda>b. Inr [b])) of
                      Inl e \<Rightarrow> Done (None, f, sh, l @ [EncodeLog (fc_id (common f)) e])
                    | Inr gm \<Rightarrow>
                        Done (Some \<lparr>global_init_parts = (if build_global_init then [part] else []),
                                    global_feed_messages = gm, thread_messages = tm\<rparr>, f, sh, l)))))"

definition message_set_merge :: "message_set \<Rightarrow> message_set \<Rightarrow> message_set" where
  "message_set_merge a b =
     \<lparr>global_init_parts = global_init_parts a @ global_init_parts b,
      global_feed_messages = global_feed_messages a @ global_feed_messages b,
      thread_messages = thread_messages a ++ thread_messages b\<rparr>"

fun aggregate_loop ::
  "pulsar_env \<Rightarrow> u64 iter_order \<Rightarrow> bool \<Rightarrow> (u64, u64) set_map \<Rightarrow> u64 list \<Rightarrow>
   message_set \<times> pulsar \<times> shared \<times> pulsar_log list \<Rightarrow>
   (message_set \<times> pulsar \<times> shared \<times> pulsar_log list) run" where
  "aggregate_loop env ord build cbf [] s = Done s"
| "aggregate_loop env ord build cbf (fid # fids) s =
     (case s of (ms, p, sh, l) \<Rightarrow>
        case feeds p fid of
          None \<Rightarrow> aggregate_loop env ord build cbf fids s
        | Some f \<Rightarrow>
            run_bind (feed_messages env ord build cbf fid f sh) (\<lambda>(m, f, sh, l').
              aggregate_loop env ord build cbf fids
                (case m of None \<Rightarrow> ms | Some m \<Rightarrow> message_set_merge ms m,
                 p\<lparr>feeds := (feeds p)(fid \<mapsto> f)\<rparr>, sh, l @ l')))"

definition aggregate_feed_messages ::
  "pulsar_env \<Rightarrow> u64 iter_order \<Rightarrow> bool \<Rightarrow> (u64, u64) set_map \<Rightarrow> pulsar \<Rightarrow> shared \<Rightarrow>
   (message_set \<times> pulsar \<times> shared \<times> pulsar_log list) run" where
  "aggregate_feed_messages env ord build cbf p sh =
     aggregate_loop env ord build cbf (ord (dom (feeds p))) (message_set_default, p, sh, [])"

text \<open>
  Distribution of the thread messages: every key of the message map is looked up as a thread and
  its message goes to the clients of that thread.
\<close>

definition assign_thread_messages ::
  "u64 iter_order \<Rightarrow> (u64, u64) set_map \<Rightarrow> (u64 \<rightharpoonup> msg) \<Rightarrow> u64 \<rightharpoonup> msg" where
  "assign_thread_messages ord cbf tm =
     foldl (\<lambda>mbc thread.
         case sm_get cbf thread of
           Some cls \<Rightarrow> (\<lambda>c. if c \<in> cls then tm thread else mbc c)
         | None \<Rightarrow> mbc)
       Map.empty (ord (dom tm))"

definition assign_global_feed_messages ::
  "msg list \<Rightarrow> msg list \<Rightarrow> u64 set option \<Rightarrow> (u64 \<rightharpoonup> msg) \<Rightarrow> pulsar \<Rightarrow> (u64 \<rightharpoonup> msg) \<times> pulsar" where
  "assign_global_feed_messages init_parts feed_msgs global_clients mbc p =
     (let need = fc_need_init (global p);
          mbc =
            (case global_clients of
               None \<Rightarrow> mbc
             | Some cls \<Rightarrow>
                 if init_parts \<noteq> [] \<and> feed_msgs = [] then
                   (\<lambda>c. if c \<in> need \<inter> cls then Some (encoder_join init_parts) else mbc c)
                 else if init_parts \<noteq> [] \<and> feed_msgs \<noteq> [] then
                   let single = encoder_join feed_msgs;
                       with_init = encoder_join (init_parts @ [single]) in
                   (\<lambda>c. if c \<in> cls then Some (if c \<in> need then with_init else single) else mbc c)
                 else if init_parts = [] \<and> feed_msgs \<noteq> [] then
                   (\<lambda>c. if c \<in> cls then Some (encoder_join feed_msgs) else mbc c)
                 else mbc)
      in (mbc, p\<lparr>global := (global p)\<lparr>fc_need_init := {}\<rparr>\<rparr>))"

definition merge_server_wide_messages ::
  "pulsar_env \<Rightarrow> u64 set \<Rightarrow> (u64 \<rightharpoonup> msg) \<Rightarrow> pulsar \<Rightarrow> (u64 \<rightharpoonup> msg) \<times> pulsar \<times> pulsar_log list" where
  "merge_server_wide_messages env all_clients mbc p =
     (case fc_pending (global p) of
        None \<Rightarrow> (mbc, p, [])
      | Some pending \<Rightarrow>
          let p = p\<lparr>global := (global p)\<lparr>fc_pending := None\<rparr>\<rparr> in
          (case encoder_finish (pe_deflate env) pending of
             Inr buf \<Rightarrow>
               ((\<lambda>c. case mbc c of
                       Some queued \<Rightarrow> Some (encoder_join [queued, buf])
                     | None \<Rightarrow> if c \<in> all_clients then Some buf else None), p, [])
           | Inl err \<Rightarrow> (mbc, p, [EncodeLog (fc_id (global p)) err])))"

text \<open>The drainer the pulse hands to the registry, on the clients that need initialisation.\<close>

definition drain_entry ::
  "pulsar \<times> (u64 \<times> u64 set) list \<Rightarrow> u64 \<times> u64 set \<Rightarrow> pulsar \<times> (u64 \<times> u64 set) list" where
  "drain_entry s e =
     (case s of (p, not_ready) \<Rightarrow> case e of (fid, cls) \<Rightarrow>
        if fid = 0 then
          (p\<lparr>global := (global p)\<lparr>fc_need_init := fc_need_init (global p) \<union> cls\<rparr>\<rparr>, not_ready)
        else
          (case feeds p fid of
             Some f \<Rightarrow>
               (p\<lparr>feeds := (feeds p)(fid \<mapsto> f\<lparr>common := (common f)\<lparr>fc_need_init :=
                    fc_need_init (common f) \<union> cls\<rparr>\<rparr>)\<rparr>, not_ready)
           | None \<Rightarrow> (p, not_ready @ [(fid, cls)])))"

definition drain_need_init ::
  "u64 iter_order \<Rightarrow> pulsar \<Rightarrow> (u64, u64) set_map \<Rightarrow> pulsar \<times> (u64, u64) set_map" where
  "drain_need_init ord p sm =
     (case sm_drain ord sm of
        (entries, sm) \<Rightarrow>
          (case foldl drain_entry (p, []) entries of
             (p, not_ready) \<Rightarrow> (p, if not_ready \<noteq> [] then sm_from_iter not_ready else sm)))"

text \<open>A whole pulse: what is written to which client, and the state after it.\<close>

definition send_messages ::
  "pulsar_env \<Rightarrow> u64 iter_order \<Rightarrow> 'c registry \<Rightarrow> pulsar \<Rightarrow> shared \<Rightarrow>
   ((u64 \<rightharpoonup> msg) \<times> 'c registry \<times> pulsar \<times> shared \<times> pulsar_log list) run" where
  "send_messages env ord reg p sh =
     (case snapshot_threads (drain_need_init ord p) reg of
        (p, (all_clients, clients_by_feed), reg) \<Rightarrow>
          run_bind
            (aggregate_feed_messages env ord
               (fc_need_init (global p) \<noteq> {} \<and> init_msg_cache (global p) = None) clients_by_feed p sh)
            (\<lambda>(messages, p, sh, l).
              if message_set_is_empty messages \<and> fc_pending (global p) = None
              then Done (Map.empty, reg, p, sh, l)
              else
                let mbc = assign_thread_messages ord clients_by_feed (thread_messages messages);
                    (mbc, p) = assign_global_feed_messages (global_init_parts messages)
                      (global_feed_messages messages) (sm_get clients_by_feed 0) mbc p;
                    (mbc, p, l') = merge_server_wide_messages env all_clients mbc p
                in Done (mbc, reg, p, sh, l @ l')))"

section \<open>Main loop\<close>

text \<open>
  The clock of the loop in milliseconds: the instant the thread started, and the instants of the
  last pulse and the last clean-up.
\<close>

record pulsar_clock =
  pc_now :: nat
  last_send :: nat
  last_cleanup :: nat

definition clock_start :: "nat \<Rightarrow> pulsar_clock" where
  "clock_start t = \<lparr>pc_now = t, last_send = t, last_cleanup = t\<rparr>"

text \<open>One round that started at \<open>started\<close>: whether it sends and cleans up, and the clock after.\<close>

definition loop_clock :: "nat \<Rightarrow> pulsar_clock \<Rightarrow> bool \<times> bool \<times> pulsar_clock" where
  "loop_clock started k =
     (let send = started - last_send k > 100;
          k = (if send then k\<lparr>last_send := pc_now k\<rparr> else k);
          clean = started - last_cleanup k > 60000;
          k = (if clean then k\<lparr>last_cleanup := pc_now k\<rparr> else k)
      in (send, clean, k))"

text \<open>How long the loop sleeps after a round of \<open>elapsed\<close> milliseconds.\<close>

definition sleep_duration :: "nat \<Rightarrow> nat" where
  "sleep_duration elapsed = (if elapsed < 30 then 30 - elapsed else 30)"

fun handle_requests ::
  "pulsar_env \<Rightarrow> pulsar_request list \<Rightarrow> pulsar \<Rightarrow> (pulsar \<times> pulsar_log list) run" where
  "handle_requests env [] p = Done (p, [])"
| "handle_requests env (r # rs) p =
     run_bind (handle_request env r p) (\<lambda>(p, l).
       run_bind (handle_requests env rs p) (\<lambda>(p, l'). Done (p, l @ l')))"

text \<open>A round of the loop: pending requests, then the pulse and the clean-up when they are due.\<close>

definition pulsar_round ::
  "pulsar_env \<Rightarrow> u64 iter_order \<Rightarrow> nat \<Rightarrow> int \<times> int \<Rightarrow> pulsar_request list \<Rightarrow> pulsar_clock \<Rightarrow>
   'c registry \<Rightarrow> pulsar \<Rightarrow> shared \<Rightarrow>
   (pulsar_clock \<times> (u64 \<rightharpoonup> msg) \<times> 'c registry \<times> pulsar \<times> shared \<times> pulsar_log list) run" where
  "pulsar_round env ord started readings reqs k reg p sh =
     run_bind (handle_requests env reqs p) (\<lambda>(p, l).
       case loop_clock started k of
         (send, clean, k) \<Rightarrow>
           run_bind (if send then send_messages env ord reg p sh else Done (Map.empty, reg, p, sh, []))
             (\<lambda>(out, reg, p, sh, l').
               Done (k, out, reg, if clean then clean_up (fst readings) (snd readings) p else p, sh, l @ l')))"

end
