(* ===== verification/Ffi_Buffers.thy ===== *)
theory Ffi_Buffers
  imports Server_Storage Pulsar
begin

text \<open>
  Raw buffers at the border to Go (\<^verbatim>\<open>WSBuffer\<close>, \<^verbatim>\<open>WSBufferMut\<close> of \<^verbatim>\<open>bindings.rs\<close>), the start of the
  server's threads (\<^verbatim>\<open>ws_init\<close>, \<^verbatim>\<open>pulsar::init\<close>) and the configuration of the connection pool
  (\<^verbatim>\<open>db.rs\<close>). Memory is a map from the addresses of allocations to their bytes; address 0 is null.
\<close>

section \<open>Buffers\<close>

type_synonym c_memory = "nat \<rightharpoonup> u8 list"

record ws_buffer =
  buf_data :: nat
  buf_size :: nat

definition ws_buffer_default :: ws_buffer where
  "ws_buffer_default = \<lparr>buf_data = 0, buf_size = 0\<rparr>"

text \<open>
  \<^verbatim>\<open>slice::from_raw_parts\<close>: the pointer must not be null, also for an empty slice, and the bytes must
  be allocated; otherwise the behaviour is undefined, here \<open>None\<close>.
\<close>

definition from_raw_parts :: "c_memory \<Rightarrow> nat \<Rightarrow> nat \<Rightarrow> u8 list option" where
  "from_raw_parts mem ptr len =
     (if ptr = 0 then None
      else if len = 0 then Some []
      else case mem ptr of
        Some bs \<Rightarrow> if len \<le> length bs then Some (take len bs) else None
      | None \<Rightarrow> None)"

definition ws_buffer_as_ref :: "c_memory \<Rightarrow> ws_buffer \<Rightarrow> u8 list option" where
  "ws_buffer_as_ref mem b = from_raw_parts mem (buf_data b) (buf_size b)"

text \<open>A slice of Rust is a pointer that is not null and a length.\<close>

definition ws_buffer_from :: "nat \<times> nat \<Rightarrow> ws_buffer" where
  "ws_buffer_from s = \<lparr>buf_data = fst s, buf_size = snd s\<rparr>"

definition ref_option :: "(nat \<times> nat) option \<Rightarrow> ws_buffer" where
  "ref_option src = (case src of Some s \<Rightarrow> ws_buffer_from s | None \<Rightarrow> ws_buffer_default)"

definition DANGLING :: nat where "DANGLING = 1"

definition ws_buffer_mut_as_ref :: "c_memory \<Rightarrow> ws_buffer \<Rightarrow> u8 list option" where
  "ws_buffer_mut_as_ref mem b =
     from_raw_parts mem (if buf_data b \<noteq> 0 then buf_data b else DANGLING) (buf_size b)"

text \<open>\<^verbatim>\<open>libc::free\<close>, which ignores null and must not be given anything that is not allocated.\<close>

definition c_free :: "nat \<Rightarrow> c_memory \<Rightarrow> c_memory option" where
  "c_free ptr mem =
     (if ptr = 0 then Some mem else if mem ptr = None then None else Some (mem(ptr := None)))"

definition ws_buffer_mut_drop :: "ws_buffer \<Rightarrow> c_memory \<Rightarrow> c_memory option" where
  "ws_buffer_mut_drop b mem = c_free (buf_data b) mem"

text \<open>What Go passes for a byte slice: the nil slice is a null pointer of length 0.\<close>

definition go_slice :: "c_memory \<Rightarrow> ws_buffer \<Rightarrow> u8 list \<Rightarrow> bool" where
  "go_slice mem b bs \<longleftrightarrow>
     buf_size b = length bs \<and>
     (if buf_data b = 0 then bs = [] else bs = [] \<or> (\<exists>cs. mem (buf_data b) = Some (bs @ cs)))"

text \<open>
  Borrowed buffers are read correctly exactly if they are not null: the nil slice of Go, the first
  message of a connection if that is empty, is undefined behaviour. Owned buffers are always read
  correctly.
\<close>

theorem ws_buffer_read:
  assumes "go_slice mem b bs"
  shows "ws_buffer_as_ref mem b = (if buf_data b = 0 then None else Some bs) \<and>
    ws_buffer_mut_as_ref mem b = Some bs"
  using assms
  by (auto simp: go_slice_def ws_buffer_as_ref_def ws_buffer_mut_as_ref_def from_raw_parts_def DANGLING_def
      split: option.splits if_splits)

text \<open>
  A buffer that Go allocated for \<^verbatim>\<open>get_public_key\<close>, or the default if Go failed, is freed when it
  is dropped, and nothing else is.
\<close>

theorem ws_buffer_mut_dropped:
  assumes "b = ws_buffer_default \<or> mem (buf_data b) \<noteq> None \<and> buf_data b \<noteq> 0"
  shows "\<exists>mem'. ws_buffer_mut_drop b mem = Some mem' \<and> (\<forall>p. p \<noteq> 0 \<longrightarrow> mem' p = (if p = buf_data b then None else mem p))"
  using assms by (auto simp: ws_buffer_mut_drop_def c_free_def ws_buffer_default_def)

section \<open>Start of the server\<close>

text \<open>
  \<^verbatim>\<open>pulsar::init\<close>: the channel is there before the feed data is decoded; if that fails its receiver is
  dropped and the channel is closed. \<open>spawn\<close> is the error of starting the thread, if any.
\<close>

definition pulsar_start ::
  "(u8 list \<Rightarrow> string + feed_data list) \<Rightarrow> u64 iter_order \<Rightarrow> string option \<Rightarrow> u8 list \<Rightarrow> (string + pulsar) \<times> channel" where
  "pulsar_start de ord spawn buf =
     (case de buf of
        Inl err \<Rightarrow> (Inl err, None)
      | Inr ds \<Rightarrow>
          (case spawn of
             Some err \<Rightarrow> (Inl err, None)
           | None \<Rightarrow> (Inr (pulsar_init ord ds pulsar_default), Some [])))"

definition ws_init ::
  "(u8 list \<Rightarrow> string + feed_data list) \<Rightarrow> u64 iter_order \<Rightarrow> string option \<Rightarrow> string option \<Rightarrow> u8 list \<Rightarrow>
   string option \<times> pulsar option \<times> channel" where
  "ws_init de ord spawn body_spawn buf =
     (case pulsar_start de ord spawn buf of
        (Inl err, ch) \<Rightarrow> (cast_to_c_error (Inl (''could not start pulsar: '' @ err)), None, ch)
      | (Inr p, ch) \<Rightarrow>
          (cast_to_c_error
             (case body_spawn of
                Some err \<Rightarrow> Inl (''could not start post body runtime: '' @ err)
              | None \<Rightarrow> Inr ()),
           Some p, ch))"

text \<open>
  The Go side is told about every failure to start, although an error with an empty text is
  otherwise reported as success, and without one the pulsar accepts requests.
\<close>

theorem ws_init_reports:
  "case ws_init de ord spawn body_spawn buf of (err, p, ch) \<Rightarrow>
     (err = None \<longleftrightarrow> (\<exists>ds. de buf = Inr ds) \<and> spawn = None \<and> body_spawn = None) \<and>
     (err = None \<longrightarrow> (\<forall>req. fst (send_request req ch)) \<and>
        (\<exists>ds. de buf = Inr ds \<and> p = Some (pulsar_init ord ds pulsar_default)))"
  by (auto simp: ws_init_def pulsar_start_def cast_to_c_error_def send_request_def
      split: sum.splits option.splits)

section \<open>Connection pool\<close>

text \<open>The parsed database address, as \<^verbatim>\<open>tokio_postgres::Config\<close> shows it, and the pool's configuration.\<close>

datatype pg_host = Tcp string | Unix "u8 list"

record pg_config =
  pg_user :: "string option"
  pg_password :: "u8 list option"
  pg_dbname :: "string option"
  pg_application_name :: "string option"
  pg_hosts :: "pg_host list"
  pg_ports :: "u16 list"
  pg_connect_timeout :: "u64 option"
  pg_keepalives :: bool
  pg_keepalives_idle :: u64

record pool_config =
  pc_user :: "string option"
  pc_password :: "string option"
  pc_dbname :: "string option"
  pc_application_name :: "string option"
  pc_ssl_disabled :: bool
  pc_hosts :: "string list option"
  pc_ports :: "u16 list option"
  pc_connect_timeout :: "u64 option"
  pc_keepalives :: bool
  pc_keepalives_idle :: u64
  pc_read_write :: bool

definition utf8_string :: "u8 list \<Rightarrow> string option" where
  "utf8_string bs = (if utf8_valid (map unat bs) then Some (from_bytes bs) else None)"

fun host_string :: "(pg_host \<Rightarrow> string) \<Rightarrow> pg_host \<Rightarrow> string + string" where
  "host_string dbg (Tcp s) = Inr s"
| "host_string dbg (Unix p) =
     (case utf8_string p of
        Some s \<Rightarrow> Inr s
      | None \<Rightarrow> Inl (''could not parse Unix socket host: '' @ dbg (Unix p)))"

fun collect_hosts :: "(pg_host \<Rightarrow> string) \<Rightarrow> pg_host list \<Rightarrow> string + string list" where
  "collect_hosts dbg [] = Inr []"
| "collect_hosts dbg (h # hs) = rbind (host_string dbg h) (\<lambda>s. rbind (collect_hosts dbg hs) (\<lambda>ss. Inr (s # ss)))"

definition none_if_empty :: "'a list \<Rightarrow> 'a list option" where
  "none_if_empty xs = (if xs = [] then None else Some xs)"

definition get_pool_config :: "(string \<Rightarrow> string + pg_config) \<Rightarrow> (pg_host \<Rightarrow> string) \<Rightarrow> server_config \<Rightarrow> string + pool_config" where
  "get_pool_config parse_url dbg c =
     rbind (parse_url (cfg_db_url c)) (\<lambda>u.
     rbind (collect_hosts dbg (pg_hosts u)) (\<lambda>hosts.
       Inr \<lparr>pc_user = pg_user u,
            pc_password = Option.bind (pg_password u) utf8_string,
            pc_dbname = pg_dbname u,
            pc_application_name = pg_application_name u,
            pc_ssl_disabled = True,
            pc_hosts = none_if_empty hosts,
            pc_ports = none_if_empty (pg_ports u),
            pc_connect_timeout = pg_connect_timeout u,
            pc_keepalives = pg_keepalives u,
            pc_keepalives_idle = pg_keepalives_idle u,
            pc_read_write = True\<rparr>))"

text \<open>
  \<^verbatim>\<open>get_client\<close>: the pool is made on first use from the configuration of that moment, and so is its
  error; both are kept. \<open>create\<close> makes a pool, \<open>get\<close> takes a connection from it.
\<close>

definition get_client_conn ::
  "(string \<Rightarrow> string + pg_config) \<Rightarrow> (pg_host \<Rightarrow> string) \<Rightarrow> (pool_config \<Rightarrow> string + 'pool) \<Rightarrow>
   ('pool \<Rightarrow> string + 'conn) \<Rightarrow> server_config \<Rightarrow> (string + 'pool) option \<Rightarrow> (string + 'conn) \<times> (string + 'pool) option" where
  "get_client_conn parse_url dbg create get c pool =
     (let p = (case pool of Some p \<Rightarrow> p | None \<Rightarrow> rbind (get_pool_config parse_url dbg c) create)
      in (rbind p get, Some p))"

text \<open>
  A pool that could not be made stays unmade: after a failure every later call fails with the same
  error, whatever configuration is set meanwhile.
\<close>

theorem failed_pool_is_kept:
  assumes "get_client_conn parse_url dbg create get c None = (r, pool)"
    and "rbind (get_pool_config parse_url dbg c) create = Inl err"
  shows "r = Inl err \<and> get_client_conn parse_url' dbg' create' get' c' pool = (Inl err, pool)"
  using assms by (auto simp: get_client_conn_def Let_def rbind_def)

end
