(* ===== verification/Pulsar_Props.thy ===== *)
theory Pulsar_Props
  imports Pulsar
begin

text \<open>
  What the update dispatcher guarantees: the invariant of its feeds and caches in every state the
  main loop reaches, and what a pulse delivers to whom.
\<close>


section \<open>Well-formed feeds\<close>

definition feed_wf :: "u64 \<Rightarrow> feed \<Rightarrow> bool" where
  "feed_wf tid f \<longleftrightarrow>
     fc_id (common f) = tid \<and> fd_thread (data f) = tid \<and> length (last_5_posts f) \<le> 5 \<and>
     sorted (last_5_posts f) \<and> finite (dom (pending_open_bodies f))"

definition cache_ok :: "pulsar_env \<Rightarrow> feed \<Rightarrow> bool" where
  "cache_ok env f \<longleftrightarrow>
     (\<forall>m. init_msg_cache (common f) = Some m \<longrightarrow> encode_init env (data f) = Inr m) \<and>
     (\<forall>m. global_init_msg_part f = Some m \<longrightarrow> encode_init env (global_part_data f) = Inr m) \<and>
     (pending_open_bodies f \<noteq> Map.empty \<longrightarrow>
        init_msg_cache (common f) = None \<and> global_init_msg_part f = None)"

text \<open>Creation times are seconds since 1970; all of them lie after the first thousand.\<close>

definition times_real :: "feed_data \<Rightarrow> bool" where
  "times_real d \<longleftrightarrow> (\<forall>pid c. recent_posts d pid = Some c \<longrightarrow> 1000 < c)"

definition feed_ok :: "pulsar_env \<Rightarrow> u64 \<Rightarrow> feed \<Rightarrow> bool" where
  "feed_ok env tid f \<longleftrightarrow> feed_wf tid f \<and> cache_ok env f \<and> times_real (data f)"

lemmas feed_ok_defs = feed_ok_def feed_wf_def cache_ok_def times_real_def

text \<open>The part of a feed the invariant is about; encoders and waiting clients are not in it.\<close>

definition same_core :: "feed \<Rightarrow> feed \<Rightarrow> bool" where
  "same_core f g \<longleftrightarrow>
     fc_id (common f) = fc_id (common g) \<and> init_msg_cache (common f) = init_msg_cache (common g) \<and>
     global_init_msg_part f = global_init_msg_part g \<and> last_5_posts f = last_5_posts g \<and>
     data f = data g \<and> pending_open_bodies f = pending_open_bodies g"

lemma feed_ok_core: "same_core f g \<Longrightarrow> feed_ok env tid f = feed_ok env tid g"
  by (simp add: same_core_def feed_ok_defs global_part_data_def filter_recent_def include_in_global_def)

lemma same_core_trans: "same_core f g \<Longrightarrow> same_core g h \<Longrightarrow> same_core f h"
  by (simp add: same_core_def)

lemma encode_post_message_core [simp]:
  "same_core (fst (encode_post_message env post typ payload f)) f"
  by (simp add: encode_post_message_def same_core_def Let_def split: prod.splits)

lemma length_last_5_new: "length (foldl last_5_step h ids) \<le> max 1 (length h)"
proof (induction ids arbitrary: h)
  case (Cons i ids)
  have "length (last_5_step h i) \<le> max 1 (length h)"
    by (cases h) (simp_all add: last_5_step_def heap_push_def heap_pop_def)
  with Cons [of "last_5_step h i"] show ?case by simp
qed simp

lemma sorted_last_5_new: "sorted h \<Longrightarrow> sorted (foldl last_5_step h ids)"
proof (induction ids arbitrary: h)
  case (Cons i ids)
  then have "sorted (last_5_step h i)"
    by (cases h) (simp_all add: last_5_step_def heap_push_def heap_pop_def sorted_insort)
  with Cons.IH show ?case by simp
qed simp

lemma feed_ok_new: "times_real d \<Longrightarrow> feed_ok env (fd_thread d) (feed_new ord d)"
  using length_last_5_new [of "[]" "ord (dom (recent_posts d))"]
  by (simp add: feed_ok_defs feed_new_def feed_common_new_def sorted_last_5_new)

lemma feed_ok_clear: "feed_ok env tid f \<Longrightarrow> feed_ok env tid (feed_clear_cache f)"
  by (simp add: feed_ok_defs feed_clear_cache_def common_clear_cache_def)

text \<open>A feed with nothing cached.\<close>

definition uncached :: "feed \<Rightarrow> bool" where
  "uncached f \<longleftrightarrow> init_msg_cache (common f) = None \<and> global_init_msg_part f = None"

lemma uncached_clear [simp]: "uncached (feed_clear_cache f)"
  by (simp add: uncached_def feed_clear_cache_def common_clear_cache_def)

lemma feed_insert_post_ok:
  assumes "feed_ok env tid f" "uncached f" "1000 < time"
  shows "feed_ok env tid (feed_insert_post pid time f)"
  using assms
  by (simp add: feed_ok_defs uncached_def feed_insert_post_def Let_def heap_push_def heap_pop_def
      sorted_insort sorted_tl)

lemma global_part_data_frame [simp]:
  "global_part_data (f\<lparr>global_init_msg_part := m\<rparr>) = global_part_data f"
  "global_part_data (f\<lparr>pending_global := e\<rparr>) = global_part_data f"
  "global_part_data (f\<lparr>common := (common f)\<lparr>init_msg_cache := m\<rparr>\<rparr>) = global_part_data f"
  by (simp_all add: global_part_data_def filter_recent_def include_in_global_def)

lemma feed_ok_open_posts:
  "uncached f \<Longrightarrow> feed_ok env tid (f\<lparr>data := (data f)\<lparr>open_posts := ops\<rparr>\<rparr>) = feed_ok env tid f"
  by (simp add: feed_ok_defs uncached_def)

lemma get_init_msg_ok:
  "feed_ok env tid f \<Longrightarrow> pending_open_bodies f = Map.empty \<Longrightarrow>
   feed_ok env tid (snd (get_init_msg env f)) \<and>
   pending_open_bodies (snd (get_init_msg env f)) = Map.empty"
  by (auto simp: feed_ok_defs get_init_msg_def split: option.splits sum.splits)

lemma get_global_init_msg_part_ok:
  "feed_ok env tid f \<Longrightarrow> pending_open_bodies f = Map.empty \<Longrightarrow>
   feed_ok env tid (snd (get_global_init_msg_part env f))"
  by (auto simp: feed_ok_defs get_global_init_msg_part_def split: option.splits sum.splits)


section \<open>Open bodies\<close>

definition quiet :: "pulsar_env \<Rightarrow> u64 \<Rightarrow> feed \<Rightarrow> bool" where
  "quiet env tid f \<longleftrightarrow> feed_ok env tid f \<and> pending_open_bodies f = Map.empty"

lemma quiet_core: "same_core f g \<Longrightarrow> quiet env tid f = quiet env tid g"
  using feed_ok_core [of f g env tid] by (auto simp: quiet_def same_core_def)

lemma uncached_core: "same_core f g \<Longrightarrow> uncached f = uncached g"
  by (simp add: same_core_def uncached_def)

text \<open>What storing a body leaves: only the open posts of the data change.\<close>

lemma apply_body_core:
  "\<exists>ops. same_core (fst (apply_body env (f, ob, l) e)) (f\<lparr>data := (data f)\<lparr>open_posts := ops\<rparr>\<rparr>)"
proof (cases e)
  case (fields pid patch new)
  show ?thesis
    by (rule exI [of _ "(open_posts (data f))
          (pid := map_option (\<lambda>op. op\<lparr>op_body := new\<rparr>) (open_posts (data f) pid))"])
      (simp add: fields apply_body_def Let_def split_beta)
qed

lemma apply_bodies_quiet:
  "quiet env tid f \<Longrightarrow> uncached f \<Longrightarrow>
   quiet env tid (fst (foldl (apply_body env) (f, ob, l) es)) \<and>
   uncached (fst (foldl (apply_body env) (f, ob, l) es))"
proof (induction es arbitrary: f ob l)
  case (Cons e es)
  obtain f' ob' l' where s: "apply_body env (f, ob, l) e = (f', ob', l')"
    by (cases "apply_body env (f, ob, l) e")
  obtain ops where c: "same_core f' (f\<lparr>data := (data f)\<lparr>open_posts := ops\<rparr>\<rparr>)"
    using apply_body_core [of env f ob l e] s by auto
  have "quiet env tid f'" "uncached f'"
    using Cons.prems unfolding quiet_core [OF c] uncached_core [OF c]
    by (simp_all add: quiet_def feed_ok_open_posts uncached_def)
  with Cons.IH [of f' ob' l'] s show ?case by simp
qed simp

lemma enumerates_empty [simp]: "enumerates ord \<Longrightarrow> ord {} = []"
  using enumerates_set [of ord "{}"] by simp

lemma diff_open_bodies_Done:
  assumes "diff_open_bodies env ord f sh = Done (f', sh', l)"
  shows "\<exists>ps l0. fst (diff_collect env (f\<lparr>pending_open_bodies := Map.empty\<rparr>)
           (map (\<lambda>pid. (pid, the (pending_open_bodies f pid))) (ord (dom (pending_open_bodies f))))
           (sh_locations sh)) = Done (ps, l0) \<and>
         foldl (apply_body env) (f\<lparr>pending_open_bodies := Map.empty\<rparr>, sh_bodies sh, l0) ps =
           (f', sh_bodies sh', l)"
proof -
  obtain r lc where c: "diff_collect env (f\<lparr>pending_open_bodies := Map.empty\<rparr>)
      (map (\<lambda>pid. (pid, the (pending_open_bodies f pid))) (ord (dom (pending_open_bodies f))))
      (sh_locations sh) = (r, lc)"
    by fastforce
  then obtain ps l0 where r: "r = Done (ps, l0)"
    using assms by (auto simp: diff_open_bodies_def Let_def run_bind_Done)
  obtain f1 ob1 l1 where
    fl: "foldl (apply_body env) (f\<lparr>pending_open_bodies := Map.empty\<rparr>, sh_bodies sh, l0) ps = (f1, ob1, l1)"
    by (rule prod_cases3)
  with assms c r have "f1 = f'" "ob1 = sh_bodies sh'" "l1 = l"
    by (auto simp: diff_open_bodies_def Let_def)
  with c r fl show ?thesis by simp
qed

lemma diff_open_bodies_quiet:
  assumes "enumerates ord" "feed_ok env tid f" "diff_open_bodies env ord f sh = Done (f', sh', l)"
  shows "quiet env tid f'"
proof (cases "pending_open_bodies f = Map.empty")
  case True
  then have "f' = f\<lparr>pending_open_bodies := Map.empty\<rparr>"
    using assms(1,3) by (simp add: diff_open_bodies_def Let_def)
  with True have "f' = f" by simp
  with assms(2) True show ?thesis by (simp add: quiet_def)
next
  case False
  let ?f = "f\<lparr>pending_open_bodies := Map.empty\<rparr>"
  have "quiet env tid ?f" "uncached ?f"
    using assms(2) False by (simp_all add: quiet_def uncached_def feed_ok_defs)
  moreover obtain ps l0 where "foldl (apply_body env) (?f, sh_bodies sh, l0) ps = (f', sh_bodies sh', l)"
    using diff_open_bodies_Done [OF assms(3)] by blast
  ultimately show ?thesis
    using apply_bodies_quiet [of env tid ?f "sh_bodies sh" l0 ps] by simp
qed

section \<open>Pulses\<close>

lemma take_thread_messages_quiet:
  assumes "quiet env tid f"
  shows "quiet env tid (snd (take_thread_messages env on_feed f))"
proof -
  let ?f = "f\<lparr>common := (common f)\<lparr>fc_pending := None\<rparr>\<rparr>"
  have q: "quiet env tid ?f"
    using assms quiet_core [of ?f f env tid] by (simp add: same_core_def)
  then have "quiet env tid (snd (get_init_msg env ?f))"
    using get_init_msg_ok [of env tid ?f] by (simp add: quiet_def)
  with q show ?thesis
    by (auto simp: take_thread_messages_def Let_def split: option.splits prod.splits sum.splits if_splits)
qed

lemma feed_messages_ok:
  assumes "enumerates ord" "feed_ok env tid f"
    and "feed_messages env ord build cbf fid f sh = Done (m, f', sh', l)"
  shows "feed_ok env tid f'"
proof (cases "\<not> build \<and> fc_need_init (common f) = {} \<and> sm_get cbf fid = None")
  case True
  with assms show ?thesis by (simp add: feed_messages_def)
next
  case False
  obtain f1 sh1 l1 where d: "diff_open_bodies env ord f sh = Done (f1, sh1, l1)"
    using assms(3) False by (auto simp: feed_messages_def run_bind_Done)
  obtain r f2 where t: "take_thread_messages env (sm_get cbf fid) f1 = (r, f2)"
    by (cases "take_thread_messages env (sm_get cbf fid) f1")
  have q2: "quiet env tid f2"
    using take_thread_messages_quiet [OF diff_open_bodies_quiet [OF assms(1,2) d], of "sm_get cbf fid"] t
    by simp
  let ?f3 = "f2\<lparr>common := (common f2)\<lparr>fc_need_init := {}\<rparr>\<rparr>"
  have q3: "quiet env tid ?f3"
    using q2 quiet_core [of ?f3 f2 env tid] by (simp add: same_core_def)
  obtain r4 f4 where g: "(if build then get_global_init_msg_part env ?f3 else (Inr [], ?f3)) = (r4, f4)"
    by (cases "if build then get_global_init_msg_part env ?f3 else (Inr [], ?f3)")
  have ok4: "feed_ok env tid f4"
    using q3 g get_global_init_msg_part_ok [of env tid ?f3] by (auto simp: quiet_def split: if_splits)
  have ok5: "feed_ok env tid (f4\<lparr>pending_global := None\<rparr>)"
    using ok4 feed_ok_core [of "f4\<lparr>pending_global := None\<rparr>" f4 env tid] by (simp add: same_core_def)
  have "f' \<in> {f2, f4, f4\<lparr>pending_global := None\<rparr>}"
    using assms(3) False
    by (auto simp: feed_messages_def d t g Let_def simp del: fun_upd_apply split: sum.splits option.splits)
  with q2 ok4 ok5 show ?thesis by (auto simp: quiet_def)
qed


section \<open>The dispatcher\<close>

definition pulsar_ok :: "pulsar_env \<Rightarrow> pulsar \<Rightarrow> bool" where
  "pulsar_ok env p \<longleftrightarrow>
     (\<forall>tid f. feeds p tid = Some f \<longrightarrow> feed_ok env tid f) \<and> init_msg_cache (global p) = None"

lemma pulsar_okD: "pulsar_ok env p \<Longrightarrow> feeds p tid = Some f \<Longrightarrow> feed_ok env tid f"
  by (simp add: pulsar_ok_def)

lemma pulsar_ok_upd:
  "pulsar_ok env p \<Longrightarrow> feed_ok env tid f \<Longrightarrow> pulsar_ok env (p\<lparr>feeds := (feeds p)(tid \<mapsto> f)\<rparr>)"
  by (simp add: pulsar_ok_def)

lemma pulsar_ok_global:
  "init_msg_cache g = None \<Longrightarrow> pulsar_ok env (p\<lparr>global := g\<rparr>) \<longleftrightarrow> (\<forall>tid f. feeds p tid = Some f \<longrightarrow> feed_ok env tid f)"
  by (simp add: pulsar_ok_def)

lemma pulsar_ok_init:
  assumes "\<forall>d \<in> set ds. times_real d"
  shows "pulsar_ok env (pulsar_init ord ds pulsar_default)"
proof -
  have "foldl (\<lambda>m d. m(fd_thread d \<mapsto> feed_new ord d)) m ds tid = Some f \<Longrightarrow>
      (\<forall>tid f. m tid = Some f \<longrightarrow> feed_ok env tid f) \<Longrightarrow> feed_ok env tid f" for tid f m
    using assms
  proof (induction ds arbitrary: m)
    case (Cons d ds)
    then show ?case
      using Cons.IH [of "m(fd_thread d \<mapsto> feed_new ord d)"] by (simp add: feed_ok_new)
  qed simp
  then show ?thesis
    by (simp add: pulsar_ok_def pulsar_init_def pulsar_default_def feed_common_new_def)
qed

lemma mod_thread_ok:
  assumes "pulsar_ok env p"
    and "\<And>f. feed_ok env thread f \<Longrightarrow> uncached f \<Longrightarrow> feed_ok env thread (fst (handler f))"
  shows "pulsar_ok env (fst (mod_thread thread handler p))"
proof (cases "feeds p thread")
  case (Some f)
  have "feed_ok env thread (fst (handler (feed_clear_cache f)))"
    using assms Some by (simp add: feed_ok_clear pulsar_okD)
  with assms(1) Some show ?thesis
    by (simp add: mod_thread_def pulsar_ok_def common_clear_cache_def split_beta)
qed (simp add: mod_thread_def assms(1))

lemma encode_post_message_ok [simp]:
  "feed_ok env tid (fst (encode_post_message env post typ payload f)) = feed_ok env tid f"
  by (rule feed_ok_core) simp

fun request_real :: "pulsar_request \<Rightarrow> bool" where
  "request_real (ReqInsertThread d) \<longleftrightarrow> 1000 < tcn_time d"
| "request_real (ReqInsertPost d) \<longleftrightarrow> 1000 < pcn_time d"
| "request_real _ \<longleftrightarrow> True"

lemma pulsar_insert_thread_ok:
  assumes "pulsar_ok env p" "1000 < tcn_time d"
  shows "pulsar_ok env (fst (pulsar_insert_thread env d p))"
proof -
  let ?f = "feed_new (\<lambda>_. []) \<lparr>fd_thread = tcn_id d, recent_posts = Map.empty, open_posts = Map.empty\<rparr>"
  have "feed_ok env (tcn_id d) ?f" "uncached ?f"
    using feed_ok_new [of "\<lparr>fd_thread = tcn_id d, recent_posts = Map.empty, open_posts = Map.empty\<rparr>"
        env "\<lambda>_. []"]
    by (simp_all add: times_real_def uncached_def feed_new_def feed_common_new_def)
  then have "feed_ok env (tcn_id d) (feed_insert_post (tcn_id d) (tcn_time d) ?f)"
    using assms(2) by (simp add: feed_insert_post_ok)
  with assms(1) show ?thesis
    by (simp add: pulsar_insert_thread_def pulsar_ok_def common_clear_cache_def Let_def split_beta)
qed

lemma handle_request_ok:
  assumes "pulsar_ok env p" "request_real req" "handle_request env req p = Done (p', l)"
  shows "pulsar_ok env p'"
proof (cases req)
  case (ReqInsertThread d)
  with assms show ?thesis
    using pulsar_insert_thread_ok [of env p d] by (simp add: handle_request_def)
next
  case (ReqInsertPost d)
  have "pulsar_ok env (fst (pulsar_insert_post env d p))"
    using assms ReqInsertPost unfolding pulsar_insert_post_def
    by (intro mod_thread_ok) (simp_all add: feed_insert_post_ok)
  with ReqInsertPost assms(3) show ?thesis by (simp add: handle_request_def)
next
  case (ReqRemoveThread t)
  with assms show ?thesis by (simp add: handle_request_def pulsar_remove_thread_def)
next
  case (ReqInsertImage r)
  have "pulsar_ok env (fst (pulsar_insert_image env r p))"
    using assms unfolding pulsar_insert_image_def
    by (intro mod_thread_ok) (auto simp: Let_def feed_ok_open_posts split: option.splits)
  with ReqInsertImage assms(3) show ?thesis by (simp add: handle_request_def)
next
  case (ReqSetOpenBody post thread body)
  have "pulsar_ok env (fst (enqueue_open_body post thread body p))"
    using assms unfolding enqueue_open_body_def
    by (intro mod_thread_ok) (auto simp: feed_ok_defs uncached_def)
  with ReqSetOpenBody assms(3) show ?thesis by (simp add: handle_request_def)
qed

lemma handle_requests_ok:
  "pulsar_ok env p \<Longrightarrow> list_all request_real reqs \<Longrightarrow> handle_requests env reqs p = Done (p', l) \<Longrightarrow>
   pulsar_ok env p'"
proof (induction reqs arbitrary: p l)
  case (Cons r rs)
  then show ?case by (auto simp: run_bind_Done dest: handle_request_ok)
qed simp

lemma aggregate_loop_ok:
  "enumerates ord \<Longrightarrow> pulsar_ok env p \<Longrightarrow>
   aggregate_loop env ord build cbf fids (ms, p, sh, l) = Done (ms', p', sh', l') \<Longrightarrow>
   pulsar_ok env p' \<and> global p' = global p"
proof (induction fids arbitrary: ms p sh l)
  case (Cons fid fids)
  show ?case
  proof (cases "feeds p fid")
    case (Some f)
    with Cons.prems(3) obtain m f1 sh1 l1 where
      fm: "feed_messages env ord build cbf fid f sh = Done (m, f1, sh1, l1)"
      and rest: "aggregate_loop env ord build cbf fids
        (case m of None \<Rightarrow> ms | Some m \<Rightarrow> message_set_merge ms m,
         p\<lparr>feeds := (feeds p)(fid \<mapsto> f1)\<rparr>, sh1, l @ l1) = Done (ms', p', sh', l')"
      by (auto simp: run_bind_Done)
    have "feed_ok env fid f1"
      using feed_messages_ok [OF Cons.prems(1) pulsar_okD [OF Cons.prems(2) Some] fm] .
    with Cons.prems(2) have "pulsar_ok env (p\<lparr>feeds := (feeds p)(fid \<mapsto> f1)\<rparr>)"
      by (rule pulsar_ok_upd)
    from Cons.IH [OF Cons.prems(1) this rest] show ?thesis by simp
  qed (use Cons in simp)
qed simp

lemma drain_entries_ok:
  "pulsar_ok env p \<Longrightarrow> pulsar_ok env (fst (foldl drain_entry (p, nr) es))"
proof (induction es arbitrary: p nr)
  case (Cons e es)
  obtain p1 nr1 where d: "drain_entry (p, nr) e = (p1, nr1)"
    by fastforce
  have "feed_ok env tid (f\<lparr>common := (common f)\<lparr>fc_need_init := A\<rparr>\<rparr>) = feed_ok env tid f" for tid f A
    by (rule feed_ok_core) (simp add: same_core_def)
  with d Cons.prems have "pulsar_ok env p1"
    by (auto simp: drain_entry_def pulsar_ok_def split: prod.splits option.splits if_splits)
  with Cons.IH d show ?case by simp
qed simp

lemma drain_need_init_ok: "pulsar_ok env p \<Longrightarrow> pulsar_ok env (fst (drain_need_init ord p sm))"
  using drain_entries_ok [of env p "[]"] by (simp add: drain_need_init_def sm_drain_def split_beta)


lemma send_messages_ok:
  assumes "enumerates ord" "pulsar_ok env p"
    and "send_messages env ord reg p sh = Done (out, reg', p', sh', l)"
  shows "pulsar_ok env p'"
proof -
  obtain p1 ni where d: "drain_need_init ord p (need_init reg) = (p1, ni)"
    by fastforce
  have ok1: "pulsar_ok env p1"
    using drain_need_init_ok [OF assms(2), of ord "need_init reg"] d by simp
  define cbf where "cbf = by_thread reg"
  define build where "build \<longleftrightarrow> fc_need_init (global p1) \<noteq> {} \<and> init_msg_cache (global p1) = None"
  obtain ms p2 sh2 l2 where a: "aggregate_feed_messages env ord build cbf p1 sh = Done (ms, p2, sh2, l2)"
    using assms(3)
    by (auto simp: send_messages_def snapshot_threads_def d cbf_def build_def run_bind_Done)
  have ok2: "pulsar_ok env p2"
    using aggregate_loop_ok [OF assms(1) ok1 a [unfolded aggregate_feed_messages_def]] by simp
  have "feeds p' = feeds p2 \<and> init_msg_cache (global p') = init_msg_cache (global p2)"
    using assms(3) a
    by (auto simp: send_messages_def snapshot_threads_def d cbf_def build_def Let_def
        assign_global_feed_messages_def merge_server_wide_messages_def
        split: if_splits option.splits sum.splits)
  with ok2 show ?thesis by (simp add: pulsar_ok_def)
qed

section \<open>Expiry of recent posts\<close>

lemma clean_up_threshold_bound:
  assumes "t0 \<le> t1" "t1 < t0 + 100 * 10 ^ 9"
  shows "clean_up_threshold t0 t1 < 1000"
proof -
  define s where "s = (t1 - (t0 - 900 * 10 ^ 9)) div 10 ^ 9"
  have "0 \<le> s" "s < 1000"
    using assms by (simp_all add: s_def)
  then have "word_of_int s < (1000 :: u32)"
    by (simp add: word_less_def uint_word_of_int)
  with assms show ?thesis
    by (simp add: clean_up_threshold_def Let_def s_def)
qed

lemma retain_recent_all:
  assumes "times_real (data f)" "threshold < 1000"
  shows "retain_recent threshold f = f"
proof -
  have "threshold < c" if "recent_posts (data f) pid = Some c" for pid c
    using assms that less_trans unfolding times_real_def by blast
  then have "(\<lambda>pid. case recent_posts (data f) pid of
             Some created \<Rightarrow> if created > threshold then Some created else None
           | None \<Rightarrow> None) = recent_posts (data f)"
    by (intro ext) (simp split: option.splits)
  then show ?thesis by (simp add: retain_recent_def)
qed

lemma clean_up_real:
  assumes "pulsar_ok env p" "t0 \<le> t1" "t1 < t0 + 100 * 10 ^ 9"
  shows "clean_up t0 t1 p = p"
proof -
  have "map_option (retain_recent (clean_up_threshold t0 t1)) (feeds p tid) = feeds p tid" for tid
    using assms(1) clean_up_threshold_bound [OF assms(2,3)]
    by (cases "feeds p tid") (auto simp: pulsar_ok_def feed_ok_def retain_recent_all)
  then show ?thesis by (simp add: clean_up_def)
qed

section \<open>Reachable states\<close>

text \<open>
  What the main loop can reach from the feeds it was initialised with, when creation times and
  clock readings are real. The dispatcher does not look at the clients behind the registry.
\<close>

inductive pulsar_reachable :: "pulsar_env \<Rightarrow> u64 iter_order \<Rightarrow> pulsar \<Rightarrow> bool"
  for env :: pulsar_env and ord :: "u64 iter_order" where
  start: "\<forall>d \<in> set ds. times_real d \<Longrightarrow> pulsar_reachable env ord (pulsar_init ord ds pulsar_default)"
| round: "pulsar_reachable env ord p \<Longrightarrow> list_all request_real reqs \<Longrightarrow>
    t0 \<le> t1 \<Longrightarrow> t1 < t0 + 100 * 10 ^ 9 \<Longrightarrow>
    pulsar_round env ord started (t0, t1) reqs k (reg :: unit registry) p sh =
      Done (k', out, reg', p', sh', l) \<Longrightarrow>
    pulsar_reachable env ord p'"

lemma pulsar_round_ok:
  assumes "enumerates ord" "pulsar_ok env p" "list_all request_real reqs"
    and "t0 \<le> t1" "t1 < t0 + 100 * 10 ^ 9"
    and "pulsar_round env ord started (t0, t1) reqs k reg p sh = Done (k', out, reg', p', sh', l)"
  shows "pulsar_ok env p'"
proof -
  obtain p1 l1 where r: "handle_requests env reqs p = Done (p1, l1)"
    using assms(6) by (auto simp: pulsar_round_def run_bind_Done)
  obtain snd cln k1 where c: "loop_clock started k = (snd, cln, k1)"
    by (rule prod_cases3)
  have ok1: "pulsar_ok env p1"
    using handle_requests_ok [OF assms(2,3) r] .
  obtain out2 reg2 p2 sh2 l2 where s:
    "(if snd then send_messages env ord reg p1 sh else Done (Map.empty, reg, p1, sh, [])) =
       Done (out2, reg2, p2, sh2, l2)"
    and p': "p' = (if cln then clean_up t0 t1 p2 else p2)"
    using assms(6) by (auto simp: pulsar_round_def run_bind_Done r c)
  have "pulsar_ok env p2"
    using s ok1 send_messages_ok [OF assms(1) ok1] by (auto split: if_splits)
  with p' show ?thesis
    using clean_up_real [OF _ assms(4,5)] by simp
qed

lemma pulsar_reachable_ok:
  "pulsar_reachable env ord p \<Longrightarrow> enumerates ord \<Longrightarrow> pulsar_ok env p"
proof (induction rule: pulsar_reachable.induct)
  case (start ds)
  then show ?case by (simp add: pulsar_ok_init)
next
  case (round p reqs t0 t1 started k reg sh k' out reg' p' sh' l)
  then show ?case using pulsar_round_ok by blast
qed

text \<open>
  C24: initialisation messages are never stale. In every state the main loop reaches, the message
  a newly synchronised client of a feed is sent, cached or not, is the encoding of the feed's
  present data, and the feed's part of the global one is the encoding of its present index data.
\<close>

theorem init_messages_current:
  assumes "enumerates ord" "pulsar_reachable env ord p" "feeds p tid = Some f"
  shows "fst (get_init_msg env f) = encode_init env (data f) \<and>
         fst (get_global_init_msg_part env f) = encode_init env (global_part_data f)"
  using pulsar_okD [OF pulsar_reachable_ok [OF assms(2,1)] assms(3)]
  by (auto simp: feed_ok_defs get_init_msg_def get_global_init_msg_part_def
      split: option.splits sum.splits)

text \<open>
  C25: feeds are well formed. In every state the main loop reaches, a feed is stored under its own
  thread, with the same number in its data, and its heap of recent posts never outgrows its five
  places: every unchecked push finds room.
\<close>

theorem feeds_well_formed:
  assumes "enumerates ord" "pulsar_reachable env ord p" "feeds p tid = Some f"
  shows "fc_id (common f) = tid \<and> fd_thread (data f) = tid \<and> length (last_5_posts f) \<le> 5 \<and>
         length (last_5_posts (feed_insert_post pid time f)) \<le> 5"
  using pulsar_okD [OF pulsar_reachable_ok [OF assms(2,1)] assms(3)]
  by (auto simp: feed_ok_defs feed_insert_post_def Let_def heap_push_def heap_pop_def)

text \<open>
  The clean-up removes nothing. Its threshold is the time passed since fifteen minutes ago,
  about 900 seconds, and not the moment fifteen minutes ago, so with creation times in seconds
  since 1970 no recent post ever expires, whatever its age.
\<close>

theorem clean_up_expires_nothing:
  assumes "enumerates ord" "pulsar_reachable env ord p" "t0 \<le> t1" "t1 < t0 + 100 * 10 ^ 9"
  shows "clean_up t0 t1 p = p"
  using clean_up_real [OF pulsar_reachable_ok [OF assms(2,1)] assms(3,4)] .


section \<open>Bodies of open posts\<close>

lemma encode_post_message_data [simp]:
  "data (fst (encode_post_message env post t payload f)) = data f"
  "last_5_posts (fst (encode_post_message env post t payload f)) = last_5_posts f"
  "pending_open_bodies (fst (encode_post_message env post t payload f)) = pending_open_bodies f"
  using encode_post_message_core [of env post t payload f] by (simp_all add: same_core_def)

lemma apply_bodies_posts:
  "distinct (map fst ps) \<Longrightarrow>
   open_posts (data (fst (foldl (apply_body env) (f, ob, l) ps))) pid =
     (case map_of ps pid of
        None \<Rightarrow> open_posts (data f) pid
      | Some pn \<Rightarrow> map_option (\<lambda>op. op\<lparr>op_body := snd pn\<rparr>) (open_posts (data f) pid)) \<and>
   pending_open_bodies (fst (foldl (apply_body env) (f, ob, l) ps)) = pending_open_bodies f"
proof (induction ps arbitrary: f ob l)
  case (Cons e ps)
  obtain i patch new where e: "e = (i, patch, new)"
    by (rule prod_cases3)
  obtain f' ob' l' where s: "apply_body env (f, ob, l) e = (f', ob', l')"
    by (rule prod_cases3)
  then have f': "f' = fst (encode_post_message env i PatchPostBody (PatchPayload patch)
      (f\<lparr>data := (data f)\<lparr>open_posts := (open_posts (data f))
         (i := map_option (\<lambda>op. op\<lparr>op_body := new\<rparr>) (open_posts (data f) i))\<rparr>\<rparr>))"
    by (auto simp: e apply_body_def Let_def split: prod.splits)
  have "map_of ps i = None"
    using Cons.prems e by (simp add: map_of_eq_None_iff)
  moreover have "data f' = (data f)\<lparr>open_posts := (open_posts (data f))
       (i := map_option (\<lambda>op. op\<lparr>op_body := new\<rparr>) (open_posts (data f) i))\<rparr>"
    "pending_open_bodies f' = pending_open_bodies f"
    by (simp_all add: f')
  ultimately show ?case
    using Cons.IH [of f' ob' l'] Cons.prems s
    by (cases "map_of ps pid"; cases "pid = i") (simp_all add: e)
qed simp

text \<open>The diffs found for the pending bodies, whatever the location cache has learnt meanwhile.\<close>

lemma diff_one_Done:
  assumes "same_answers (pe_parse env) False lc0 lc" "fst (diff_one env f e lc) = Done (ps, l)"
  shows "(case open_posts (data f) (fst e) of
            None \<Rightarrow> ps = []
          | Some op \<Rightarrow>
              (case fst (parse (pe_parse env) (snd e) True lc0) of
                 Inl _ \<Rightarrow> ps = []
               | Inr new \<Rightarrow> ps = [] \<and> new = op_body op \<or> (\<exists>patch. ps = [(fst e, patch, new)])))"
proof (cases "open_posts (data f) (fst e)")
  case (Some op)
  obtain r lc' where p: "parse (pe_parse env) (snd e) True lc = (r, lc')"
    by fastforce
  have "fst (parse (pe_parse env) (snd e) True lc0) = r"
    using steady_fst [OF steady_parse [of "pe_parse env" True "snd e"]] assms(1) p by fastforce
  then show ?thesis
    using assms(2) Some p diff_None_iff [of "op_body op"]
    by (auto simp: diff_one_def map_run_Done_iff split: sum.splits option.splits parse_error.splits)
qed (use assms in \<open>simp add: diff_one_def\<close>)

lemma diff_one_answers:
  "same_answers (pe_parse env) False (snd (diff_one env f e lc)) lc"
proof -
  have "same_answers (pe_parse env) False (snd (parse (pe_parse env) (snd e) True lc)) lc"
    using steady_snd [OF steady_parse [of "pe_parse env" True "snd e"]] by simp
  then show ?thesis
    by (auto simp: diff_one_def split: option.splits prod.splits sum.splits parse_error.splits)
qed

lemma diff_collect_Done:
  assumes "same_answers (pe_parse env) False lc0 lc" "fst (diff_collect env f es lc) = Done (ps, l)"
    and "distinct (map fst es)"
  shows "distinct (map fst ps) \<and> fst ` set ps \<subseteq> fst ` set es \<and>
     (\<forall>op. open_posts (data f) pid = Some op \<longrightarrow>
       (case map_of ps pid of
          Some pn \<Rightarrow> \<exists>s. map_of es pid = Some s \<and> fst (parse (pe_parse env) s True lc0) = Inr (snd pn)
        | None \<Rightarrow> (\<forall>s new. map_of es pid = Some s \<longrightarrow>
            fst (parse (pe_parse env) s True lc0) = Inr new \<longrightarrow> new = op_body op)))"
  using assms
proof (induction es arbitrary: lc ps l)
  case (Cons e es)
  obtain r1 lc1 where o: "diff_one env f e lc = (r1, lc1)" by fastforce
  obtain r2 lc2 where c: "diff_collect env f es lc1 = (r2, lc2)" by fastforce
  from Cons.prems(2) o c obtain ps1 l1 ps2 l2 where
    r: "r1 = Done (ps1, l1)" "r2 = Done (ps2, l2)" "ps = ps1 @ ps2"
    by (auto simp: run_bind_Done)
  have lc1: "same_answers (pe_parse env) False lc0 lc1"
    using diff_one_answers [of env f e lc] o same_answers_trans [OF Cons.prems(1) same_answers_sym]
    by simp
  note IH = Cons.IH [OF lc1, of ps2 l2]
  have IH': "distinct (map fst ps2) \<and> fst ` set ps2 \<subseteq> fst ` set es \<and>
     (\<forall>op. open_posts (data f) pid = Some op \<longrightarrow>
       (case map_of ps2 pid of
          Some pn \<Rightarrow> \<exists>s. map_of es pid = Some s \<and> fst (parse (pe_parse env) s True lc0) = Inr (snd pn)
        | None \<Rightarrow> (\<forall>s new. map_of es pid = Some s \<longrightarrow>
            fst (parse (pe_parse env) s True lc0) = Inr new \<longrightarrow> new = op_body op)))"
    using IH c r Cons.prems(3) by simp
  have one: "(case open_posts (data f) (fst e) of
            None \<Rightarrow> ps1 = []
          | Some op \<Rightarrow>
              (case fst (parse (pe_parse env) (snd e) True lc0) of
                 Inl _ \<Rightarrow> ps1 = []
               | Inr new \<Rightarrow> ps1 = [] \<and> new = op_body op \<or> (\<exists>patch. ps1 = [(fst e, patch, new)])))"
    using diff_one_Done [OF Cons.prems(1)] o r by simp
  then have ps1: "ps1 = [] \<or> (\<exists>pn. ps1 = [(fst e, pn)])"
    by (auto split: option.splits sum.splits)
  have ne: "fst e \<notin> fst ` set es" using Cons.prems(3) by simp
  then have ne2: "fst e \<notin> fst ` set ps2" using IH' by auto
  show ?case
  proof (cases "pid = fst e")
    case True
    have "map_of ps2 pid = None"
      using ne2 True by (simp add: map_of_eq_None_iff)
    then show ?thesis
      using one IH' ne2 ps1 True r(3) by (cases e) (auto split: option.splits sum.splits)
  next
    case False
    then have "map_of ps pid = map_of ps2 pid" "map_of (e # es) pid = map_of es pid"
      using ps1 r(3) by (cases e; auto)+
    moreover have "distinct (map fst ps)" "fst ` set ps \<subseteq> fst ` set (e # es)"
      using conjunct1 [OF IH'] conjunct1 [OF conjunct2 [OF IH']] ne2 ps1 r(3)
      by (elim disjE exE; simp add: le_supI2 subset_insertI2)+
    ultimately show ?thesis
      using conjunct2 [OF conjunct2 [OF IH']] by (simp only: simp_thms)
  qed
qed simp




section \<open>Posts\<close>

text \<open>
  A new post is open, indexed and announced. Inserting a post into an existing thread adds it
  to the recent and to the open posts with an empty body, drops the cached messages, makes it the
  last of the up to five posts of the index, and writes the notice to the encoder of the thread
  and to the one of the global feed; no other feed changes.
\<close>

theorem insert_post_announced:
  assumes "feeds p (pcn_thread d) = Some f" "sorted (last_5_posts f)" "length (last_5_posts f) \<le> 5"
    and "\<forall>x \<in> set (last_5_posts f). x < pcn_id d"
  shows "\<exists>f'. feeds (fst (pulsar_insert_post env d p)) = (feeds p)(pcn_thread d \<mapsto> f') \<and>
    recent_posts (data f') = (recent_posts (data f))(pcn_id d \<mapsto> pcn_time d) \<and>
    open_posts (data f') =
      (open_posts (data f))(pcn_id d \<mapsto> open_post_new (fc_id (common f)) (pcn_time d)) \<and>
    uncached f' \<and> last_5_posts f' = drop (length (last_5_posts f) - 4) (last_5_posts f) @ [pcn_id d] \<and>
    fc_pending (common f') =
      Some (fst (write_message (pe_ser env) (get_encoder (fc_pending (common f))) InsertPost (PostPayload d))) \<and>
    pending_global f' =
      Some (fst (write_message (pe_ser env) (get_encoder (pending_global f)) InsertPost (PostPayload d)))"
proof -
  let ?f1 = "feed_insert_post (pcn_id d) (pcn_time d) (feed_clear_cache f)"
  let ?l = "if length (last_5_posts f) = 5 then tl (last_5_posts f) else last_5_posts f"
  have l: "?l = drop (length (last_5_posts f) - 4) (last_5_posts f)"
    using assms(3) by (cases "length (last_5_posts f) = 5") (auto simp: drop_Suc)
  have "sorted ?l" "\<forall>x \<in> set ?l. x \<le> pcn_id d"
    using assms(2,4) by (auto simp: sorted_tl less_imp_le dest: list.set_sel(2) [rotated])
  then have "insort (pcn_id d) ?l = ?l @ [pcn_id d]"
    by (rule sorted_insort_is_snoc)
  moreover have "last_5_posts ?f1 = insort (pcn_id d) ?l"
    by (simp add: feed_insert_post_def feed_clear_cache_def Let_def heap_push_def heap_pop_def)
  ultimately have l5: "last_5_posts ?f1 = drop (length (last_5_posts f) - 4) (last_5_posts f) @ [pcn_id d]"
    using l by simp
  then have g: "include_in_global (?f1\<lparr>common := c\<rparr>) (pcn_id d)" for c
    by (simp add: include_in_global_def)
  have frame: "data ?f1 = (data f)\<lparr>recent_posts := (recent_posts (data f))(pcn_id d \<mapsto> pcn_time d),
      open_posts := (open_posts (data f))(pcn_id d \<mapsto> open_post_new (fc_id (common f)) (pcn_time d))\<rparr>"
    "fc_pending (common ?f1) = fc_pending (common f)" "pending_global ?f1 = pending_global f" "uncached ?f1"
    by (simp_all add: feed_insert_post_def feed_clear_cache_def common_clear_cache_def uncached_def Let_def)
  let ?f' = "fst (encode_post_message env (pcn_id d) InsertPost (PostPayload d) ?f1)"
  have "feeds (fst (pulsar_insert_post env d p)) = (feeds p)(pcn_thread d \<mapsto> ?f')"
    using assms(1) by (simp add: pulsar_insert_post_def mod_thread_def split_beta)
  moreover have "uncached ?f'"
    using frame(4) uncached_core [OF encode_post_message_core] by blast
  moreover have "fc_pending (common ?f') =
        Some (fst (write_message (pe_ser env) (get_encoder (fc_pending (common f))) InsertPost (PostPayload d)))"
      "pending_global ?f' =
        Some (fst (write_message (pe_ser env) (get_encoder (pending_global f)) InsertPost (PostPayload d)))"
    using g frame(2,3)
    by (simp_all add: encode_post_message_def encode_pending_def Let_def split_beta)
  ultimately show ?thesis
    using l5 frame(1) by (intro exI [of _ ?f']) simp
qed

section \<open>Delivery\<close>

text \<open>All messages of a pulse are keyed by clients on feeds.\<close>

definition feed_clients :: "(u64, u64) set_map \<Rightarrow> u64 set" where
  "feed_clients cbf = {c. \<exists>t cs. sm_get cbf t = Some cs \<and> c \<in> cs}"

lemma take_thread_messages_dom:
  "take_thread_messages env on_feed f = (Inr tm, f') \<Longrightarrow>
   dom tm \<subseteq> (case on_feed of None \<Rightarrow> {} | Some cs \<Rightarrow> cs)"
  by (auto simp: take_thread_messages_def Let_def split: option.splits prod.splits sum.splits if_splits)

lemma feed_messages_dom:
  assumes "feed_messages env ord build cbf fid f sh = Done (Some m, f', sh', l)"
  shows "dom (thread_messages m) \<subseteq> feed_clients cbf"
proof -
  have n: "(\<not> build \<and> fc_need_init (common f) = {} \<and> sm_get cbf fid = None) = False"
    using assms unfolding feed_messages_def
    by (cases "\<not> build \<and> fc_need_init (common f) = {} \<and> sm_get cbf fid = None")
      (simp_all only: if_True run.inject prod.inject option.distinct simp_thms)
  obtain f1 sh1 l1 where d: "diff_open_bodies env ord f sh = Done (f1, sh1, l1)"
    using assms unfolding feed_messages_def n by (auto simp: run_bind_Done)
  obtain r f2 where t: "take_thread_messages env (sm_get cbf fid) f1 = (r, f2)"
    by fastforce
  obtain tm where "r = Inr tm" "thread_messages m = tm"
    using assms unfolding feed_messages_def n d
    by (cases r) (auto simp: t Let_def split: sum.splits prod.splits)
  with take_thread_messages_dom [of env _ f1 tm f2] t show ?thesis
    by (fastforce simp: feed_clients_def split: option.splits)
qed

lemma aggregate_loop_dom:
  "aggregate_loop env ord build cbf fids (ms, p, sh, l) = Done (ms', p', sh', l') \<Longrightarrow>
   dom (thread_messages ms') \<subseteq> dom (thread_messages ms) \<union> feed_clients cbf \<and> global p' = global p"
proof (induction fids arbitrary: ms p sh l)
  case (Cons fid fids)
  show ?case
  proof (cases "feeds p fid")
    case (Some f)
    with Cons.prems obtain m f1 sh1 l1 where
      fm: "feed_messages env ord build cbf fid f sh = Done (m, f1, sh1, l1)"
      and rest: "aggregate_loop env ord build cbf fids
        (case m of None \<Rightarrow> ms | Some m \<Rightarrow> message_set_merge ms m,
         p\<lparr>feeds := (feeds p)(fid \<mapsto> f1)\<rparr>, sh1, l @ l1) = Done (ms', p', sh', l')"
      by (auto simp: run_bind_Done)
    have "dom (thread_messages (case m of None \<Rightarrow> ms | Some m \<Rightarrow> message_set_merge ms m)) \<subseteq>
        dom (thread_messages ms) \<union> feed_clients cbf"
      using feed_messages_dom [of env ord build cbf fid f sh _ f1 sh1 l1] fm
      by (auto simp: message_set_merge_def split: option.splits)
    with Cons.IH [OF rest] show ?thesis by (simp del: Un_subset_iff) blast
  qed (use Cons in simp)
qed simp

lemma drain_need_init_pending [simp]:
  "fc_pending (global (fst (drain_need_init ord p sm))) = fc_pending (global p)"
proof -
  have "fc_pending (global (fst (foldl drain_entry (p, nr) es))) = fc_pending (global p)" for nr es
  proof (induction es arbitrary: p nr)
    case (Cons e es)
    obtain p1 nr1 where d: "drain_entry (p, nr) e = (p1, nr1)" by fastforce
    then have "fc_pending (global p1) = fc_pending (global p)"
      by (auto simp: drain_entry_def split: prod.splits option.splits if_splits)
    with Cons.IH d show ?case by simp
  qed simp
  then show ?thesis by (simp add: drain_need_init_def sm_drain_def split_beta)
qed

text \<open>The stages of a pulse that has something to deliver.\<close>

lemma send_messages_Done:
  assumes "send_messages env ord reg p sh = Done (out, reg', p', sh', l)"
  shows "out = Map.empty \<and> fc_pending (global p) = None \<or>
    (\<exists>(ms :: message_set) p2 mbc p3.
       dom (thread_messages ms) \<subseteq> feed_clients (by_thread reg) \<and>
       fc_pending (global p2) = fc_pending (global p) \<and>
       assign_global_feed_messages (global_init_parts ms) (global_feed_messages ms)
         (sm_get (by_thread reg) 0)
         (assign_thread_messages ord (by_thread reg) (thread_messages ms)) p2 = (mbc, p3) \<and>
       (\<exists>l2. merge_server_wide_messages env (dom (clients reg)) mbc p3 = (out, p', l2)))"
proof -
  obtain p1 ni where d: "drain_need_init ord p (need_init reg) = (p1, ni)"
    by fastforce
  define build where "build \<longleftrightarrow> fc_need_init (global p1) \<noteq> {} \<and> init_msg_cache (global p1) = None"
  obtain ms p2 sh2 l2 where
    a: "aggregate_feed_messages env ord build (by_thread reg) p1 sh = Done (ms, p2, sh2, l2)"
    using assms by (auto simp: send_messages_def snapshot_threads_def d build_def run_bind_Done)
  have ms: "dom (thread_messages ms) \<subseteq> feed_clients (by_thread reg)" "global p2 = global p1"
    using aggregate_loop_dom [OF a [unfolded aggregate_feed_messages_def]]
    by (simp_all add: message_set_default_def)
  have pend: "fc_pending (global p2) = fc_pending (global p)"
    using drain_need_init_pending [of ord p "need_init reg"] d ms(2) by simp
  obtain mbc p3 where g: "assign_global_feed_messages (global_init_parts ms) (global_feed_messages ms)
         (sm_get (by_thread reg) 0)
         (assign_thread_messages ord (by_thread reg) (thread_messages ms)) p2 = (mbc, p3)"
    by fastforce
  show ?thesis
  proof (cases "message_set_is_empty ms \<and> fc_pending (global p2) = None")
    case True
    with assms a pend show ?thesis
      by (simp add: send_messages_def snapshot_threads_def d build_def)
  next
    case False
    with assms a g have "\<exists>l2. merge_server_wide_messages env (dom (clients reg)) mbc p3 = (out, p', l2)"
      by (auto simp: send_messages_def snapshot_threads_def d build_def Let_def split: prod.splits)
    with ms(1) pend g show ?thesis by blast
  qed
qed



lemma assign_thread_messages_none:
  assumes "enumerates ord" "finite (dom tm)" "\<forall>k \<in> dom tm. sm_get cbf k = None"
  shows "assign_thread_messages ord cbf tm = Map.empty"
proof -
  have "foldl (\<lambda>mbc thread. case sm_get cbf thread of
          Some cls \<Rightarrow> (\<lambda>c. if c \<in> cls then tm thread else mbc c) | None \<Rightarrow> mbc) mbc ks = mbc"
    if "set ks \<subseteq> dom tm" for ks and mbc :: "u64 \<rightharpoonup> msg"
    using that assms(3) by (induction ks) auto
  then show ?thesis
    using enumerates_set [OF assms(1,2)] by (simp add: assign_thread_messages_def)
qed

text \<open>
  C28: thread updates are not delivered. The messages of the thread feeds are collected by client
  but distributed as if they were collected by thread. As long as no client has the number of a
  thread with clients, a pulse sends a client on a thread nothing of it, neither the
  initialisation message nor an update: only notices for the whole server reach it.
\<close>

theorem thread_updates_not_delivered:
  assumes "enumerates ord" "reg_inv reg"
    and "send_messages env ord reg p sh = Done (out, reg', p', sh', l)"
    and "\<forall>k \<in> dom (clients reg). sm_get (by_thread reg) k = None"
    and "clients reg c = Some desc" "desc_thread desc = Some t" "t \<noteq> 0"
    and "fc_pending (global p) = None"
  shows "out c = None"
proof -
  have wf: "sm_wf (by_thread reg)" and rel: "sm_rel (by_thread reg) = thread_pairs reg"
    and fin: "finite (dom (clients reg))"
    using assms(2) by (simp_all add: reg_inv_def)
  have fc: "feed_clients (by_thread reg) \<subseteq> dom (clients reg)"
    using sm.get_Some_iff [OF wf] rel by (force simp: feed_clients_def thread_pairs_def)
  have nog: "c \<notin> cs" if "sm_get (by_thread reg) 0 = Some cs" for cs
    using sm.get_Some_iff [OF wf, of 0 c] rel assms(5-7) that by (auto simp: thread_pairs_def)
  from send_messages_Done [OF assms(3)] show ?thesis
  proof (elim disjE exE conjE)
    fix ms :: message_set and p2 mbc p3 l2
    assume ms: "dom (thread_messages ms) \<subseteq> feed_clients (by_thread reg)"
      and pend: "fc_pending (global p2) = fc_pending (global p)"
      and g: "assign_global_feed_messages (global_init_parts ms) (global_feed_messages ms)
         (sm_get (by_thread reg) 0)
         (assign_thread_messages ord (by_thread reg) (thread_messages ms)) p2 = (mbc, p3)"
      and m: "merge_server_wide_messages env (dom (clients reg)) mbc p3 = (out, p', l2)"
    have sub: "dom (thread_messages ms) \<subseteq> dom (clients reg)"
      using ms fc by (rule subset_trans)
    have "finite (dom (thread_messages ms))"
      using sub fin by (rule finite_subset)
    moreover have "\<forall>k \<in> dom (thread_messages ms). sm_get (by_thread reg) k = None"
      using sub assms(4) by (meson subsetD)
    ultimately have none: "assign_thread_messages ord (by_thread reg) (thread_messages ms) = Map.empty"
      by (rule assign_thread_messages_none [OF assms(1)])
    have "mbc c = None" "fc_pending (global p3) = None"
      using g [unfolded none] nog pend assms(8)
      by (auto simp: assign_global_feed_messages_def Let_def split: option.splits if_splits)
    with m show ?thesis by (simp add: merge_server_wide_messages_def)
  qed simp
qed


section \<open>After a restart, and the clock\<close>

text \<open>
  Of the recent posts a feed is initialised with only the newest enters the heap: a smaller
  minimum is popped before each push, also when there is room.
\<close>

lemma last_5_step_single:
  "foldl last_5_step [m] ids = [foldl max m ids]"
  by (induction ids arbitrary: m) (auto simp: last_5_step_def heap_push_def heap_pop_def max_def)

lemma foldl_max: "foldl max m ids = Max (insert m (set (ids :: u64 list)))"
proof (induction ids arbitrary: m)
  case (Cons i ids)
  then show ?case by (cases "ids = []") (simp_all add: max.assoc)
qed simp

theorem restored_feed_forgets_posts:
  assumes "enumerates ord" "finite (dom (recent_posts d))" "dom (recent_posts d) \<noteq> {}"
  shows "last_5_posts (feed_new ord d) = [Max (dom (recent_posts d))]"
proof -
  obtain i ids where o: "ord (dom (recent_posts d)) = i # ids"
    using enumerates_set [OF assms(1,2)] assms(3) by (cases "ord (dom (recent_posts d))") auto
  have "foldl max i ids = Max (insert i (set ids))"
    by (rule foldl_max)
  then show ?thesis
    using o enumerates_set [OF assms(1,2)]
    by (simp add: feed_new_def last_5_step_def heap_push_def last_5_step_single)
qed

text \<open>
  The loop resets its timers to the moment the thread started, so from 100 milliseconds after the
  start on every round sends a pulse.
\<close>

theorem pulse_interval_not_reset:
  "loop_clock started (clock_start t) = (started > t + 100, started > t + 60000, clock_start t)"
  by (auto simp: loop_clock_def clock_start_def Let_def)


section \<open>Pulses without pending bodies return\<close>

lemma feed_messages_idle:
  assumes "enumerates ord" "pending_open_bodies f = Map.empty"
  shows "\<exists>m f' sh' l. feed_messages env ord build cbf fid f sh = Done (m, f', sh', l) \<and>
    pending_open_bodies f' = Map.empty"
proof -
  have d: "diff_open_bodies env ord f sh = Done (f, \<lparr>sh_locations = sh_locations sh, sh_bodies = sh_bodies sh\<rparr>, [])"
    using assms by (simp add: diff_open_bodies_def Let_def)
  have i: "pending_open_bodies (snd (get_init_msg env f)) = pending_open_bodies f"
    "pending_open_bodies (snd (get_global_init_msg_part env f)) = pending_open_bodies f" for f
    by (auto simp: get_init_msg_def get_global_init_msg_part_def split: option.splits sum.splits)
  have t: "pending_open_bodies (snd (take_thread_messages env cs f)) = Map.empty" for cs
    using assms(2) i(1) [of "f\<lparr>common := (common f)\<lparr>fc_pending := None\<rparr>\<rparr>"]
    by (auto simp: take_thread_messages_def Let_def split: option.splits prod.splits sum.splits)
  obtain r f2 where r: "take_thread_messages env (sm_get cbf fid) f = (r, f2)" by fastforce
  let ?f3 = "f2\<lparr>common := (common f2)\<lparr>fc_need_init := {}\<rparr>\<rparr>"
  obtain r4 f4 where g: "(if build then get_global_init_msg_part env ?f3 else (Inr [], ?f3)) = (r4, f4)"
    by fastforce
  have e: "pending_open_bodies f2 = Map.empty" "pending_open_bodies f4 = Map.empty"
    using t [of "sm_get cbf fid"] r g i(2) [of ?f3] by (auto split: if_splits)
  show ?thesis
    using assms(2) e
    by (cases r; cases r4) (auto simp: feed_messages_def d r g Let_def split: sum.splits)
qed

lemma aggregate_loop_idle:
  assumes "enumerates ord" "\<forall>tid f. feeds p tid = Some f \<longrightarrow> pending_open_bodies f = Map.empty"
  shows "\<exists>r. aggregate_loop env ord build cbf fids (ms, p, sh, l) = Done r"
  using assms(2)
proof (induction fids arbitrary: ms p sh l)
  case (Cons fid fids)
  show ?case
  proof (cases "feeds p fid")
    case (Some f)
    then obtain m f' sh' l' where m: "feed_messages env ord build cbf fid f sh = Done (m, f', sh', l')"
        "pending_open_bodies f' = Map.empty"
      using feed_messages_idle [OF assms(1), of f env build cbf fid sh] Cons.prems by fast
    with Some Cons.IH [of "p\<lparr>feeds := (feeds p)(fid \<mapsto> f')\<rparr>"] Cons.prems show ?thesis by simp
  qed (use Cons in simp)
qed simp

lemma send_messages_idle:
  assumes "enumerates ord" "\<forall>tid f. feeds p tid = Some f \<longrightarrow> pending_open_bodies f = Map.empty"
  shows "\<exists>out reg' p' sh' l. send_messages env ord reg p sh = Done (out, reg', p', sh', l)"
proof -
  have k: "(\<forall>tid f. feeds (fst (foldl drain_entry (p, nr) es)) tid = Some f \<longrightarrow>
      pending_open_bodies f = Map.empty)" for nr es
    using assms(2)
  proof (induction es arbitrary: p nr)
    case (Cons e es)
    obtain p1 nr1 where d: "drain_entry (p, nr) e = (p1, nr1)" by fastforce
    then have "\<forall>tid f. feeds p1 tid = Some f \<longrightarrow> pending_open_bodies f = Map.empty"
      using Cons.prems by (auto simp: drain_entry_def split: prod.splits option.splits if_splits)
    from Cons.IH [OF this, of nr1] d show ?case by simp
  qed simp
  obtain p1 ni where d: "drain_need_init ord p (need_init reg) = (p1, ni)" by fastforce
  have "\<forall>tid f. feeds p1 tid = Some f \<longrightarrow> pending_open_bodies f = Map.empty"
    using k [of "[]" "map (\<lambda>k. (k, the (need_init reg k))) (ord (dom (need_init reg)))"] d
    by (auto simp: drain_need_init_def sm_drain_def split: prod.splits)
  then obtain ms p2 sh2 l2 where "aggregate_feed_messages env ord
      (fc_need_init (global p1) \<noteq> {} \<and> init_msg_cache (global p1) = None) (by_thread reg) p1 sh =
      Done (ms, p2, sh2, l2)"
    using aggregate_loop_idle [OF assms(1)] unfolding aggregate_feed_messages_def by (metis prod_cases4)
  then show ?thesis
    by (simp add: send_messages_def snapshot_threads_def d Let_def split_beta)
qed

section \<open>A small server\<close>

definition demo_pulsar_env :: pulsar_env where
  "demo_pulsar_env =
     \<lparr>pe_parse = bare_env, pe_deflate = store_deflate, pe_ser = \<lambda>x. ([[1]], None)\<rparr>"

definition demo_feed_data :: feed_data where
  "demo_feed_data =
     \<lparr>fd_thread = 1, recent_posts = [1 \<mapsto> 2000, 5 \<mapsto> 2001], open_posts = [5 \<mapsto> open_post_new 1 2001]\<rparr>"

definition demo_start :: pulsar where
  "demo_start = pulsar_init sorted_list_of_set [demo_feed_data] pulsar_default"

definition demo_notice :: post_creation_notice where
  "demo_notice = \<lparr>pcn_id = 7, pcn_thread = 1, pcn_time = 2005, pcn_page = 0\<rparr>"

definition demo_pulsar :: pulsar where
  "demo_pulsar = fst (pulsar_insert_post demo_pulsar_env demo_notice demo_start)"

definition demo_shared :: shared where
  "demo_shared = \<lparr>sh_locations = Map.empty, sh_bodies = Map.empty\<rparr>"

definition demo_registry :: "unit registry" where
  "demo_registry = set_client_thread 10 1 (add_client 10 () registry_default)"

lemma demo_times: "times_real demo_feed_data"
  by (simp add: times_real_def demo_feed_data_def)

lemma demo_reachable: "pulsar_reachable demo_pulsar_env sorted_list_of_set demo_pulsar"
proof (rule pulsar_reachable.round)
  show "pulsar_reachable demo_pulsar_env sorted_list_of_set demo_start"
    unfolding demo_start_def by (rule pulsar_reachable.start) (simp add: demo_times)
  show "list_all request_real [ReqInsertPost demo_notice]"
    by (simp add: demo_notice_def)
  show "(0 :: int) \<le> 1" "1 < (0 :: int) + 100 * 10 ^ 9" by simp_all
  show "pulsar_round demo_pulsar_env sorted_list_of_set 0 (0, 1) [ReqInsertPost demo_notice]
      (clock_start 0) demo_registry demo_start demo_shared =
    Done (clock_start 0, Map.empty, demo_registry, demo_pulsar, demo_shared,
      snd (pulsar_insert_post demo_pulsar_env demo_notice demo_start))"
    by (simp add: pulsar_round_def handle_request_def demo_pulsar_def loop_clock_def clock_start_def
        split_beta)
qed

lemma demo_feeds: "\<exists>f. feeds demo_start 1 = Some f" "\<exists>f. feeds demo_pulsar 1 = Some f"
  by (simp_all add: demo_pulsar_def demo_start_def pulsar_init_def demo_feed_data_def demo_notice_def
      pulsar_insert_post_def mod_thread_def split_beta)

theorem init_messages_current_witness:
  "\<exists>f. feeds demo_pulsar 1 = Some f \<and>
     fst (get_init_msg demo_pulsar_env f) = encode_init demo_pulsar_env (data f) \<and>
     fst (get_global_init_msg_part demo_pulsar_env f) = encode_init demo_pulsar_env (global_part_data f)"
  using demo_feeds(2) init_messages_current [OF enumerates_sorted demo_reachable] by blast

theorem feeds_well_formed_witness:
  "\<exists>f. feeds demo_pulsar 1 = Some f \<and> fc_id (common f) = 1 \<and> fd_thread (data f) = 1 \<and>
     length (last_5_posts f) \<le> 5 \<and> length (last_5_posts (feed_insert_post 8 2010 f)) \<le> 5"
  using demo_feeds(2) feeds_well_formed [OF enumerates_sorted demo_reachable] by blast

theorem clean_up_expires_nothing_witness:
  "clean_up (10 ^ 18) (10 ^ 18 + 1) demo_pulsar = demo_pulsar"
  by (rule clean_up_expires_nothing [OF enumerates_sorted demo_reachable]) simp_all

text \<open>The feed of the demo thread with one more text for its open post.\<close>

definition demo_feed :: feed where
  "demo_feed = (feed_new sorted_list_of_set demo_feed_data)\<lparr>pending_open_bodies := [5 \<mapsto> ''ab'']\<rparr>"


theorem insert_post_announced_witness:
  "\<exists>f f'. feeds demo_start 1 = Some f \<and>
     feeds (fst (pulsar_insert_post demo_pulsar_env demo_notice demo_start)) = (feeds demo_start)(1 \<mapsto> f') \<and>
     last_5_posts f' = [5, 7]"
proof -
  obtain f where f: "feeds demo_start 1 = Some f" "last_5_posts f = [5]"
    by (auto simp: demo_start_def pulsar_init_def demo_feed_data_def feed_new_def last_5_step_def
        heap_push_def heap_pop_def)
  have "feeds demo_start (pcn_thread demo_notice) = Some f" "sorted (last_5_posts f)"
    "length (last_5_posts f) \<le> 5" "\<forall>x \<in> set (last_5_posts f). x < pcn_id demo_notice"
    using f by (simp_all add: demo_notice_def)
  from insert_post_announced [OF this, of demo_pulsar_env] f show ?thesis
    by (auto simp: demo_notice_def)
qed

lemma demo_registry_facts:
  "clients demo_registry = [10 \<mapsto> \<lparr>desc_thread = Some 1, desc_pub_key = None, desc_client = ()\<rparr>]"
  "by_thread demo_registry = [1 \<mapsto> {10}]" "need_init demo_registry = [1 \<mapsto> {10}]"
  by (simp_all add: demo_registry_def set_client_thread_def add_client_def registry_default_def
      client_descriptor_new_def remove_from_thread_def sm_insert_def sm_default_def)

lemma demo_registry_inv: "reg_inv demo_registry"
  unfolding demo_registry_def
  by (intro reg_inv_thread reg_inv_add reg_inv_default) (simp add: registry_default_def)

definition demo_thread_notice :: thread_creation_notice where
  "demo_thread_notice = \<lparr>tcn_id = 20, tcn_subject = ''s'', tcn_tags = [''t''], tcn_time = 2010\<rparr>"

lemma demo_idle: "\<forall>tid f. feeds demo_start tid = Some f \<longrightarrow> pending_open_bodies f = Map.empty"
  and demo_idle_thread:
    "\<forall>tid f. feeds (fst (pulsar_insert_thread demo_pulsar_env demo_thread_notice demo_start)) tid = Some f \<longrightarrow>
       pending_open_bodies f = Map.empty"
  by (auto simp: demo_start_def pulsar_init_def feed_new_def pulsar_insert_thread_def feed_insert_post_def
      Let_def split_beta)

theorem thread_updates_not_delivered_witness:
  "\<exists>out reg' p' sh' l.
     send_messages demo_pulsar_env sorted_list_of_set demo_registry demo_start demo_shared =
       Done (out, reg', p', sh', l) \<and> out 10 = None"
proof -
  obtain out reg' p' sh' l where s:
    "send_messages demo_pulsar_env sorted_list_of_set demo_registry demo_start demo_shared =
       Done (out, reg', p', sh', l)"
    using send_messages_idle [OF enumerates_sorted demo_idle] by metis
  have "out 10 = None"
    by (rule thread_updates_not_delivered [OF enumerates_sorted demo_registry_inv s, where c = 10 and t = 1 and
        desc = "\<lparr>desc_thread = Some 1, desc_pub_key = None, desc_client = ()\<rparr>"])
      (simp_all add: demo_registry_facts sm_get_def demo_start_def pulsar_init_def pulsar_default_def
        feed_common_new_def)
  with s show ?thesis by blast
qed


end
