(* ===== verification/Client_State.thy ===== *)
theory Client_State
  imports Set_Map Body_Words
begin

text \<open>
  The global state of the browser client and the agent that owns it,
  \<^verbatim>\<open>client/src/state.rs\<close>: locations and their URL paths, the registry of threads and posts,
  the change notifications, and navigation with its fetches from the JSON API. Every handler
  returns the new state with the calls it makes to the outside, in order. Key generation and
  signing, local storage, the DOM and HTTP are browser code: a fetch is a call whose answer
  arrives later as a message.
\<close>

section \<open>Decimal numbers\<close>

text \<open>\<^verbatim>\<open>Display\<close> of the integer types.\<close>

fun show_nat :: "nat \<Rightarrow> string" where
  "show_nat n =
     (if n < 10 then [char_of (48 + n)] else show_nat (n div 10) @ [char_of (48 + n mod 10)])"

declare show_nat.simps [simp del]

definition show_unsigned :: "'w::len word \<Rightarrow> string" where
  "show_unsigned w = show_nat (unat w)"

definition show_signed :: "'w::len word \<Rightarrow> string" where
  "show_signed w =
     (if sint w < 0 then CHR ''-'' # show_nat (nat (- sint w)) else show_nat (nat (sint w)))"

section \<open>Locations\<close>

datatype feed_id = Index | Catalog | ThreadFeed (feed_thread: u64) (feed_page: "32 word")

fun feed_as_u64 :: "feed_id \<Rightarrow> u64" where
  "feed_as_u64 Index = 0"
| "feed_as_u64 Catalog = 0"
| "feed_as_u64 (ThreadFeed tid page) = tid"

datatype focus = FocusTop | FocusBottom | FocusPost u64

record location =
  loc_feed :: feed_id
  loc_focus :: "focus option"

definition location_default :: location where
  "location_default = \<lparr>loc_feed = Index, loc_focus = None\<rparr>"

text \<open>The browser's path and hash are arguments; reading one of them may fail.\<close>

definition feed_from_path :: "string \<Rightarrow> feed_id" where
  "feed_from_path p =
     (let split = split_char CHR ''/'' p in
      if length split = 4 \<and> split ! 1 = ''threads'' then
        (case (parse_unsigned (split ! 2), parse_signed (split ! 3)) of
           (Some thread, Some page) \<Rightarrow> ThreadFeed thread page
         | _ \<Rightarrow> Index)
      else if 1 < length split \<and> split ! 1 = ''catalog'' then Catalog
      else Index)"

definition focus_from_hash :: "string \<Rightarrow> focus option" where
  "focus_from_hash h =
     (if h = ''#top'' then Some FocusTop
      else if h = ''#bottom'' then Some FocusBottom
      else if take 3 h = ''#p-'' then map_option FocusPost (parse_unsigned (drop 3 h))
      else None)"

definition from_path :: "string option \<Rightarrow> string option \<Rightarrow> location" where
  "from_path pathname hash =
     \<lparr>loc_feed = feed_from_path (case pathname of Some p \<Rightarrow> p | None \<Rightarrow> []),
      loc_focus = (case hash of Some h \<Rightarrow> focus_from_hash h | None \<Rightarrow> None)\<rparr>"

fun feed_path :: "feed_id \<Rightarrow> string" where
  "feed_path Index = ''/''"
| "feed_path Catalog = ''/catalog''"
| "feed_path (ThreadFeed tid page) =
     ''/threads/'' @ show_unsigned tid @ ''/'' @ show_signed page"

fun focus_hash :: "focus option \<Rightarrow> string" where
  "focus_hash None = []"
| "focus_hash (Some FocusBottom) = ''#bottom''"
| "focus_hash (Some FocusTop) = ''#top''"
| "focus_hash (Some (FocusPost pid)) = ''#p-'' @ show_unsigned pid"

definition path :: "location \<Rightarrow> string" where
  "path l = feed_path (loc_feed l) @ focus_hash (loc_focus l)"

definition is_thread :: "location \<Rightarrow> bool" where
  "is_thread l \<longleftrightarrow> (case loc_feed l of ThreadFeed _ _ \<Rightarrow> True | _ \<Rightarrow> False)"

section \<open>State\<close>

datatype image_expansion_mode = ExpandNone | FitWidth | FitHeight | FitScreen

datatype search_provider = Google | Yandex | IQDB | SauceNao | Trace | DesuArchive | ExHentai

record options =
  forced_anonymity :: bool
  relative_timestamps :: bool
  hide_thumbnails :: bool
  work_mode :: bool
  reveal_image_spoilers :: bool
  expand_gif_thumbnails :: bool
  enabled_image_search :: "search_provider list"
  image_expansion_mode :: image_expansion_mode
  audio_volume :: u8

definition options_default :: options where
  "options_default =
     \<lparr>forced_anonymity = False, relative_timestamps = True, hide_thumbnails = False,
      work_mode = False, reveal_image_spoilers = False, expand_gif_thumbnails = False,
      enabled_image_search = [Google, Yandex, IQDB, Trace, ExHentai],
      image_expansion_mode = FitWidth, audio_volume = 100\<rparr>"

record configs =
  captcha :: bool
  mature :: bool
  prune_threads :: bool
  thread_expiry :: u32
  max_size :: u64
  default_lang :: string
  default_theme :: string
  image_root_override :: string
  links :: "string \<rightharpoonup> string"

definition configs_default :: configs where
  "configs_default =
     \<lparr>captcha = False, mature = False, prune_threads = False, thread_expiry = 0, max_size = 0,
      default_lang = [], default_theme = [], image_root_override = [], links = Map.empty\<rparr>"

record key_pair =
  kp_private :: "u8 list"
  kp_public :: "u8 list"
  kp_id :: "uuid option"

definition key_pair_default :: key_pair where
  "key_pair_default = \<lparr>kp_private = [], kp_public = [], kp_id = None\<rparr>"

record thread =
  th_id :: u64
  th_page :: u32
  th_last_page :: u32
  th_subject :: string
  th_tags :: "string list"
  bumped_on :: u32
  th_created_on :: u32
  post_count :: u64
  image_count :: u64

record post =
  post_id :: u64
  post_page :: u32
  post_thread :: u64
  post_created_on :: u32
  post_open :: bool
  post_name :: "string option"
  post_trip :: "string option"
  post_flag :: "string option"
  post_sage :: bool
  post_body :: node
  post_image :: "image option"

definition post_default :: post where
  "post_default =
     \<lparr>post_id = 0, post_page = 0, post_thread = 0, post_created_on = 0, post_open = False,
      post_name = None, post_trip = None, post_flag = None, post_sage = False, post_body = Empty,
      post_image = None\<rparr>"

record thread_decoder =
  thread_data :: thread
  td_posts :: "post list"

record client_state =
  cs_location :: location
  cs_configs :: configs
  threads :: "u64 \<rightharpoonup> thread"
  posts :: "u64 \<rightharpoonup> post"
  posts_by_thread_page :: "(u64 \<times> u32, u64) set_map"
  cs_key_pair :: key_pair
  key_id :: "uuid option"
  cs_options :: options
  mine :: "u64 set"

definition client_state_default :: client_state where
  "client_state_default =
     \<lparr>cs_location = location_default, cs_configs = configs_default, threads = Map.empty,
      posts = Map.empty, posts_by_thread_page = sm_default, cs_key_pair = key_pair_default,
      key_id = None, cs_options = options_default, mine = {}\<rparr>"

definition register_post :: "post \<Rightarrow> client_state \<Rightarrow> client_state" where
  "register_post p s =
     s\<lparr>posts_by_thread_page :=
          sm_insert (post_thread p, post_page p) (post_id p) (posts_by_thread_page s),
       posts := (posts s)(post_id p \<mapsto> p)\<rparr>"

section \<open>Agent\<close>

datatype change =
    LocationChange
  | KeyPairChange
  | OptionsChange
  | ConfigsChange
  | ThreadListChange
  | ThreadChange u64
  | PostChange u64

type_synonym subscriber = nat

text \<open>
  A running fetch is known by the location and the flags its answer will carry; a new one
  replaces and cancels it. The render task is the focus it will scroll to.
\<close>

record state_agent =
  hooks :: "(change, subscriber) double_set_map"
  fetch_task :: "(location \<times> u8) option"
  render_task :: "focus option"

definition state_agent_create :: state_agent where
  "state_agent_create = \<lparr>hooks = dsm_default, fetch_task = None, render_task = None\<rparr>"

datatype client_effect =
    Respond subscriber
  | PushState string
  | Fetch string
  | Store key_pair
  | Scroll focus
  | Alert string

datatype state_request =
    NotifyChange "change list"
  | ChangeNotifications (cn_remove: "change list") (cn_add: "change list")
  | FetchFeed location
  | NavigateTo location u8
  | SetKeyID "uuid option"
  | InsertThreadReq thread_creation_notice

datatype state_message =
    FetchedThreadIndex location "thread_decoder list" u8
  | FetchedThread location thread_decoder u8
  | FetchFailed string
  | FocusMsg focus
  | PoppedState "string option" "string option"

definition PUSH_STATE :: u8 where "PUSH_STATE = 1"

definition SET_STATE :: u8 where "SET_STATE = 2"

definition FETCHED_JSON :: u8 where "FETCHED_JSON = 4"

definition NO_TRIGGER :: u8 where "NO_TRIGGER = 8"

record app =
  app_state :: client_state
  app_agent :: state_agent

type_synonym app_act = "app \<Rightarrow> app \<times> client_effect list"

text \<open>
  The calls into the browser that can fail at once: starting a fetch, adding a history entry and
  writing the key pair to local storage, each with the error it returns, if any. A failure is
  shown to the user.
\<close>

record browser =
  br_fetch :: "string \<Rightarrow> string option"
  br_push :: "string \<Rightarrow> string option"
  br_store :: "key_pair \<Rightarrow> string option"

definition with_logging :: "string option \<Rightarrow> client_effect list" where
  "with_logging err = (case err of Some e \<Rightarrow> [Alert e] | None \<Rightarrow> [])"

definition trigger :: "subscriber iter_order \<Rightarrow> change \<Rightarrow> state_agent \<Rightarrow> client_effect list" where
  "trigger ord h a =
     (case get_by_key (hooks a) h of
        Some subs \<Rightarrow> map Respond (ord subs)
      | None \<Rightarrow> [])"

definition feed_url :: "feed_id \<Rightarrow> string" where
  "feed_url fid =
     (case fid of
        ThreadFeed tid page \<Rightarrow> ''/api/json/threads/'' @ show_unsigned tid @ ''/'' @ show_signed page
      | _ \<Rightarrow> ''/api/json/index'')"

definition fetch_feed_data :: "browser \<Rightarrow> location \<Rightarrow> u8 \<Rightarrow> app_act" where
  "fetch_feed_data br loc flags w =
     (let url = feed_url (loc_feed loc) in
      (if br_fetch br url = None
       then w\<lparr>app_agent := (app_agent w)\<lparr>fetch_task := Some (loc, flags)\<rparr>\<rparr> else w,
       Fetch url # with_logging (br_fetch br url)))"

definition need_fetch :: "location \<Rightarrow> location \<Rightarrow> u8 \<Rightarrow> bool" where
  "need_fetch old new flags \<longleftrightarrow>
     flags AND FETCHED_JSON = 0 \<and>
     (case loc_feed old of
        ThreadFeed old_id old_page \<Rightarrow>
          (case loc_feed new of
             ThreadFeed new_id new_page \<Rightarrow>
               new_id \<noteq> old_id \<or> old_page \<noteq> new_page \<and> \<not> (old_page = -1 \<and> new_page \<noteq> -1)
           | _ \<Rightarrow> True)
      | _ \<Rightarrow> (case loc_feed new of ThreadFeed _ _ \<Rightarrow> True | _ \<Rightarrow> False))"

definition set_location :: "browser \<Rightarrow> subscriber iter_order \<Rightarrow> location \<Rightarrow> u8 \<Rightarrow> app_act" where
  "set_location br ord new flags w =
     (let old = cs_location (app_state w) in
      if old = new then (w, [])
      else if need_fetch old new flags then fetch_feed_data br new flags w
      else
        let (w, e1) =
              (if flags AND SET_STATE \<noteq> 0 then
                 (w\<lparr>app_state := (app_state w)\<lparr>cs_location := new\<rparr>,
                    app_agent := (case loc_focus new of
                        Some f \<Rightarrow> (app_agent w)\<lparr>render_task := Some f\<rparr>
                      | None \<Rightarrow> app_agent w)\<rparr>,
                  if flags AND NO_TRIGGER = 0 then trigger ord LocationChange (app_agent w) else [])
               else (w, []));
            e2 = (if flags AND PUSH_STATE \<noteq> 0 
                  then PushState (path new) # with_logging (br_push br (path new)) else [])
        in (w, e1 @ e2))"

text \<open>Buffered, deduplicated changes and handlers of a successful fetch.\<close>

definition add_hook :: "change list \<Rightarrow> change \<Rightarrow> change list" where
  "add_hook changes h = (if h \<in> set changes then changes else changes @ [h])"

definition insert_fetched_thread ::
  "client_state \<times> change list \<Rightarrow> thread_decoder \<Rightarrow> client_state \<times> change list" where
  "insert_fetched_thread sc t =
     (case sc of (s, changes) \<Rightarrow>
        let tid = th_id (thread_data t);
            changes = add_hook changes (ThreadChange tid);
            s = s\<lparr>threads := (threads s)(tid \<mapsto> thread_data t)\<rparr>
        in foldl (\<lambda>(s, changes) p. (register_post p s, add_hook changes (PostChange (post_id p))))
             (s, changes) (td_posts t))"

definition notify_change ::
  "subscriber iter_order \<Rightarrow> state_agent \<Rightarrow> subscriber list \<Rightarrow> change \<Rightarrow> subscriber list" where
  "notify_change ord a sent c =
     (case get_by_key (hooks a) c of
        Some reg \<Rightarrow> foldl (\<lambda>sent r. if r \<in> set sent then sent else sent @ [r]) sent (ord reg)
      | None \<Rightarrow> sent)"

definition process_successful_feed_fetch ::
  "browser \<Rightarrow> u64 iter_order \<Rightarrow> subscriber iter_order \<Rightarrow> location \<Rightarrow> thread_decoder list \<Rightarrow> u8 \<Rightarrow>
   app_act" where
  "process_successful_feed_fetch br ord_t ord loc ts flags w =
     (let w = w\<lparr>app_agent := (app_agent w)\<lparr>fetch_task := None\<rparr>\<rparr>;
          flags = flags OR FETCHED_JSON OR NO_TRIGGER;
          (w, e) = set_location br ord loc flags w;
          changes = add_hook (add_hook [] LocationChange) ThreadListChange;
          changes = foldl add_hook changes
            (map ThreadChange (ord_t (dom (threads (app_state w)))));
          s = (app_state w)\<lparr>threads := Map.empty\<rparr>;
          (s, changes) = foldl insert_fetched_thread (s, changes) ts
      in (w\<lparr>app_state := s\<rparr>,
          e @ map Respond (foldl (notify_change ord (app_agent w)) [] changes)))"

text \<open>The callback of a fetch makes a message of the answer.\<close>

datatype fetch_reply =
    IndexReply "thread_decoder list"
  | ThreadReply thread_decoder
  | BadReply string

definition fetch_callback :: "location \<Rightarrow> u8 \<Rightarrow> fetch_reply \<Rightarrow> state_message" where
  "fetch_callback loc flags reply =
     (case reply of
        IndexReply ts \<Rightarrow> FetchedThreadIndex loc ts flags
      | ThreadReply t \<Rightarrow>
          FetchedThread
            (loc\<lparr>loc_feed := ThreadFeed (th_id (thread_data t)) (th_page (thread_data t))\<rparr>) t flags
      | BadReply err \<Rightarrow> FetchFailed err)"

fun state_update :: "browser \<Rightarrow> u64 iter_order \<Rightarrow> subscriber iter_order \<Rightarrow> state_message \<Rightarrow> app_act" where
  "state_update br ord_t ord (FetchedThreadIndex loc ts flags) w =
     process_successful_feed_fetch br ord_t ord loc ts flags w"
| "state_update br ord_t ord (FetchedThread loc t flags) w =
     process_successful_feed_fetch br ord_t ord loc [t] flags w"
| "state_update br ord_t ord (FetchFailed err) w =
     (w\<lparr>app_agent := (app_agent w)\<lparr>fetch_task := None\<rparr>\<rparr>, [Alert err])"
| "state_update br ord_t ord (FocusMsg f) w = (w, [Scroll f])"
| "state_update br ord_t ord (PoppedState pathname hash) w =
     set_location br ord (from_path pathname hash) SET_STATE w"

definition insert_thread_notice :: "thread_creation_notice \<Rightarrow> client_state \<Rightarrow> client_state" where
  "insert_thread_notice n s =
     register_post
       (post_default\<lparr>post_id := tcn_id n, post_thread := tcn_id n, post_created_on := tcn_time n,
                     post_open := True\<rparr>)
       (s\<lparr>threads := (threads s)(tcn_id n \<mapsto>
           \<lparr>th_id = tcn_id n, th_page = 0, th_last_page = 0, th_subject = tcn_subject n,
            th_tags = tcn_tags n, bumped_on = tcn_time n, th_created_on = tcn_time n,
            post_count = 1, image_count = 0\<rparr>)\<rparr>)"

definition state_handle_input ::
  "browser \<Rightarrow> subscriber iter_order \<Rightarrow> state_request \<Rightarrow> subscriber \<Rightarrow> app_act" where
  "state_handle_input br ord req sub w =
     (case req of
        NotifyChange hs \<Rightarrow>
          (w\<lparr>app_agent := (app_agent w)\<lparr>hooks :=
               foldl (\<lambda>d h. dsm_insert h sub d) (hooks (app_agent w)) hs\<rparr>\<rparr>, [])
      | ChangeNotifications remove add \<Rightarrow>
          (w\<lparr>app_agent := (app_agent w)\<lparr>hooks :=
               foldl (\<lambda>d h. dsm_insert h sub d)
                 (foldl (\<lambda>d h. remove_by_key_value h sub d) (hooks (app_agent w)) remove) add\<rparr>\<rparr>, [])
      | NavigateTo loc flags \<Rightarrow> set_location br ord loc flags w
      | FetchFeed loc \<Rightarrow> fetch_feed_data br loc 0 w
      | SetKeyID kid \<Rightarrow>
          let kp = (cs_key_pair (app_state w))\<lparr>kp_id := kid\<rparr>
          in (w\<lparr>app_state := (app_state w)\<lparr>cs_key_pair := kp\<rparr>\<rparr>, Store kp # with_logging (br_store br kp))
      | InsertThreadReq n \<Rightarrow>
          (w\<lparr>app_state := insert_thread_notice n (app_state w)\<rparr>,
           trigger ord ThreadListChange (app_agent w) @
           trigger ord (ThreadChange (tcn_id n)) (app_agent w) @
           trigger ord (PostChange (tcn_id n)) (app_agent w)))"

definition state_disconnected :: "change iter_order \<Rightarrow> subscriber \<Rightarrow> app \<Rightarrow> app" where
  "state_disconnected ord_c sub w =
     w\<lparr>app_agent := (app_agent w)\<lparr>hooks := remove_by_value ord_c sub (hooks (app_agent w))\<rparr>\<rparr>"

definition navigate_to :: "browser \<Rightarrow> subscriber iter_order \<Rightarrow> location \<Rightarrow> subscriber \<Rightarrow> app_act" where
  "navigate_to br ord loc = state_handle_input br ord (NavigateTo loc (PUSH_STATE OR SET_STATE))"

text \<open>
  Initialisation: the key pair that was loaded or generated, the browser's path and hash, the
  saved options if they parse, then two calls that may fail, for manual scrolling and for the
  configuration embedded in the page. What was set before a failure stays set.
\<close>

definition state_init ::
  "key_pair \<Rightarrow> string option \<Rightarrow> string option \<Rightarrow> options option \<Rightarrow> string option \<Rightarrow> string + configs \<Rightarrow>
   client_state \<Rightarrow> client_state \<times> string option" where
  "state_init kp pathname hash saved scroll_err conf s =
     (let s = s\<lparr>cs_key_pair := kp, cs_location := from_path pathname hash\<rparr>;
          s = (case saved of Some opts \<Rightarrow> s\<lparr>cs_options := opts\<rparr> | None \<Rightarrow> s) in
      case scroll_err of
        Some err \<Rightarrow> (s, Some err)
      | None \<Rightarrow>
          (case conf of
             Inl err \<Rightarrow> (s, Some err)
           | Inr c \<Rightarrow> (s\<lparr>cs_configs := c\<rparr>, None)))"


section \<open>Locations and paths\<close>

lemma is_digit_char_of: "d < 10 \<Longrightarrow> is_digit (char_of (48 + d :: nat))"
  by (simp add: is_digit_def of_char_of)

lemma show_nat_digits: "list_all is_digit (show_nat n) \<and> show_nat n \<noteq> []"
  by (induction n rule: show_nat.induct) (subst (1 2) show_nat.simps, simp add: is_digit_char_of)

lemma digits_value_snoc:
  "foldl (\<lambda>n c. 10 * n + (of_char c - 48)) 0 (xs @ [char_of (48 + d)]) =
     10 * foldl (\<lambda>n c. 10 * n + (of_char c - 48)) 0 xs + (d :: nat)" if "d < 10"
  using that by (simp add: of_char_of)

lemma show_nat_value: "foldl (\<lambda>n c. 10 * n + (of_char c - 48)) 0 (show_nat n) = n"
proof (induction n rule: show_nat.induct)
  case (1 n)
  show ?case
  proof (cases "n < 10")
    case True
    then show ?thesis by (simp add: show_nat.simps of_char_of)
  next
    case False
    then show ?thesis
      using 1 by (subst show_nat.simps) (simp only: if_False digits_value_snoc mod_less_divisor zero_less_numeral, simp)
  qed
qed

lemma parse_show_nat: "parse_digits (show_nat n) = Some n"
  using show_nat_digits [of n] by (simp add: parse_digits_def show_nat_value)

lemma show_nat_head: "is_digit (hd (show_nat n))"
  using show_nat_digits [of n] by (cases "show_nat n") simp_all

lemma strip_plus_show_nat: "strip_plus (show_nat n) = show_nat n"
  using show_nat_head [of n] by (auto simp: strip_plus_def is_digit_def)

lemma parse_show_unsigned: "parse_unsigned (show_unsigned w) = Some (w :: 'a::len word)"
proof -
  have "int (unat w) < 2 ^ LENGTH('a)"
    using uint_lt2p [of w] by simp
  then show ?thesis
    by (simp add: parse_unsigned_def show_unsigned_def strip_plus_show_nat parse_show_nat)
qed

lemma parse_show_signed: "parse_signed (show_signed w) = Some (w :: 'a::len word)"
proof (cases "sint w < 0")
  case True
  have "int (nat (- sint w)) \<le> 2 ^ (LENGTH('a) - 1)"
    using True sint_ge [of w] by simp
  moreover have "- of_nat (nat (- sint w)) = w"
    using True by (simp add: word_of_int_eq_iff flip: word_of_int_minus) 
  ultimately show ?thesis
    using True by (simp add: parse_signed_def show_signed_def parse_show_nat)
next
  case False
  have "int (nat (sint w)) < 2 ^ (LENGTH('a) - 1)"
    using False sint_less [of w] by simp
  moreover have "of_nat (nat (sint w)) = w"
    using False by simp
  moreover have "hd (show_nat n) \<noteq> CHR ''-''" for n
    using show_nat_head [of n] by (auto simp: is_digit_def)
  ultimately show ?thesis
    using False by (simp add: parse_signed_def show_signed_def parse_show_nat strip_plus_show_nat)
qed


lemma split_char_append:
  "sep \<notin> set a \<Longrightarrow> split_char sep (a @ sep # b) = a # split_char sep b"
  by (induction a) auto

lemma split_char_whole: "sep \<notin> set s \<Longrightarrow> split_char sep s = [s]"
  by (induction s) auto

lemma digits_avoid_char: "list_all is_digit ds \<Longrightarrow> \<not> is_digit b \<Longrightarrow> b \<notin> set ds"
  by (auto simp: list_all_iff)

lemma show_avoids:
  assumes "\<not> is_digit b"
  shows "b \<notin> set (show_unsigned w)" "b \<noteq> CHR ''-'' \<Longrightarrow> b \<notin> set (show_signed v)"
  using digits_avoid_char [OF _ assms] show_nat_digits
  by (auto simp: show_unsigned_def show_signed_def)

lemma feed_from_path_path: "feed_from_path (feed_path f) = f"
proof (cases f)
  case (ThreadFeed tid page)
  have nd: "\<not> is_digit CHR ''/''" by (simp add: is_digit_def)
  have "split_char CHR ''/'' (feed_path f) =
      split_char CHR ''/'' ([] @ CHR ''/'' # ''threads'' @ CHR ''/'' # show_unsigned tid @ CHR ''/'' # show_signed page)"
    by (simp add: ThreadFeed)
  also have "\<dots> = [[], ''threads'', show_unsigned tid, show_signed page]"
    using show_avoids(1) [OF nd, of tid] show_avoids(2) [OF nd, of page]
    by (subst split_char_append, simp)+ (simp add: split_char_whole)
  finally show ?thesis
    by (simp add: ThreadFeed feed_from_path_def parse_show_unsigned parse_show_signed
        numeral_2_eq_2 numeral_3_eq_3)
qed (simp_all add: feed_from_path_def)

lemma focus_from_hash_hash: "focus_from_hash (focus_hash f) = f"
  by (cases f rule: focus_hash.cases) (simp_all add: focus_from_hash_def parse_show_unsigned)

lemma feed_path_no_hash: "CHR ''#'' \<notin> set (feed_path f)"
proof -
  have nd: "\<not> is_digit CHR ''#''" by (simp add: is_digit_def)
  show ?thesis by (cases f) (simp_all add: show_avoids [OF nd])
qed

text \<open>
  C32: locations survive the address bar. The path of every location, cut at its hash sign the way
  the browser cuts it, reads back as that location: every feed, every page, also the last page
  written as -1, and every focus.
\<close>

theorem location_path_roundtrip:
  "\<exists>p h. path l = p @ h \<and> CHR ''#'' \<notin> set p \<and> (h = [] \<or> hd h = CHR ''#'') \<and>
         from_path (Some p) (Some h) = l"
proof (intro exI conjI)
  show "path l = feed_path (loc_feed l) @ focus_hash (loc_focus l)"
    by (simp add: path_def)
  show "focus_hash (loc_focus l) = [] \<or> hd (focus_hash (loc_focus l)) = CHR ''#''"
    by (cases "loc_focus l" rule: focus_hash.cases) simp_all
qed (simp_all add: feed_path_no_hash from_path_def feed_from_path_path focus_from_hash_hash)

section \<open>Navigation\<close>

lemma flags_exp:
  "PUSH_STATE = 2 ^ 0" "SET_STATE = 2 ^ 1" "FETCHED_JSON = 2 ^ 2" "NO_TRIGGER = 2 ^ 3"
  by (simp_all add: PUSH_STATE_def SET_STATE_def FETCHED_JSON_def NO_TRIGGER_def)

lemma or_flags:
  fixes x :: u8
  shows "(x OR 2 ^ i OR 2 ^ j) AND 2 ^ i = 2 ^ i" "(x OR 2 ^ i OR 2 ^ j) AND 2 ^ j = 2 ^ j"
    and "k \<noteq> i \<Longrightarrow> k \<noteq> j \<Longrightarrow> (x OR 2 ^ i OR 2 ^ j) AND 2 ^ k = x AND 2 ^ k"
  by (auto intro!: bit_word_eqI simp: bit_and_iff bit_or_iff bit_exp_iff)

lemma flag_bits [simp]:
  "(flags OR FETCHED_JSON OR NO_TRIGGER) AND FETCHED_JSON = FETCHED_JSON"
  "(flags OR FETCHED_JSON OR NO_TRIGGER) AND NO_TRIGGER = NO_TRIGGER"
  "(flags OR FETCHED_JSON OR NO_TRIGGER) AND SET_STATE = flags AND SET_STATE"
  "(flags OR FETCHED_JSON OR NO_TRIGGER) AND PUSH_STATE = flags AND PUSH_STATE"
  unfolding flags_exp by (simp_all only: or_flags)

lemma flags_nonzero [simp]:
  "FETCHED_JSON \<noteq> 0" "NO_TRIGGER \<noteq> 0" "SET_STATE \<noteq> 0" "PUSH_STATE \<noteq> 0"
  by (simp_all add: FETCHED_JSON_def NO_TRIGGER_def SET_STATE_def PUSH_STATE_def)

lemma set_location_fetched:
  "set_location br ord loc (flags OR FETCHED_JSON OR NO_TRIGGER) w =
     (if cs_location (app_state w) = loc then (w, [])
      else
        (if flags AND SET_STATE \<noteq> 0 then
           w\<lparr>app_state := (app_state w)\<lparr>cs_location := loc\<rparr>,
             app_agent := (case loc_focus loc of
                 Some f \<Rightarrow> (app_agent w)\<lparr>render_task := Some f\<rparr>
               | None \<Rightarrow> app_agent w)\<rparr>
         else w,
         if flags AND PUSH_STATE \<noteq> 0
         then PushState (path loc) # with_logging (br_push br (path loc)) else []))"
  by (simp add: set_location_def need_fetch_def Let_def)

text \<open>Who is told what: the handlers subscribed to one of a list of changes.\<close>

definition subscribed :: "state_agent \<Rightarrow> change set \<Rightarrow> subscriber set" where
  "subscribed a cs = sm_rel (by_key (hooks a)) `` cs"

lemma dedup_append:
  "distinct s \<Longrightarrow> distinct (foldl (\<lambda>s r. if r \<in> set s then s else s @ [r]) s rs) \<and>
     set (foldl (\<lambda>s r. if r \<in> set s then s else s @ [r]) s rs) = set s \<union> set rs"
proof (induction rs arbitrary: s)
  case (Cons r rs)
  then show ?case
    using Cons.IH [of "if r \<in> set s then s else s @ [r]"] by (cases "r \<in> set s") auto
qed simp

lemma notify_change_spec:
  assumes "enumerates ord" "dsm_ok (hooks a)" "distinct sent"
  shows "distinct (notify_change ord a sent c) \<and>
    set (notify_change ord a sent c) = set sent \<union> subscribed a {c}"
proof (cases "get_by_key (hooks a) c")
  case None
  then have "subscribed a {c} = {}"
    by (auto simp: subscribed_def sm_rel_iff get_by_key_def sm_get_def)
  with None assms(3) show ?thesis by (simp add: notify_change_def)
next
  case (Some reg)
  have "finite reg"
    using assms(2) Some by (auto simp: dsm_ok_def sm_fin_def get_by_key_def sm_get_def)
  have "by_key (hooks a) c = Some reg"
    using Some by (simp add: get_by_key_def sm_get_def)
  then have "subscribed a {c} = reg"
    by (auto simp: subscribed_def sm_rel_iff)
  also have "\<dots> = set (ord reg)"
    using enumerates_set [OF assms(1) \<open>finite reg\<close>] by simp
  finally have "subscribed a {c} = set (ord reg)" .
  with dedup_append [OF assms(3), of "ord reg"] Some show ?thesis by (simp add: notify_change_def)
qed

lemma notify_changes_spec:
  assumes "enumerates ord" "dsm_ok (hooks a)"
  shows "distinct sent \<Longrightarrow> distinct (foldl (notify_change ord a) sent cs) \<and>
    set (foldl (notify_change ord a) sent cs) = set sent \<union> subscribed a (set cs)"
proof (induction cs arbitrary: sent)
  case Nil
  then show ?case by (simp add: subscribed_def)
next
  case (Cons c cs)
  have "subscribed a (insert c (set cs)) = subscribed a {c} \<union> subscribed a (set cs)"
    by (auto simp: subscribed_def)
  with Cons.IH [of "notify_change ord a sent c"] notify_change_spec [OF assms Cons.prems, of c]
  show ?case by auto
qed

lemma set_add_hooks: "set (foldl add_hook cs hs) = set cs \<union> set hs"
  by (induction hs arbitrary: cs) (auto simp: add_hook_def)

text \<open>Inserting the fetched threads: registered state and collected changes.\<close>

definition fetched_posts :: "thread_decoder list \<Rightarrow> post list" where
  "fetched_posts ts = concat (map td_posts ts)"

lemma insert_fetched_thread_eq:
  "insert_fetched_thread (s, cs) t =
     (foldl (\<lambda>s p. register_post p s)
        (s\<lparr>threads := (threads s)(th_id (thread_data t) \<mapsto> thread_data t)\<rparr>) (td_posts t),
      foldl add_hook (add_hook cs (ThreadChange (th_id (thread_data t))))
        (map (\<lambda>p. PostChange (post_id p)) (td_posts t)))"
proof -
  have "foldl (\<lambda>(s, changes) p. (register_post p s, add_hook changes (PostChange (post_id p)))) (s, cs) ps =
      (foldl (\<lambda>s p. register_post p s) s ps, foldl add_hook cs (map (\<lambda>p. PostChange (post_id p)) ps))"
    for s cs ps
    by (induction ps arbitrary: s cs) simp_all
  then show ?thesis by (simp add: insert_fetched_thread_def Let_def)
qed

lemma register_posts_frame [simp]:
  "threads (foldl (\<lambda>s p. register_post p s) s ps) = threads s"
  "cs_location (foldl (\<lambda>s p. register_post p s) s ps) = cs_location s"
  by (induction ps arbitrary: s) (simp_all add: register_post_def)

lemma register_posts_posts:
  "posts (foldl (\<lambda>s p. register_post p s) s ps) = foldl (\<lambda>m p. m(post_id p \<mapsto> p)) (posts s) ps"
  by (induction ps arbitrary: s) (simp_all add: register_post_def)

lemma insert_fetched_spec:
  "foldl insert_fetched_thread (s, cs) ts = (s', cs') \<Longrightarrow>
   threads s' = foldl (\<lambda>m t. m(th_id (thread_data t) \<mapsto> thread_data t)) (threads s) ts \<and>
   posts s' = foldl (\<lambda>m p. m(post_id p \<mapsto> p)) (posts s) (fetched_posts ts) \<and>
   cs_location s' = cs_location s \<and>
   set cs' = set cs \<union> ThreadChange ` (th_id \<circ> thread_data) ` set ts \<union>
     PostChange ` post_id ` set (fetched_posts ts)"
proof (induction ts arbitrary: s cs)
  case Nil
  then show ?case by (simp add: fetched_posts_def)
next
  case (Cons t ts)
  note IH = Cons.IH [OF Cons.prems [unfolded foldl_Cons insert_fetched_thread_eq]]
  then have "set cs' = set cs \<union> ThreadChange ` (th_id \<circ> thread_data) ` set (t # ts) \<union>
      PostChange ` post_id ` set (fetched_posts (t # ts))"
    by (auto simp: fetched_posts_def set_add_hooks add_hook_def)
  with IH show ?case
    by (simp add: register_posts_posts fetched_posts_def del: fun_upd_apply)
qed


definition responders :: "client_effect list \<Rightarrow> subscriber list" where
  "responders es = concat (map (\<lambda>e. case e of Respond h \<Rightarrow> [h] | _ \<Rightarrow> []) es)"

lemma responders_append [simp]: "responders (xs @ ys) = responders xs @ responders ys"
  by (simp add: responders_def)

lemma responders_Respond [simp]: "responders (map Respond hs) = hs"
  by (induction hs) (simp_all add: responders_def)

lemma responders_other [simp]:
  "responders [] = []" "responders (PushState u # es) = responders es"
  "responders (with_logging err) = []"
  by (auto simp: responders_def with_logging_def split: option.splits)

text \<open>The stages of a successful fetch.\<close>

lemma process_fetch_stages:
  assumes "enumerates ord_t" "finite (dom (threads (app_state w)))"
  shows "\<exists>w1 e cs s' cs'.
     set_location br ord loc (flags OR FETCHED_JSON OR NO_TRIGGER)
       (w\<lparr>app_agent := (app_agent w)\<lparr>fetch_task := None\<rparr>\<rparr>) = (w1, e) \<and>
     set cs = {LocationChange, ThreadListChange} \<union> ThreadChange ` dom (threads (app_state w)) \<and>
     foldl insert_fetched_thread ((app_state w1)\<lparr>threads := Map.empty\<rparr>, cs) ts = (s', cs') \<and>
     threads (app_state w1) = threads (app_state w) \<and> posts (app_state w1) = posts (app_state w) \<and>
     hooks (app_agent w1) = hooks (app_agent w) \<and> fetch_task (app_agent w1) = None \<and>
     responders e = [] \<and>
     cs_location (app_state w1) =
       (if flags AND SET_STATE \<noteq> 0 then loc else cs_location (app_state w)) \<and>
     process_successful_feed_fetch br ord_t ord loc ts flags w =
       (w1\<lparr>app_state := s'\<rparr>, e @ map Respond (foldl (notify_change ord (app_agent w1)) [] cs'))"
proof -
  let ?w = "w\<lparr>app_agent := (app_agent w)\<lparr>fetch_task := None\<rparr>\<rparr>"
  obtain w1 e where l: "set_location br ord loc (flags OR FETCHED_JSON OR NO_TRIGGER) ?w = (w1, e)"
    by fastforce
  define cs where "cs = foldl add_hook (add_hook (add_hook [] LocationChange) ThreadListChange)
      (map ThreadChange (ord_t (dom (threads (app_state w1)))))"
  obtain s' cs' where f: "foldl insert_fetched_thread ((app_state w1)\<lparr>threads := Map.empty\<rparr>, cs) ts = (s', cs')"
    by fastforce
  have w1: "threads (app_state w1) = threads (app_state w)" "posts (app_state w1) = posts (app_state w)"
    "hooks (app_agent w1) = hooks (app_agent w)" "fetch_task (app_agent w1) = None" "responders e = []"
    "cs_location (app_state w1) = (if flags AND SET_STATE \<noteq> 0 then loc else cs_location (app_state w))"
    using l unfolding set_location_fetched by (auto split: if_splits option.splits)
  have "set cs = {LocationChange, ThreadListChange} \<union> ThreadChange ` dom (threads (app_state w))"
    using enumerates_set [OF assms] by (auto simp: cs_def set_add_hooks add_hook_def w1(1))
  moreover have "process_successful_feed_fetch br ord_t ord loc ts flags w =
      (w1\<lparr>app_state := s'\<rparr>, e @ map Respond (foldl (notify_change ord (app_agent w1)) [] cs'))"
    using l f by (simp add: process_successful_feed_fetch_def Let_def cs_def)
  ultimately show ?thesis using l f w1 by blast
qed

text \<open>
  A fetch notifies everyone concerned once. After a feed was fetched, the handlers the agent
  responds to are exactly those subscribed to the location, the thread list, a thread that was
  or is now in it, or a fetched post, and none of them is notified twice.
\<close>

theorem feed_fetch_notifies_once:
  assumes "enumerates ord" "enumerates ord_t" "dsm_ok (hooks (app_agent w))"
    and "finite (dom (threads (app_state w)))"
  shows "let hs = responders (snd (process_successful_feed_fetch br ord_t ord loc ts flags w))
         in distinct hs \<and>
            set hs = subscribed (app_agent w)
              ({LocationChange, ThreadListChange} \<union>
               ThreadChange ` (dom (threads (app_state w)) \<union> (th_id \<circ> thread_data) ` set ts) \<union>
               PostChange ` post_id ` set (fetched_posts ts))"
proof -
  obtain w1 e cs s' cs' where p:
    "set cs = {LocationChange, ThreadListChange} \<union> ThreadChange ` dom (threads (app_state w))"
    "foldl insert_fetched_thread ((app_state w1)\<lparr>threads := Map.empty\<rparr>, cs) ts = (s', cs')"
    "hooks (app_agent w1) = hooks (app_agent w)" "responders e = []"
    "process_successful_feed_fetch br ord_t ord loc ts flags w =
       (w1\<lparr>app_state := s'\<rparr>, e @ map Respond (foldl (notify_change ord (app_agent w1)) [] cs'))"
    using process_fetch_stages [OF assms(2,4), of br ord loc flags ts] by blast
  have ok: "dsm_ok (hooks (app_agent w1))"
    using assms(3) p(3) by simp
  have "subscribed (app_agent w1) X = subscribed (app_agent w) X" for X
    by (simp add: subscribed_def p(3))
  moreover have "set cs' = {LocationChange, ThreadListChange} \<union>
      ThreadChange ` (dom (threads (app_state w)) \<union> (th_id \<circ> thread_data) ` set ts) \<union>
      PostChange ` post_id ` set (fetched_posts ts)"
    using insert_fetched_spec [OF p(2)] p(1) by (simp add: image_Un Un_ac)
  ultimately show ?thesis
    using notify_changes_spec [OF assms(1) ok, of "[]" cs'] p(4,5) by (simp add: Let_def)
qed

text \<open>
  A fetch replaces the thread list and keeps the posts. Afterwards the threads are exactly
  the fetched ones, the fetched posts are registered on top of all earlier ones, the location
  is the fetched one when it was to be set, and no fetch is running.
\<close>

theorem feed_fetch_applies:
  assumes "enumerates ord_t" "finite (dom (threads (app_state w)))"
  shows "let w' = fst (process_successful_feed_fetch br ord_t ord loc ts flags w)
         in threads (app_state w') =
              foldl (\<lambda>m t. m(th_id (thread_data t) \<mapsto> thread_data t)) Map.empty ts \<and>
            posts (app_state w') =
              foldl (\<lambda>m p. m(post_id p \<mapsto> p)) (posts (app_state w)) (fetched_posts ts) \<and>
            cs_location (app_state w') =
              (if flags AND SET_STATE \<noteq> 0 then loc else cs_location (app_state w)) \<and>
            fetch_task (app_agent w') = None"
proof -
  obtain w1 e cs s' cs' where p:
    "foldl insert_fetched_thread ((app_state w1)\<lparr>threads := Map.empty\<rparr>, cs) ts = (s', cs')"
    "posts (app_state w1) = posts (app_state w)" "fetch_task (app_agent w1) = None"
    "cs_location (app_state w1) = (if flags AND SET_STATE \<noteq> 0 then loc else cs_location (app_state w))"
    "process_successful_feed_fetch br ord_t ord loc ts flags w =
       (w1\<lparr>app_state := s'\<rparr>, e @ map Respond (foldl (notify_change ord (app_agent w1)) [] cs'))"
    using process_fetch_stages [OF assms, of br ord loc flags ts] by blast
  then show ?thesis
    using insert_fetched_spec [OF p(1)] by (simp add: Let_def)
qed


text \<open>
  C31: navigation to a thread completes. Navigating from another feed starts the fetch of that
  page and changes nothing else; when its answer arrives, the app is at the thread with the page
  number of the answer (also when the last page was asked for as -1), the thread is the only one
  in the list, its handlers have been notified and its path is in the history.
\<close>

theorem thread_navigation_completes:
  assumes "enumerates ord_t" "enumerates ord" "finite (dom (threads (app_state w)))"
    and "dsm_ok (hooks (app_agent w))"
    and "loc_feed loc = ThreadFeed tid page" "feed_as_u64 (loc_feed (cs_location (app_state w))) \<noteq> tid"
    and "br_fetch br (feed_url (loc_feed loc)) = None"
    and "th_id (thread_data t) = tid"
    and "navigate_to br ord loc sub w = (w1, e1)"
    and "fetch_task (app_agent w1) = Some (l, flags)"
    and "state_update br ord_t ord (fetch_callback l flags (ThreadReply t)) w1 = (w2, e2)"
  shows "app_state w1 = app_state w \<and> e1 = [Fetch (feed_url (loc_feed loc))] \<and>
    cs_location (app_state w2) = loc\<lparr>loc_feed := ThreadFeed tid (th_page (thread_data t))\<rparr> \<and>
    threads (app_state w2) = [tid \<mapsto> thread_data t] \<and>
    PushState (path (cs_location (app_state w2))) \<in> set e2 \<and>
    subscribed (app_agent w) {LocationChange, ThreadChange tid} \<subseteq> set (responders e2)"
proof -
  let ?new = "loc\<lparr>loc_feed := ThreadFeed tid (th_page (thread_data t))\<rparr>"
  have neq: "cs_location (app_state w) \<noteq> loc" "cs_location (app_state w) \<noteq> ?new"
    using assms(5,6) by auto
  have "need_fetch (cs_location (app_state w)) loc (PUSH_STATE OR SET_STATE)"
    using assms(5,6)
    by (cases "loc_feed (cs_location (app_state w))")
      (auto simp: need_fetch_def PUSH_STATE_def SET_STATE_def FETCHED_JSON_def)
  then have w1: "w1 = w\<lparr>app_agent := (app_agent w)\<lparr>fetch_task := Some (loc, PUSH_STATE OR SET_STATE)\<rparr>\<rparr>"
    and e1: "e1 = [Fetch (feed_url (loc_feed loc))]"
    using assms(7,9) neq
    by (simp_all add: navigate_to_def state_handle_input_def set_location_def fetch_feed_data_def
        with_logging_def Let_def)
  have lf: "l = loc" "flags = PUSH_STATE OR SET_STATE"
    using assms(10) w1 by simp_all
  have fl: "flags AND SET_STATE \<noteq> 0" "flags AND PUSH_STATE \<noteq> 0"
    by (simp_all add: lf PUSH_STATE_def SET_STATE_def)
  have p: "process_successful_feed_fetch br ord_t ord ?new [t] flags w1 = (w2, e2)"
    using assms(8,11) by (simp add: fetch_callback_def lf)
  have fin: "finite (dom (threads (app_state w1)))" and ok: "dsm_ok (hooks (app_agent w1))"
    and sub: "subscribed (app_agent w1) X = subscribed (app_agent w) X" for X
    using assms(3,4) by (simp_all add: w1 subscribed_def)
  obtain v e cs s' cs' where st:
    "set_location br ord ?new (flags OR FETCHED_JSON OR NO_TRIGGER)
       (w1\<lparr>app_agent := (app_agent w1)\<lparr>fetch_task := None\<rparr>\<rparr>) = (v, e)"
    "set cs = {LocationChange, ThreadListChange} \<union> ThreadChange ` dom (threads (app_state w1))"
    "foldl insert_fetched_thread ((app_state v)\<lparr>threads := Map.empty\<rparr>, cs) [t] = (s', cs')"
    "hooks (app_agent v) = hooks (app_agent w1)" "responders e = []"
    "cs_location (app_state v) = (if flags AND SET_STATE \<noteq> 0 then ?new else cs_location (app_state w1))"
    "process_successful_feed_fetch br ord_t ord ?new [t] flags w1 =
       (v\<lparr>app_state := s'\<rparr>, e @ map Respond (foldl (notify_change ord (app_agent v)) [] cs'))"
    using process_fetch_stages [OF assms(1) fin, of br ord ?new flags "[t]"] by blast
  have "PushState (path ?new) \<in> set e"
    using st(1) fl neq(2) unfolding set_location_fetched by (auto simp: w1)
  moreover note spec = insert_fetched_spec [OF st(3)]
  moreover have "{LocationChange, ThreadChange tid} \<subseteq> set cs'"
    using spec st(2) assms(8) by auto
  moreover have "set (foldl (notify_change ord (app_agent v)) [] cs') = subscribed (app_agent w) (set cs')"
    using notify_changes_spec [OF assms(2), of "app_agent v" "[]" cs'] ok sub st(4)
    by (simp add: subscribed_def)
  ultimately show ?thesis
    using p st(5-7) fl assms(8) e1 w1 by (auto simp: subscribed_def)
qed

section \<open>Invariant\<close>

text \<open>
  Every registered post is found under its number and under its thread and page, every thread
  under its number, and the notification hooks agree in both directions.
\<close>

definition registry_ok :: "client_state \<Rightarrow> bool" where
  "registry_ok s \<longleftrightarrow>
     finite (dom (threads s)) \<and> (\<forall>tid t. threads s tid = Some t \<longrightarrow> th_id t = tid) \<and>
     (\<forall>pid p. posts s pid = Some p \<longrightarrow> post_id p = pid \<and>
        ((post_thread p, post_page p), pid) \<in> sm_rel (posts_by_thread_page s))"

definition state_inv :: "app \<Rightarrow> bool" where
  "state_inv w \<longleftrightarrow> dsm_ok (hooks (app_agent w)) \<and> registry_ok (app_state w)"

datatype app_event =
    AppInput state_request subscriber
  | AppMessage state_message
  | AppDisconnect subscriber

fun app_step ::
  "browser \<Rightarrow> u64 iter_order \<Rightarrow> subscriber iter_order \<Rightarrow> change iter_order \<Rightarrow> app \<Rightarrow> app_event \<Rightarrow> app" where
  "app_step br ord_t ord ord_c w (AppInput req sub) = fst (state_handle_input br ord req sub w)"
| "app_step br ord_t ord ord_c w (AppMessage msg) = fst (state_update br ord_t ord msg w)"
| "app_step br ord_t ord ord_c w (AppDisconnect sub) = state_disconnected ord_c sub w"

lemma registry_ok_register: "registry_ok s \<Longrightarrow> registry_ok (register_post p s)"
  by (auto simp: registry_ok_def register_post_def sm_rel_insert)

lemma registry_ok_threads:
  "registry_ok s \<Longrightarrow> registry_ok (s\<lparr>threads := Map.empty\<rparr>)"
  "registry_ok s \<Longrightarrow> th_id t = tid \<Longrightarrow> registry_ok (s\<lparr>threads := (threads s)(tid \<mapsto> t)\<rparr>)"
  by (auto simp: registry_ok_def)

lemma registry_ok_frame:
  "registry_ok (s\<lparr>cs_location := l\<rparr>) = registry_ok s"
  "registry_ok (s\<lparr>cs_key_pair := k\<rparr>) = registry_ok s"
  by (simp_all add: registry_ok_def)

lemma registry_ok_registers: "registry_ok s \<Longrightarrow> registry_ok (foldl (\<lambda>s p. register_post p s) s ps)"
  by (induction ps arbitrary: s) (simp_all add: registry_ok_register)

lemma registry_ok_fetched:
  "registry_ok s \<Longrightarrow> registry_ok (fst (foldl insert_fetched_thread (s, cs) ts))"
  by (induction ts arbitrary: s cs)
    (simp_all add: insert_fetched_thread_eq registry_ok_registers registry_ok_threads)

lemma set_location_inv:
  "hooks (app_agent (fst (set_location br ord new flags w))) = hooks (app_agent w)"
  "registry_ok (app_state (fst (set_location br ord new flags w))) = registry_ok (app_state w)"
  by (auto simp: set_location_def fetch_feed_data_def Let_def registry_ok_frame split: option.splits)

lemma process_fetch_inv:
  assumes "state_inv w"
  shows "state_inv (fst (process_successful_feed_fetch br ord_t ord loc ts flags w))"
proof -
  let ?w = "w\<lparr>app_agent := (app_agent w)\<lparr>fetch_task := None\<rparr>\<rparr>"
  obtain w1 e where l: "set_location br ord loc (flags OR FETCHED_JSON OR NO_TRIGGER) ?w = (w1, e)"
    by fastforce
  have "hooks (app_agent w1) = hooks (app_agent w)" "registry_ok (app_state w1)"
    using set_location_inv [of br ord loc "flags OR FETCHED_JSON OR NO_TRIGGER" ?w] l assms
    by (simp_all add: state_inv_def)
  with assms l show ?thesis
    by (simp add: process_successful_feed_fetch_def Let_def split_beta state_inv_def
        registry_ok_fetched registry_ok_threads)
qed

lemma dsm_ok_inserts: "dsm_ok d \<Longrightarrow> dsm_ok (foldl (\<lambda>d h. dsm_insert h sub d) d hs)"
  by (induction hs arbitrary: d) (simp_all add: dsm_ok_insert)

lemma dsm_ok_removes: "dsm_ok d \<Longrightarrow> dsm_ok (foldl (\<lambda>d h. remove_by_key_value h sub d) d hs)"
  by (induction hs arbitrary: d) (simp_all add: dsm_ok_remove_by_key_value)

lemma state_handle_input_inv:
  "state_inv w \<Longrightarrow> state_inv (fst (state_handle_input br ord req sub w))"
  by (cases req)
    (simp_all add: state_handle_input_def state_inv_def dsm_ok_inserts dsm_ok_removes
      set_location_inv fetch_feed_data_def Let_def registry_ok_frame insert_thread_notice_def
      registry_ok_register registry_ok_threads)

lemma state_update_inv: "state_inv w \<Longrightarrow> state_inv (fst (state_update br ord_t ord msg w))"
  by (cases msg) (simp_all add: process_fetch_inv, simp_all add: state_inv_def set_location_inv)

lemma app_step_invariant:
  assumes "enumerates ord_c"
  shows "step_invariant (app_step br ord_t ord ord_c) state_inv"
proof
  fix w e
  assume "state_inv w"
  then show "state_inv (app_step br ord_t ord ord_c w e)"
    using assms
    by (cases e) (simp_all add: state_handle_input_inv state_update_inv, simp add: state_inv_def
        state_disconnected_def dsm_ok_remove_by_value)
qed

definition app_start :: "client_state \<Rightarrow> app" where
  "app_start s = \<lparr>app_state = s, app_agent = state_agent_create\<rparr>"

text \<open>
  C33: the registry of the client stays consistent. After the initialisation and any sequence of
  requests, fetch results, history events and disconnects, every registered post is stored under
  its number and indexed under its thread and page, and every thread under its number.
\<close>

theorem client_registry_consistent:
  assumes "enumerates ord_c"
    and "w = foldl (app_step br ord_t ord ord_c)
               (app_start (fst (state_init kp pathname hash saved err conf client_state_default))) es"
  shows "(\<forall>tid t. threads (app_state w) tid = Some t \<longrightarrow> th_id t = tid) \<and>
         (\<forall>pid p. posts (app_state w) pid = Some p \<longrightarrow> post_id p = pid \<and>
            (\<exists>ids. sm_get (posts_by_thread_page (app_state w)) (post_thread p, post_page p) = Some ids \<and>
               pid \<in> ids))"
proof -
  have "state_inv (app_start (fst (state_init kp pathname hash saved err conf client_state_default)))"
    by (simp add: state_inv_def registry_ok_def app_start_def state_agent_create_def dsm_ok_default state_init_def
        client_state_default_def Let_def split: option.splits sum.splits)
  then have "state_inv w"
    unfolding assms(2) by (rule step_invariant.run_keeps [OF app_step_invariant [OF assms(1)]])
  then show ?thesis by (auto simp: state_inv_def registry_ok_def sm_rel_iff sm_get_def)
qed


section \<open>A small client\<close>

text \<open>An order on changes, so that sets of them can be listed.\<close>

fun change_key :: "change \<Rightarrow> nat \<times> u64" where
  "change_key LocationChange = (0, 0)"
| "change_key KeyPairChange = (1, 0)"
| "change_key OptionsChange = (2, 0)"
| "change_key ConfigsChange = (3, 0)"
| "change_key ThreadListChange = (4, 0)"
| "change_key (ThreadChange n) = (5, n)"
| "change_key (PostChange n) = (6, n)"

lemma change_key_inj: "change_key c = change_key d \<Longrightarrow> c = d"
  by (cases c; cases d) simp_all

instantiation change :: linorder
begin

definition less_eq_change :: "change \<Rightarrow> change \<Rightarrow> bool" where
  "c \<le> d \<longleftrightarrow> fst (change_key c) < fst (change_key d) \<or>
     fst (change_key c) = fst (change_key d) \<and> snd (change_key c) \<le> snd (change_key d)"

definition less_change :: "change \<Rightarrow> change \<Rightarrow> bool" where
  "c < d \<longleftrightarrow> c \<le> d \<and> \<not> d \<le> (c :: change)"

instance
proof
  fix c d :: change
  assume "c \<le> d" "d \<le> c"
  then show "c = d"
    by (intro change_key_inj) (auto simp: less_eq_change_def prod_eq_iff)
qed (auto simp: less_eq_change_def less_change_def)

end

definition demo_browser :: browser where
  "demo_browser = \<lparr>br_fetch = \<lambda>_. None, br_push = \<lambda>_. None, br_store = \<lambda>_. None\<rparr>"

definition demo_thread :: "u64 \<Rightarrow> thread" where
  "demo_thread tid =
     \<lparr>th_id = tid, th_page = 2, th_last_page = 2, th_subject = ''s'', th_tags = [], bumped_on = 5,
      th_created_on = 5, post_count = 1, image_count = 0\<rparr>"

definition demo_fetched :: thread_decoder where
  "demo_fetched =
     \<lparr>thread_data = demo_thread 5,
      td_posts = [post_default\<lparr>post_id := 5, post_thread := 5, post_page := 2\<rparr>]\<rparr>"

definition demo_app :: app where
  "demo_app =
     app_step demo_browser sorted_list_of_set sorted_list_of_set sorted_list_of_set
       (app_start (client_state_default\<lparr>threads := [3 \<mapsto> demo_thread 3]\<rparr>))
       (AppInput (NotifyChange [LocationChange, PostChange 5]) 1)"

definition demo_location :: location where
  "demo_location = \<lparr>loc_feed = ThreadFeed 5 (-1), loc_focus = Some FocusBottom\<rparr>"

lemma demo_app_facts:
  "dsm_ok (hooks (app_agent demo_app))" "finite (dom (threads (app_state demo_app)))"
  "cs_location (app_state demo_app) = location_default"
  by (simp_all add: demo_app_def state_handle_input_def app_start_def state_agent_create_def
      dsm_ok_default dsm_ok_insert client_state_default_def)

theorem feed_fetch_notifies_once_witness:
  "let hs = responders (snd (process_successful_feed_fetch demo_browser sorted_list_of_set
              sorted_list_of_set demo_location [demo_fetched] SET_STATE demo_app))
   in distinct hs \<and>
      set hs = subscribed (app_agent demo_app)
        ({LocationChange, ThreadListChange} \<union>
         ThreadChange ` (dom (threads (app_state demo_app)) \<union> (th_id \<circ> thread_data) ` set [demo_fetched]) \<union>
         PostChange ` post_id ` set (fetched_posts [demo_fetched]))"
  by (rule feed_fetch_notifies_once [OF enumerates_sorted enumerates_sorted demo_app_facts(1,2)])

theorem feed_fetch_applies_witness:
  "threads (app_state (fst (process_successful_feed_fetch demo_browser sorted_list_of_set
      sorted_list_of_set demo_location [demo_fetched] SET_STATE demo_app))) = [5 \<mapsto> demo_thread 5]"
  using feed_fetch_applies [OF enumerates_sorted demo_app_facts(2), of demo_browser sorted_list_of_set
      demo_location "[demo_fetched]" SET_STATE]
  by (simp add: Let_def demo_fetched_def) (simp add: demo_thread_def)

theorem thread_navigation_completes_witness:
  "\<exists>w1 e1 w2 e2. navigate_to demo_browser sorted_list_of_set demo_location 1 demo_app = (w1, e1) \<and>
     fetch_task (app_agent w1) = Some (demo_location, PUSH_STATE OR SET_STATE) \<and>
     state_update demo_browser sorted_list_of_set sorted_list_of_set
       (fetch_callback demo_location (PUSH_STATE OR SET_STATE) (ThreadReply demo_fetched)) w1 = (w2, e2) \<and>
     cs_location (app_state w2) = \<lparr>loc_feed = ThreadFeed 5 2, loc_focus = Some FocusBottom\<rparr>"
proof -
  obtain w1 e1 where n: "navigate_to demo_browser sorted_list_of_set demo_location 1 demo_app = (w1, e1)"
    by fastforce
  have f: "fetch_task (app_agent w1) = Some (demo_location, PUSH_STATE OR SET_STATE)"
    using n demo_app_facts(3)
    by (auto simp: navigate_to_def state_handle_input_def set_location_def fetch_feed_data_def
        demo_location_def location_default_def demo_browser_def need_fetch_def Let_def
        PUSH_STATE_def SET_STATE_def FETCHED_JSON_def)
  obtain w2 e2 where u: "state_update demo_browser sorted_list_of_set sorted_list_of_set
       (fetch_callback demo_location (PUSH_STATE OR SET_STATE) (ThreadReply demo_fetched)) w1 = (w2, e2)"
    by fastforce
  have l: "loc_feed demo_location = ThreadFeed 5 (- 1)"
    "feed_as_u64 (loc_feed (cs_location (app_state demo_app))) \<noteq> 5"
    "br_fetch demo_browser (feed_url (loc_feed demo_location)) = None"
    "th_id (thread_data demo_fetched) = 5"
    by (simp_all add: demo_location_def demo_app_facts location_default_def demo_browser_def
        demo_fetched_def demo_thread_def)
  have "cs_location (app_state w2) = \<lparr>loc_feed = ThreadFeed 5 2, loc_focus = Some FocusBottom\<rparr>"
    using thread_navigation_completes [OF enumerates_sorted enumerates_sorted demo_app_facts(2,1) l n f u]
    by (simp add: demo_location_def demo_fetched_def demo_thread_def)
  with n f u show ?thesis by blast
qed

theorem client_registry_consistent_witness:
  "\<exists>w p. w = foldl (app_step demo_browser sorted_list_of_set sorted_list_of_set sorted_list_of_set)
       (app_start (fst (state_init key_pair_default None None None None (Inr configs_default) client_state_default)))
       [AppInput (InsertThreadReq \<lparr>tcn_id = 9, tcn_subject = ''s'', tcn_tags = [], tcn_time = 7\<rparr>) 1] \<and>
     posts (app_state w) 9 = Some p \<and> post_id p = 9 \<and>
     (\<exists>ids. sm_get (posts_by_thread_page (app_state w)) (post_thread p, post_page p) = Some ids \<and> 9 \<in> ids)"
proof -
  define w where "w = foldl (app_step demo_browser sorted_list_of_set sorted_list_of_set sorted_list_of_set)
       (app_start (fst (state_init key_pair_default None None None None (Inr configs_default) client_state_default)))
       [AppInput (InsertThreadReq \<lparr>tcn_id = 9, tcn_subject = ''s'', tcn_tags = [], tcn_time = 7\<rparr>) 1]"
  obtain p where p: "posts (app_state w) 9 = Some p"
    by (simp add: w_def state_handle_input_def insert_thread_notice_def register_post_def)
  from client_registry_consistent [OF enumerates_sorted w_def] p have
    "post_id p = 9 \<and> (\<exists>ids. sm_get (posts_by_thread_page (app_state w)) (post_thread p, post_page p) = Some ids \<and> 9 \<in> ids)"
    by blast
  with p show ?thesis unfolding w_def by blast
qed

end
