(* ===== verification/Client_Connection.thy ===== *)
theory Client_Connection
  imports Client_State Codec
begin

text \<open>
  The agent of the browser client that owns the websocket, \<^verbatim>\<open>client/src/connection.rs\<close>: its
  state machine with reconnection, the messages it routes, and the handshake it answers the
  server with. Handlers return the new agent with the calls they make, in order. The websocket,
  the timer and the key signer are browser code; requests to the state agent and handshakes are
  dispatched and run later.
\<close>

section \<open>State\<close>

datatype conn_fsm = Loading | Connecting | Handshaking | Syncing | Synced | Dropped

type_synonym socket_id = nat

text \<open>
  The reconnection timer is its delay in milliseconds. The count of attempts is an \<^verbatim>\<open>i32\<close>;
  it is reset by every successful connection and counts disconnects since then.
\<close>

record connection =
  con_state :: conn_fsm
  syncing_to :: "u64 option"
  authed_with :: "uuid option"
  reconn_attempts :: nat
  reconn_timer :: "nat option"
  con_socket :: "socket_id option"
  subscribers :: "subscriber set"

definition connection_new :: connection where
  "connection_new =
     \<lparr>con_state = Loading, syncing_to = None, authed_with = None, reconn_attempts = 0,
      reconn_timer = None, con_socket = None, subscribers = {}\<rparr>"

datatype message_category = CatHandshake | CatSynchronize | CatRegular

datatype conn_request =
    RegularReq "u8 list"
  | HandshakeReq (with_key_pair: key_pair) (hs_message: "u8 list")

datatype conn_event =
    OpenEvent
  | CloseEvent (close_code: u16) (close_reason: string)
  | ErrorEvent string
  | ReceiveEvent "u8 list"
  | TryReconnecting
  | VisibilityChanged
  | WentOnline
  | WentOffline
  | CheckUpdates

datatype conn_error =
    NotReady conn_fsm
  | JsError string
  | StreamErr io_error
  | UnsupportedProtocol string

datatype conn_effect =
    NotifyState subscriber conn_fsm
  | OpenSocket string
  | SendSocket socket_id message_category "u8 list"
  | CloseSocket socket_id
  | SpawnHandshake key_pair
  | DispatchState state_request
  | LogError conn_error
  | AlertUser conn_error

text \<open>
  What the agent calls: the browser (is it online, is the page hidden, the protocol and host of
  its address, opening, writing to and closing sockets, signing), and the libraries behind the
  message codec.
\<close>

datatype client_payload = CPSynchronize u64 | CPHandshake handshake_req

record conn_env =
  ce_online :: bool
  ce_hidden :: bool
  ce_protocol :: string
  ce_host :: string
  ce_open :: "string \<Rightarrow> string + socket_id"
  ce_send :: "socket_id \<Rightarrow> u8 list \<Rightarrow> string option"
  ce_close :: "socket_id \<Rightarrow> string option"
  ce_sign :: "key_pair \<Rightarrow> u8 list \<Rightarrow> string + u8 list"
  ce_deflate :: deflater
  ce_inflate :: inflater
  ce_ser :: "client_payload serializer"
  ce_de_u64 :: "u64 deserializer"
  ce_de_handshake :: "handshake_res deserializer"
  ce_de_feed :: "feed_data deserializer"
  ce_ord :: "subscriber iter_order"

type_synonym conn_act = "connection \<Rightarrow> connection \<times> conn_effect list"

section \<open>State changes\<close>

definition con_set_state :: "conn_env \<Rightarrow> conn_fsm \<Rightarrow> conn_act" where
  "con_set_state env new c =
     (if con_state c \<noteq> new
      then (c\<lparr>con_state := new\<rparr>, map (\<lambda>sub. NotifyState sub new) (ce_ord env (subscribers c)))
      else (c, []))"

text \<open>
  \<^verbatim>\<open>500f32 * 1.5f32.powi(k) as u64\<close>: up to \<open>k = 12\<close> the power is exact in an \<^verbatim>\<open>f32\<close> and
  rounding the product does not reach the next integer.
\<close>

definition reconnect_delay :: "nat \<Rightarrow> nat" where
  "reconnect_delay attempts = (let k = min (attempts div 2) 12 in 500 * 3 ^ k div 2 ^ k)"

definition handle_disconnect :: "conn_env \<Rightarrow> conn_act" where
  "handle_disconnect env c =
     (let c = c\<lparr>reconn_attempts := reconn_attempts c + 1\<rparr>;
          c = c\<lparr>reconn_timer := Some (reconnect_delay (reconn_attempts c))\<rparr>
      in con_set_state env Dropped c)"

definition close_socket :: "conn_env \<Rightarrow> conn_act" where
  "close_socket env c =
     (c\<lparr>con_socket := None, syncing_to := None, authed_with := None\<rparr>,
      case con_socket c of
        Some s \<Rightarrow> CloseSocket s # (case ce_close env s of Some e \<Rightarrow> [LogError (JsError e)] | None \<Rightarrow> [])
      | None \<Rightarrow> [])"

definition reset_reconn_timer :: "connection \<Rightarrow> connection" where
  "reset_reconn_timer c = c\<lparr>reconn_timer := None\<rparr>"

definition reset_reconn_attempts :: "connection \<Rightarrow> connection" where
  "reset_reconn_attempts c = (reset_reconn_timer c)\<lparr>reconn_attempts := 0\<rparr>"

definition reset_socket_and_timer :: "conn_env \<Rightarrow> conn_act" where
  "reset_socket_and_timer env c =
     (case close_socket env c of (c, e) \<Rightarrow> (reset_reconn_timer c, e))"

section \<open>Sending\<close>

definition can_send :: "conn_fsm \<Rightarrow> message_category \<Rightarrow> bool" where
  "can_send st cat \<longleftrightarrow>
     (case st of
        Connecting \<Rightarrow> cat = CatHandshake
      | Handshaking \<Rightarrow> cat = CatHandshake \<or> cat = CatSynchronize
      | Synced \<Rightarrow> True
      | Syncing \<Rightarrow> True
      | _ \<Rightarrow> False)"

definition con_send ::
  "conn_env \<Rightarrow> message_category \<Rightarrow> u8 list \<Rightarrow> connection \<Rightarrow> (conn_error + unit) \<times> conn_effect list" where
  "con_send env cat msg c =
     (case con_socket c of
        Some s \<Rightarrow>
          if can_send (con_state c) cat then
            (case ce_send env s msg of
               None \<Rightarrow> (Inr (), [SendSocket s cat msg])
             | Some e \<Rightarrow> (Inl (JsError e), []))
          else (Inl (NotReady (con_state c)), [])
      | None \<Rightarrow> (Inl (NotReady (con_state c)), []))"

definition con_synchronize ::
  "conn_env \<Rightarrow> u64 \<Rightarrow> connection \<Rightarrow> (conn_error + unit) \<times> connection \<times> conn_effect list" where
  "con_synchronize env fid c =
     (case encode (ce_deflate env) (ce_ser env) Synchronize (CPSynchronize fid) of
        Inl err \<Rightarrow> (Inl (StreamErr err), c, [])
      | Inr msg \<Rightarrow>
          (case con_send env CatSynchronize msg c of
             (Inl err, e) \<Rightarrow> (Inl err, c, e)
           | (Inr _, e) \<Rightarrow>
               (case con_set_state env Syncing c of
                  (c, e') \<Rightarrow> (Inr (), c\<lparr>syncing_to := Some fid\<rparr>, e @ e'))))"

text \<open>An error of a handler is logged, and the handler's changes stay.\<close>

definition logged :: "(conn_error + unit) \<times> connection \<times> conn_effect list \<Rightarrow> connection \<times> conn_effect list" where
  "logged r =
     (case r of
        (Inl err, c, e) \<Rightarrow> (c, e @ [LogError err])
      | (Inr _, c, e) \<Rightarrow> (c, e))"

definition socket_url :: "conn_env \<Rightarrow> conn_error + string" where
  "socket_url env =
     (let p = ce_protocol env in
      if p = ''https:'' then Inr (''wss://'' @ ce_host env @ ''/api/socket'')
      else if p = ''http:'' then Inr (''ws://'' @ ce_host env @ ''/api/socket'')
      else Inl (UnsupportedProtocol p))"

definition connect :: "conn_env \<Rightarrow> conn_act" where
  "connect env c =
     (case close_socket env c of
        (c, e) \<Rightarrow>
          if \<not> ce_online env then (c, e)
          else
            (case socket_url env of
               Inl err \<Rightarrow> (c, e @ [LogError err])
             | Inr u \<Rightarrow>
                 (case ce_open env u of
                    Inl err \<Rightarrow> (c, e @ [LogError (JsError err)])
                  | Inr s \<Rightarrow>
                      (case con_set_state env Connecting c of
                         (c, e') \<Rightarrow>
                           (reset_reconn_timer (c\<lparr>con_socket := Some s\<rparr>), e @ OpenSocket u # e')))))"

section \<open>Handshake\<close>

text \<open>
  The message \<^verbatim>\<open>send_handshake_req\<close> builds for a key pair with a fresh nonce: the key itself
  while it has no number, else a signature on the number and the nonce. It comes back to the
  agent as a request.
\<close>

definition handshake_auth :: "conn_env \<Rightarrow> key_pair \<Rightarrow> u8 list \<Rightarrow> string + authorization" where
  "handshake_auth env kp nonce =
     (case kp_id kp of
        Some kid \<Rightarrow> rbind (ce_sign env kp (uuid_bytes kid @ nonce)) (\<lambda>sig. Inr (Saved kid nonce sig))
      | None \<Rightarrow> Inr (NewPubKey (kp_public kp)))"

definition send_handshake_req :: "conn_env \<Rightarrow> key_pair \<Rightarrow> u8 list \<Rightarrow> conn_error + conn_request" where
  "send_handshake_req env kp nonce =
     (case handshake_auth env kp nonce of
        Inl err \<Rightarrow> Inl (JsError err)
      | Inr a \<Rightarrow>
          (case encode (ce_deflate env) (ce_ser env) Handshake
                  (CPHandshake \<lparr>protocol_version = PROTOCOL_VERSION, auth = a\<rparr>) of
             Inl err \<Rightarrow> Inl (StreamErr err)
           | Inr msg \<Rightarrow> Inr (HandshakeReq kp msg)))"

section \<open>Received messages\<close>

text \<open>
  The handlers of \<^verbatim>\<open>on_message\<close>. The arm written \<^verbatim>\<open>CreateThreadAck\<close> names no variant of
  \<^verbatim>\<open>MessageType\<close>, so it is a variable pattern: it matches every type the arms before it do not,
  and the arms after it are never reached.
\<close>

definition on_sync :: "conn_env \<Rightarrow> client_state \<Rightarrow> u64 \<Rightarrow> conn_act" where
  "on_sync env s fid c =
     (if fid = feed_as_u64 (loc_feed (cs_location s)) then con_set_state env Synced c else (c, []))"

definition on_handshake :: "conn_env \<Rightarrow> client_state \<Rightarrow> handshake_res \<Rightarrow> conn_act" where
  "on_handshake env s res c =
     (let c = c\<lparr>authed_with := Some (hr_id res)\<rparr>;
          e1 = (if kp_id (cs_key_pair s) = None then [DispatchState (SetKeyID (Some (hr_id res)))] else []);
          (c, e2) =
            (if need_resend res
             then (c, [SpawnHandshake ((cs_key_pair s)\<lparr>kp_id := Some (hr_id res)\<rparr>)])
             else logged (con_synchronize env (feed_as_u64 (loc_feed (cs_location s))) c))
      in (c, e1 @ e2))"

definition on_thread_ack :: "u64 \<Rightarrow> conn_act" where
  "on_thread_ack tid c =
     (c, [DispatchState (NavigateTo \<lparr>loc_feed = ThreadFeed tid 0, loc_focus = None\<rparr>
            (PUSH_STATE OR SET_STATE))])"

definition con_route ::
  "'p deserializer \<Rightarrow> ('p \<Rightarrow> conn_act) \<Rightarrow> decoder \<Rightarrow> connection \<Rightarrow>
   (conn_error + decoder) \<times> connection \<times> conn_effect list" where
  "con_route de handler d c =
     (case read_next de d of
        (d, Inl err) \<Rightarrow> (Inl (StreamErr err), c, [])
      | (d, Inr payload) \<Rightarrow> (case handler payload c of (c, e) \<Rightarrow> (Inr d, c, e)))"

definition con_handle_message ::
  "conn_env \<Rightarrow> client_state \<Rightarrow> message_type \<Rightarrow> decoder \<Rightarrow> connection \<Rightarrow>
   (conn_error + decoder) \<times> connection \<times> conn_effect list" where
  "con_handle_message env s t =
     (case t of
        Synchronize \<Rightarrow> con_route (ce_de_u64 env) (on_sync env s)
      | Handshake \<Rightarrow> con_route (ce_de_handshake env) (on_handshake env s)
      | FeedInit \<Rightarrow> con_route (ce_de_feed env) (\<lambda>_ c. (c, []))
      | _ \<Rightarrow> con_route (ce_de_u64 env) on_thread_ack)"

lemma con_route_advances:
  "con_route de h d c = (Inr d', c', e) \<Longrightarrow> d' = d\<lparr>off := off d + 1\<rparr>"
  by (auto simp: con_route_def read_next_def Let_def split: prod.splits sum.splits option.splits)

lemma con_handle_message_advances:
  "con_handle_message env s t d c = (Inr d', c', e) \<Longrightarrow> d' = d\<lparr>off := off d + 1\<rparr>"
  by (cases t) (auto simp: con_handle_message_def dest: con_route_advances)

function con_message_loop ::
  "conn_env \<Rightarrow> client_state \<Rightarrow> decoder \<Rightarrow> connection \<Rightarrow> (conn_error + unit) \<times> connection \<times> conn_effect list"
  where
  "con_message_loop env s d c =
     (case peek_type d of
        None \<Rightarrow> (Inr (), c, [])
      | Some t \<Rightarrow>
          (case con_handle_message env s t d c of
             (Inl err, c, e) \<Rightarrow> (Inl err, c, e)
           | (Inr d', c, e) \<Rightarrow>
               (case con_message_loop env s d' c of (r, c, e') \<Rightarrow> (r, c, e @ e'))))"
  by pat_completeness auto
termination
proof (relation "measure (\<lambda>(env, s, d, c). length (message_types (splitter d)) - off d)")
  fix env s d c t r y d' c' e
  assume "peek_type d = Some t" "(r, y) = con_handle_message env s t d c" "r = Inr d'" "(c', e) = y"
  then have "d' = d\<lparr>off := off d + 1\<rparr>"
    using con_handle_message_advances [of env s t d c d' c' e] by simp
  moreover have "off d < length (message_types (splitter d))"
    using \<open>peek_type d = Some t\<close> by (simp add: peek_type_def get_nth_def split: if_splits)
  ultimately show "((env, s, d', c'), env, s, d, c) \<in>
      measure (\<lambda>(env, s, d, c). length (message_types (splitter d)) - off d)"
    by simp
qed simp

declare con_message_loop.simps [simp del]

definition on_message ::
  "conn_env \<Rightarrow> client_state \<Rightarrow> u8 list \<Rightarrow> connection \<Rightarrow> (conn_error + unit) \<times> connection \<times> conn_effect list"
  where
  "on_message env s bytes c =
     (case decoder_new (ce_inflate env) bytes of
        Inl err \<Rightarrow> (Inl (StreamErr err), c, [])
      | Inr d \<Rightarrow> con_message_loop env s d c)"

section \<open>Handlers\<close>

definition check_updates :: "conn_env \<Rightarrow> client_state \<Rightarrow> conn_act" where
  "check_updates env s c =
     (if (case (kp_id (cs_key_pair s), authed_with c) of (Some new, Some old) \<Rightarrow> new \<noteq> old | _ \<Rightarrow> False)
      then connect env c
      else
        let fid = feed_as_u64 (loc_feed (cs_location s)) in
        if (case syncing_to c of
              Some old \<Rightarrow> old \<noteq> fid
            | None \<Rightarrow> con_state c = Synced \<or> con_state c = Syncing)
        then logged (con_synchronize env fid c)
        else (c, []))"

definition then_act :: "connection \<times> conn_effect list \<Rightarrow> conn_act \<Rightarrow> connection \<times> conn_effect list" where
  "then_act r f = (case r of (c, e) \<Rightarrow> (case f c of (c, e') \<Rightarrow> (c, e @ e')))"

fun con_update :: "conn_env \<Rightarrow> client_state \<Rightarrow> conn_event \<Rightarrow> conn_act" where
  "con_update env s OpenEvent c = (reset_reconn_attempts c, [SpawnHandshake (cs_key_pair s)])"
| "con_update env s CheckUpdates c = check_updates env s c"
| "con_update env s (CloseEvent code reason) c =
     then_act (reset_socket_and_timer env c) (\<lambda>c.
       then_act
         (c, if code \<noteq> 1000 \<and> reason \<noteq> '''' then
               (if reason = ''unknown public key ID'' then [DispatchState (SetKeyID None)]
                else [LogError (JsError reason), AlertUser (JsError reason)])
             else [])
         (handle_disconnect env))"
| "con_update env s (ErrorEvent msg) c =
     then_act (reset_socket_and_timer env c) (\<lambda>c.
       then_act (c, [LogError (JsError msg)]) (con_set_state env Dropped))"
| "con_update env s TryReconnecting c = (if con_state c = Dropped then connect env c else (c, []))"
| "con_update env s (ReceiveEvent bytes) c = logged (on_message env s bytes c)"
| "con_update env s VisibilityChanged c =
     (if ce_hidden env \<or> \<not> ce_online env then
        (if con_state c = Synced then (c, []) else connect env c)
      else (c, []))"
| "con_update env s WentOnline c = connect env c"
| "con_update env s WentOffline c = handle_disconnect env c"

definition con_connected :: "subscriber \<Rightarrow> conn_act" where
  "con_connected sub c =
     (c\<lparr>subscribers := insert sub (subscribers c)\<rparr>, [NotifyState sub (con_state c)])"

definition con_disconnected :: "subscriber \<Rightarrow> connection \<Rightarrow> connection" where
  "con_disconnected sub c = c\<lparr>subscribers := subscribers c - {sub}\<rparr>"

text \<open>Errors of requests are also shown to the user.\<close>

definition con_handle_input :: "conn_env \<Rightarrow> client_state \<Rightarrow> conn_request \<Rightarrow> conn_act" where
  "con_handle_input env s req c =
     (case req of
        RegularReq msg \<Rightarrow>
          (case con_send env CatRegular msg c of
             (Inl err, e) \<Rightarrow> (c, e @ [AlertUser err, LogError err])
           | (Inr _, e) \<Rightarrow> (c, e))
      | HandshakeReq kp msg \<Rightarrow>
          if cs_key_pair s \<noteq> kp then (c, [])
          else
            (case con_send env CatHandshake msg c of
               (Inl err, e) \<Rightarrow> (c, e @ [AlertUser err, LogError err])
             | (Inr _, e) \<Rightarrow> then_act (c, e) (con_set_state env Handshaking)))"

definition con_create :: "conn_env \<Rightarrow> connection \<times> conn_effect list" where
  "con_create env = connect env connection_new"


section \<open>Reconnection\<close>

lemma reconnect_delay_bounds: "500 \<le> reconnect_delay n \<and> reconnect_delay n \<le> 64873"
proof -
  have "(500 :: nat) \<le> 500 * 3 ^ k div 2 ^ k \<and> 500 * 3 ^ k div 2 ^ k \<le> (64873 :: nat)" if "k \<le> 12" for k :: nat
  proof -
    have "k = 0 \<or> k = 1 \<or> k = 2 \<or> k = 3 \<or> k = 4 \<or> k = 5 \<or> k = 6 \<or> k = 7 \<or> k = 8 \<or> k = 9 \<or>
        k = 10 \<or> k = 11 \<or> k = 12"
      using that by presburger
    then show ?thesis by (elim disjE) simp_all
  qed
  then show ?thesis by (simp add: reconnect_delay_def Let_def)
qed

lemma con_set_state_simps [simp]:
  "con_state (fst (con_set_state env st c)) = st"
  "con_socket (fst (con_set_state env st c)) = con_socket c"
  "syncing_to (fst (con_set_state env st c)) = syncing_to c"
  "authed_with (fst (con_set_state env st c)) = authed_with c"
  "reconn_timer (fst (con_set_state env st c)) = reconn_timer c"
  "reconn_attempts (fst (con_set_state env st c)) = reconn_attempts c"
  by (simp_all add: con_set_state_def)

lemma then_act_simps [simp]:
  "fst (then_act r f) = fst (f (fst r))" "snd (then_act r f) = snd r @ snd (f (fst r))"
  by (simp_all add: then_act_def split_beta)


section \<open>Order of messages on a socket\<close>

type_synonym send_log = "(socket_id \<times> message_category) list"

definition sends :: "conn_effect list \<Rightarrow> send_log" where
  "sends es = concat (map (\<lambda>e. case e of SendSocket s cat m \<Rightarrow> [(s, cat)] | _ \<Rightarrow> []) es)"

lemma sends_append [simp]: "sends (xs @ ys) = sends xs @ sends ys"
  by (simp add: sends_def)

lemma sends_Cons [simp]:
  "sends [] = []" "sends (SendSocket s cat m # es) = (s, cat) # sends es"
  "sends (NotifyState a b # es) = sends es" "sends (OpenSocket u # es) = sends es"
  "sends (CloseSocket s # es) = sends es" "sends (SpawnHandshake k # es) = sends es"
  "sends (DispatchState r # es) = sends es" "sends (LogError err # es) = sends es"
  "sends (AlertUser err # es) = sends es"
  by (simp_all add: sends_def)

lemma sends_notify [simp]: "sends (map (\<lambda>x. NotifyState x st) xs) = []"
  by (induction xs) simp_all

text \<open>A handshake comes first on a socket, and a request to synchronise before anything else.\<close>

definition may_follow :: "send_log \<Rightarrow> socket_id \<Rightarrow> message_category \<Rightarrow> bool" where
  "may_follow before s cat \<longleftrightarrow>
     (cat = CatHandshake \<or> (s, CatHandshake) \<in> set before) \<and>
     (cat = CatRegular \<longrightarrow> (s, CatSynchronize) \<in> set before)"

definition orderly :: "send_log \<Rightarrow> bool" where
  "orderly log \<longleftrightarrow> (\<forall>i < length log. may_follow (take i log) (fst (log ! i)) (snd (log ! i)))"

lemma orderly_snoc: "orderly (log @ [(s, cat)]) \<longleftrightarrow> orderly log \<and> may_follow log s cat"
proof -
  have "may_follow (take i (log @ [(s, cat)])) (fst ((log @ [(s, cat)]) ! i)) (snd ((log @ [(s, cat)]) ! i)) \<longleftrightarrow>
      (if i < length log then may_follow (take i log) (fst (log ! i)) (snd (log ! i)) else may_follow log s cat)"
    if "i < Suc (length log)" for i
    using that by (auto simp: nth_append less_Suc_eq)
  then show ?thesis by (auto simp: orderly_def less_Suc_eq)
qed

lemma orderly_sync: "orderly log \<Longrightarrow> (s, CatSynchronize) \<in> set log \<Longrightarrow> (s, CatHandshake) \<in> set log"
proof -
  assume o: "orderly log" and "(s, CatSynchronize) \<in> set log"
  then obtain i where i: "i < length log" "log ! i = (s, CatSynchronize)"
    by (auto simp: in_set_conv_nth)
  with o have "may_follow (take i log) s CatSynchronize"
    by (auto simp: orderly_def dest!: spec [of _ i])
  then show ?thesis by (auto simp: may_follow_def dest: in_set_takeD)
qed

definition con_ok :: "send_log \<Rightarrow> connection \<Rightarrow> bool" where
  "con_ok log c \<longleftrightarrow>
     orderly log \<and>
     (\<forall>s. con_socket c = Some s \<longrightarrow>
        (con_state c = Handshaking \<longrightarrow> (s, CatHandshake) \<in> set log) \<and>
        (con_state c = Syncing \<or> con_state c = Synced \<longrightarrow> (s, CatSynchronize) \<in> set log))"

lemma con_ok_set_state:
  assumes "con_ok log c" "st \<notin> {Handshaking, Syncing, Synced}"
  shows "con_ok (log @ sends (snd (con_set_state env st c))) (fst (con_set_state env st c))"
  using assms by (auto simp: con_ok_def con_set_state_def)

lemma con_ok_no_socket: "orderly log \<Longrightarrow> con_socket c = None \<Longrightarrow> con_ok log c"
  by (simp add: con_ok_def)

lemma con_ok_frame:
  assumes "con_ok log c" "con_socket c' = con_socket c" "con_state c' = con_state c"
  shows "con_ok log c'"
  using assms by (simp add: con_ok_def)

lemma close_socket_ok:
  assumes "con_ok log c"
  shows "con_socket (fst (close_socket env c)) = None \<and> sends (snd (close_socket env c)) = [] \<and>
    con_ok log (fst (close_socket env c))"
  using assms by (simp add: close_socket_def con_ok_def split: option.splits)

lemma connect_ok:
  assumes "con_ok log c"
  shows "con_ok (log @ sends (snd (connect env c))) (fst (connect env c))"
proof -
  obtain c1 e1 where c1: "close_socket env c = (c1, e1)" by fastforce
  have f: "con_socket c1 = None" "sends e1 = []" "orderly log"
    using close_socket_ok [OF assms, of env] c1 assms by (auto simp: con_ok_def)
  then show ?thesis
    by (auto simp: connect_def c1 con_ok_no_socket con_ok_def con_set_state_def reset_reconn_timer_def
        split: sum.splits)
qed

lemma con_send_ok:
  assumes "con_ok log c" "con_send env cat msg c = (Inr u, e)"
  shows "\<exists>s. con_socket c = Some s \<and> sends e = [(s, cat)] \<and> orderly (log @ sends e)"
proof -
  obtain s where s: "con_socket c = Some s" "can_send (con_state c) cat" "sends e = [(s, cat)]"
    using assms(2) by (auto simp: con_send_def split: option.splits if_splits)
  have "may_follow log s cat"
    using assms(1) s(1,2) orderly_sync [of log s]
    by (auto simp: con_ok_def may_follow_def can_send_def split: conn_fsm.splits)
  with s assms(1) show ?thesis by (simp add: orderly_snoc con_ok_def)
qed

lemma con_send_fail: "con_send env cat msg c = (Inl err, e) \<Longrightarrow> sends e = []"
  by (auto simp: con_send_def split: option.splits if_splits)

lemma con_synchronize_ok:
  assumes "con_ok log c"
  shows "con_ok (log @ sends (snd (logged (con_synchronize env fid c)))) (fst (logged (con_synchronize env fid c)))"
proof (cases "encode (ce_deflate env) (ce_ser env) Synchronize (CPSynchronize fid)")
  case (Inl err)
  with assms show ?thesis by (simp add: con_synchronize_def logged_def)
next
  case (Inr msg)
  obtain r e where m: "con_send env CatSynchronize msg c = (r, e)" by fastforce
  show ?thesis
  proof (cases r)
    case (Inl err)
    with Inr m assms con_send_fail show ?thesis by (auto simp: con_synchronize_def logged_def)
  next
    case r: (Inr u)
    from con_send_ok [OF assms] m r obtain s where
      "con_socket c = Some s" "sends e = [(s, CatSynchronize)]" "orderly (log @ sends e)" by blast
    with Inr m r show ?thesis
      by (auto simp: con_synchronize_def logged_def con_set_state_def con_ok_def)
  qed
qed


lemma con_synchronize_socket:
  "con_socket (fst (logged (con_synchronize env fid c))) = con_socket c"
  by (auto simp: con_synchronize_def logged_def con_set_state_def split: sum.splits prod.splits)

text \<open>
  What the agent relies on: the server confirms a synchronisation only on a socket on which it
  was asked for one.
\<close>

definition asked_sync :: "send_log \<Rightarrow> connection \<Rightarrow> bool" where
  "asked_sync log c \<longleftrightarrow> (\<forall>s. con_socket c = Some s \<longrightarrow> (s, CatSynchronize) \<in> set log)"

lemma on_handshake_ok:
  assumes "con_ok log c"
  shows "con_ok (log @ sends (snd (on_handshake env s res c))) (fst (on_handshake env s res c)) \<and>
    con_socket (fst (on_handshake env s res c)) = con_socket c"
proof -
  let ?c = "c\<lparr>authed_with := Some (hr_id res)\<rparr>"
  have ok: "con_ok log ?c"
    using assms by (rule con_ok_frame) simp_all
  then show ?thesis
    using con_synchronize_ok [OF ok, of env] con_synchronize_socket [of env _ ?c]
    by (simp add: on_handshake_def Let_def split_beta)
qed

lemma con_handle_message_ok:
  assumes "con_ok log c" "t = Synchronize \<Longrightarrow> asked_sync log c"
    and "con_handle_message env s t d c = (r, c', e)"
  shows "con_ok (log @ sends e) c' \<and> con_socket c' = con_socket c"
proof (cases t)
  case Synchronize
  with assms show ?thesis
    by (auto simp: con_handle_message_def con_route_def on_sync_def con_set_state_def con_ok_def
        asked_sync_def split: prod.splits sum.splits if_splits)
next
  case Handshake
  with assms show ?thesis
    using on_handshake_ok [OF assms(1)]
    by (auto simp: con_handle_message_def con_route_def split: prod.splits sum.splits)
      (metis fst_conv snd_conv)+
qed (use assms in \<open>auto simp: con_handle_message_def con_route_def on_thread_ack_def
       split: prod.splits sum.splits\<close>)

lemma con_message_loop_ok:
  assumes "con_ok log c" "con_message_loop env s d c = (r, c', e)"
    and "Synchronize \<in> set (message_types (splitter d)) \<Longrightarrow> asked_sync log c"
  shows "con_ok (log @ sends e) c'"
  using assms
proof (induction env s d c arbitrary: log r c' e rule: con_message_loop.induct)
  case (1 env s d c)
  show ?case
  proof (cases "peek_type d")
    case None
    with "1.prems" show ?thesis by (simp add: con_message_loop.simps [of env s d])
  next
    case (Some t)
    obtain r1 c1 e1 where h: "con_handle_message env s t d c = (r1, c1, e1)"
      by (rule prod_cases3)
    have "t \<in> set (message_types (splitter d))"
      using Some by (auto simp: peek_type_def get_nth_def split: if_splits)
    then have ok1: "con_ok (log @ sends e1) c1" and soc: "con_socket c1 = con_socket c"
      using con_handle_message_ok [OF "1.prems"(1) _ h] "1.prems"(3) by blast+
    show ?thesis
    proof (cases r1)
      case (Inl err)
      with "1.prems"(2) Some h ok1 show ?thesis by (simp add: con_message_loop.simps [of env s d])
    next
      case (Inr d')
      then have d': "d' = d\<lparr>off := off d + 1\<rparr>"
        using h con_handle_message_advances by blast
      obtain r2 c2 e2 where l: "con_message_loop env s d' c1 = (r2, c2, e2)"
        by (rule prod_cases3)
      have "c' = c2" "e = e1 @ e2"
        using "1.prems"(2) Some h Inr l by (simp_all add: con_message_loop.simps [of env s d])
      moreover have "con_ok ((log @ sends e1) @ sends e2) c2"
      proof (rule "1.IH" [OF Some h [symmetric] Inr refl ok1 l])
        assume "Synchronize \<in> set (message_types (splitter d'))"
        then show "asked_sync (log @ sends e1) c1"
          using "1.prems"(3) d' soc by (auto simp: asked_sync_def)
      qed
      ultimately show ?thesis by simp
    qed
  qed
qed


datatype con_input =
    ConEvent conn_event
  | ConRequest conn_request
  | ConJoin subscriber
  | ConLeave subscriber

fun con_step :: "conn_env \<Rightarrow> client_state \<Rightarrow> con_input \<Rightarrow> conn_act" where
  "con_step env s (ConEvent ev) c = con_update env s ev c"
| "con_step env s (ConRequest req) c = con_handle_input env s req c"
| "con_step env s (ConJoin sub) c = con_connected sub c"
| "con_step env s (ConLeave sub) c = (con_disconnected sub c, [])"

text \<open>
  The states of the agent with what it has sent so far. The browser and the state of the client
  may be different at every step.
\<close>

inductive con_reachable :: "connection \<Rightarrow> send_log \<Rightarrow> bool" where
  create: "con_create env = (c, e) \<Longrightarrow> con_reachable c (sends e)"
| step: "con_reachable c log \<Longrightarrow> con_step env s i c = (c', e) \<Longrightarrow>
    (\<And>bytes d. i = ConEvent (ReceiveEvent bytes) \<Longrightarrow> decoder_new (ce_inflate env) bytes = Inr d \<Longrightarrow>
       Synchronize \<in> set (message_types (splitter d)) \<Longrightarrow> asked_sync log c) \<Longrightarrow>
    con_reachable c' (log @ sends e)"

lemma reset_socket_and_timer_ok:
  assumes "con_ok log c"
  shows "sends (snd (reset_socket_and_timer env c)) = [] \<and>
    con_socket (fst (reset_socket_and_timer env c)) = None"
  using close_socket_ok [OF assms, of env]
  by (simp add: reset_socket_and_timer_def reset_reconn_timer_def split_beta)

lemma handle_disconnect_ok:
  "con_ok log c \<Longrightarrow> con_ok (log @ sends (snd (handle_disconnect env c))) (fst (handle_disconnect env c))"
  unfolding handle_disconnect_def Let_def
  by (rule con_ok_set_state, erule con_ok_frame) simp_all

lemma con_update_ok:
  assumes "con_ok log c"
    and "\<And>bytes d. ev = ReceiveEvent bytes \<Longrightarrow> decoder_new (ce_inflate env) bytes = Inr d \<Longrightarrow>
       Synchronize \<in> set (message_types (splitter d)) \<Longrightarrow> asked_sync log c"
  shows "con_ok (log @ sends (snd (con_update env s ev c))) (fst (con_update env s ev c))"
proof (cases ev)
  case OpenEvent
  with assms(1) show ?thesis
    by (simp add: con_ok_def reset_reconn_attempts_def reset_reconn_timer_def)
next
  case CheckUpdates
  with assms(1) show ?thesis
    by (simp add: check_updates_def connect_ok con_synchronize_ok Let_def)
next
  case (CloseEvent code reason)
  have "con_ok log (fst (reset_socket_and_timer env c))"
    using reset_socket_and_timer_ok [OF assms(1), of env] assms(1)
    by (intro con_ok_no_socket) (simp_all add: con_ok_def)
  from handle_disconnect_ok [OF this, of env] show ?thesis
    using CloseEvent reset_socket_and_timer_ok [OF assms(1), of env] by simp
next
  case (ErrorEvent msg)
  have "con_ok log (fst (reset_socket_and_timer env c))"
    using reset_socket_and_timer_ok [OF assms(1), of env] assms(1)
    by (intro con_ok_no_socket) (simp_all add: con_ok_def)
  from con_ok_set_state [OF this, of Dropped env] show ?thesis
    using ErrorEvent reset_socket_and_timer_ok [OF assms(1), of env] by simp
next
  case (ReceiveEvent bytes)
  show ?thesis
  proof (cases "decoder_new (ce_inflate env) bytes")
    case (Inl err)
    with ReceiveEvent assms(1) show ?thesis by (simp add: on_message_def logged_def)
  next
    case (Inr d)
    obtain r c' e where l: "con_message_loop env s d c = (r, c', e)"
      by (rule prod_cases3)
    have "con_ok (log @ sends e) c'"
      using con_message_loop_ok [OF assms(1) l] assms(2) ReceiveEvent Inr by blast
    with ReceiveEvent Inr l show ?thesis
      by (cases r) (simp_all add: on_message_def logged_def)
  qed
qed (use assms(1) in \<open>simp_all add: connect_ok handle_disconnect_ok\<close>)

lemma con_handle_input_ok:
  assumes "con_ok log c"
  shows "con_ok (log @ sends (snd (con_handle_input env s req c))) (fst (con_handle_input env s req c))"
proof (cases req)
  case (RegularReq msg)
  obtain r e where m: "con_send env CatRegular msg c = (r, e)" by fastforce
  with RegularReq assms con_send_ok [OF assms, of env CatRegular msg] con_send_fail [of env CatRegular msg c]
  show ?thesis by (cases r) (fastforce simp: con_handle_input_def con_ok_def)+
next
  case (HandshakeReq kp msg)
  obtain r e where m: "con_send env CatHandshake msg c = (r, e)" by fastforce
  with HandshakeReq assms con_send_ok [OF assms, of env CatHandshake msg]
    con_send_fail [of env CatHandshake msg c]
  show ?thesis by (cases r) (fastforce simp: con_handle_input_def con_ok_def con_set_state_def)+
qed

lemma con_reachable_ok: "con_reachable c log \<Longrightarrow> con_ok log c"
proof (induction rule: con_reachable.induct)
  case (create env c e)
  have "con_ok [] connection_new"
    by (simp add: con_ok_def connection_new_def orderly_def)
  from connect_ok [OF this, of env] create show ?case by (simp add: con_create_def)
next
  case (step c log env s i c' e)
  show ?case
  proof (cases i)
    case (ConEvent ev)
    with step con_update_ok [OF step.IH, of ev env s] show ?thesis by auto
  next
    case (ConRequest req)
    with step con_handle_input_ok [OF step.IH, of env s req] show ?thesis by auto
  qed (use step in \<open>auto simp: con_connected_def con_disconnected_def intro: con_ok_frame\<close>)
qed

text \<open>
  C29: the client keeps the order of the protocol. On every socket the agent ever opens, through
  all reconnects, key changes and feed changes, the first message is a handshake, and no regular
  message is sent before a request to synchronise.
\<close>

theorem client_messages_in_order:
  assumes "con_reachable c log" "i < length log" "log ! i = (s, cat)" "cat \<noteq> CatHandshake"
  shows "(s, CatHandshake) \<in> set (take i log) \<and>
         (cat \<noteq> CatRegular \<or> (s, CatSynchronize) \<in> set (take i log))"
  using con_reachable_ok [OF assms(1)] assms(2-4)
  by (auto simp: con_ok_def orderly_def may_follow_def dest!: spec [of _ i])

text \<open>
  A close event that arrives late, from a socket already replaced, takes the new one down: the
  handler does not look which socket closed.
\<close>

lemma late_close_drops_new_socket:
  assumes "ce_online env" "socket_url env = Inr u" "ce_open env u = Inr sock"
    and "connect env c = (c1, e1)" "con_update env s (CloseEvent code reason) c1 = (c2, e2)"
  shows "con_socket c1 = Some sock \<and> con_socket c2 = None \<and> con_state c2 = Dropped \<and>
    CloseSocket sock \<in> set e2"
proof -
  have c1: "con_socket c1 = Some sock"
    using assms(1-4)
    by (auto simp: connect_def close_socket_def con_set_state_def reset_reconn_timer_def split: if_splits)
  then show ?thesis
    using arg_cong [OF assms(5), of fst] arg_cong [OF assms(5), of snd]
    by (auto simp: handle_disconnect_def reset_socket_and_timer_def close_socket_def
        reset_reconn_timer_def Let_def)
qed

section \<open>A small connection\<close>

definition demo_conn_env :: conn_env where
  "demo_conn_env =
     \<lparr>ce_online = True, ce_hidden = False, ce_protocol = ''https:'', ce_host = ''a'',
      ce_open = \<lambda>_. Inr 0, ce_send = \<lambda>_ _. None, ce_close = \<lambda>_. None, ce_sign = \<lambda>_ bs. Inr bs,
      ce_deflate = store_deflate, ce_inflate = store_inflate, ce_ser = \<lambda>_. ([[1]], None),
      ce_de_u64 = \<lambda>_. Inr 1, ce_de_handshake = \<lambda>_. Inr \<lparr>need_resend = False, hr_id = 7\<rparr>,
      ce_de_feed = \<lambda>_. Inl [], ce_ord = sorted_list_of_set\<rparr>"

definition demo_handshake_sent :: connection where
  "demo_handshake_sent =
     fst (con_handle_input demo_conn_env client_state_default (HandshakeReq key_pair_default [2])
       (fst (con_create demo_conn_env)))"


theorem client_messages_in_order_witness:
  "\<exists>c. con_reachable c [(0, CatHandshake), (0, CatSynchronize)] \<and>
     (0, CatHandshake) \<in> set (take 1 [(0 :: socket_id, CatHandshake), (0, CatSynchronize)])"
proof -
  let ?e = demo_conn_env and ?s = client_state_default
  have r0: "con_reachable (fst (con_create ?e)) []"
    using con_reachable.create [of ?e "fst (con_create ?e)" "snd (con_create ?e)"]
    by (simp add: con_create_def connect_def close_socket_def connection_new_def demo_conn_env_def
        socket_url_def con_set_state_def Let_def)
  have h: "sends (snd (con_handle_input ?e ?s (HandshakeReq key_pair_default [2]) (fst (con_create ?e)))) =
      [(0, CatHandshake)]"
    by code_simp
  have r1: "con_reachable demo_handshake_sent [(0, CatHandshake)]"
    using con_reachable.step [OF r0, of ?e ?s "ConRequest (HandshakeReq key_pair_default [2])"
        demo_handshake_sent, OF prod_eqI] h
    by (simp add: demo_handshake_sent_def)
  define c2 where "c2 = con_update ?e ?s (ReceiveEvent [0, HEADER, 0, 5]) demo_handshake_sent"
  have s2: "sends (snd c2) = [(0, CatSynchronize)]"
    unfolding c2_def by code_simp
  have ty: "Synchronize \<notin> set (message_types (splitter d))"
    if "decoder_new store_inflate [0, HEADER, 0, 5] = Inr d" for d
  proof -
    have "(case decoder_new store_inflate [0, HEADER, 0, 5] of
        Inr d \<Rightarrow> Synchronize \<notin> set (message_types (splitter d)) | Inl _ \<Rightarrow> True)"
      by code_simp
    with that show ?thesis by simp
  qed
  have r2: "con_reachable (fst c2) ([(0, CatHandshake)] @ sends (snd c2))"
    by (rule con_reachable.step [OF r1, of ?e ?s "ConEvent (ReceiveEvent [0, HEADER, 0, 5])"])
      (use ty in \<open>auto simp: c2_def demo_conn_env_def\<close>)
  from r2 s2 have "con_reachable (fst c2) [(0, CatHandshake), (0, CatSynchronize)]" by simp
  with client_messages_in_order [OF this, of 1 0 CatSynchronize] show ?thesis by auto
qed

end
