(* ===== verification/Session.thy ===== *)
theory Session
  imports Server_Client Client_Connection
begin

text \<open>
  Client and server talking to each other: a request of the connection agent
  (\<^verbatim>\<open>client/src/connection.rs\<close>) goes through the stream codec to \<^verbatim>\<open>Client::receive_message\<close>
  (\<^verbatim>\<open>websockets/websockets/src/client.rs\<close>), and the answer comes back the same way.
\<close>

text \<open>
  A message arrives: the compression is lossless, serialising does not fail, and the inflater does
  not cut its output right after a header byte.
\<close>

definition transmits :: "deflater \<Rightarrow> inflater \<Rightarrow> 'p serializer \<Rightarrow> message_type \<Rightarrow> 'p \<Rightarrow> bool" where
  "transmits dfl ifl srz t p \<longleftrightarrow>
     lossless dfl ifl \<and> (\<forall>p. snd (srz p) = None) \<and>
     (\<forall>z. dfl (enc_ops (write_messages srz (encoder_new []) [(t, p)])) = Inr z \<longrightarrow>
        pieces_ok (fst (ifl z)))"

lemma transmits_decodes:
  assumes "transmits dfl ifl srz t p"
  obtains bs where "encode dfl srz t p = Inr bs"
    "decoder_new ifl bs = Inr (decoder_of [(t, payload_bytes srz p)] 0)"
proof -
  obtain bs where "encoder_finish dfl (write_messages srz (encoder_new []) [(t, p)]) = Inr bs"
    "decodes_to ifl bs (wire_msgs srz [(t, p)])"
    using finished_stream_decodes [of dfl ifl srz "[(t, p)]"] assms by (auto simp: transmits_def)
  with that [of bs] assms show ?thesis
    by (simp add: transmits_def encode_single decodes_to_decoder wire_msgs_def)
qed

text \<open>A decoder with one message: its type, its payload, and then the end.\<close>

lemma one_message [simp]:
  "peek_type (decoder_of [m] 0) = Some (fst m)"
  "peek_type (decoder_of [m] (Suc 0)) = None"
  "de (snd m) = Inr v \<Longrightarrow> read_next de (decoder_of [m] 0) = (decoder_of [m] (Suc 0), Inr v)"
  by (simp_all add: peek_decoder_of read_decoder_of)

section \<open>Synchronisation\<close>

lemma server_synchronizes:
  assumes "conn_state c \<in> {AcceptedHandshake, Synchronizing}"
    and "decoder_new (inflate env) msg = Inr (decoder_of [(Synchronize, payload)] 0)"
    and "de_u64 env payload = Inr feed"
    and "feed = 0 \<or> thread_exists (go env) feed (w_db w) = Inr True"
    and "encode (deflate env) (ser env) Synchronize (SSynchronize feed) = Inr reply"
  shows "receive_message env msg (c, w) =
    (Inr (), c\<lparr>conn_state := Synchronizing, synced_once := True\<rparr>,
     w\<lparr>w_registry := set_client_thread (cl_id c) feed (w_registry w), w_sent := w_sent w @ [(cl_id c, reply)]\<rparr>)"
proof -
  have s: "synchronize env feed (c', w) =
      (Inr (), c'\<lparr>synced_once := True\<rparr>,
       w\<lparr>w_registry := set_client_thread (cl_id c') feed (w_registry w), w_sent := w_sent w @ [(cl_id c', reply)]\<rparr>)" for c'
    using assms(4,5)
    by (auto simp: synchronize_def abind_def alift_def aret_def aclient_def client_send_def)
  have "handle_message env Synchronize (decoder_of [(Synchronize, payload)] 0) (c, w) =
      (Inr (decoder_of [(Synchronize, payload)] (Suc 0)), c\<lparr>conn_state := Synchronizing, synced_once := True\<rparr>,
       w\<lparr>w_registry := set_client_thread (cl_id c) feed (w_registry w), w_sent := w_sent w @ [(cl_id c, reply)]\<rparr>)"
    using assms(1,3)
    by (auto simp: handle_message_def route_def aread_def abind_def aclient_def aret_def s)
  then show ?thesis
    using assms(2) by (simp add: receive_message_def abind_def alift_def receive_loop.simps)
qed

lemma client_synced:
  assumes "decoder_new (ce_inflate env) reply = Inr (decoder_of [(Synchronize, payload)] 0)"
    and "ce_de_u64 env payload = Inr (feed_as_u64 (loc_feed (cs_location s)))"
  shows "\<exists>c' e. on_message env s reply c = (Inr (), c', e) \<and> con_state c' = Synced \<and> con_socket c' = con_socket c"
proof -
  obtain c' e where c': "con_set_state env Synced c = (c', e)" by (metis surj_pair)
  then have "con_state c' = Synced" "con_socket c' = con_socket c"
    by (auto simp: con_set_state_def split: if_splits)
  moreover have "on_message env s reply c = (Inr (), c', e)"
    using assms c'
    by (simp add: on_message_def con_message_loop.simps con_handle_message_def con_route_def on_sync_def)
  ultimately show ?thesis by blast
qed

lemma con_synchronize_sends:
  assumes "con_synchronize env feed c = (Inr (), c', e)"
    and "encode (ce_deflate env) (ce_ser env) Synchronize (CPSynchronize feed) = Inr msg"
  shows "con_state c' = Syncing" "SendSocket k cat m \<in> set e \<Longrightarrow> m = msg \<and> cat = CatSynchronize"
    "\<exists>k. SendSocket k CatSynchronize msg \<in> set e"
  using assms
  by (auto simp: con_synchronize_def con_send_def con_set_state_def
      split: sum.splits option.splits if_splits prod.splits)


definition demo_at_thread :: client_state where
  "demo_at_thread = client_state_default\<lparr>cs_location := \<lparr>loc_feed = ThreadFeed 1 0, loc_focus = None\<rparr>\<rparr>"

definition demo_shaken :: connection where
  "demo_shaken = connection_new\<lparr>con_state := Handshaking, con_socket := Some 0\<rparr>"

lemma store_transmits: "transmits store_deflate store_inflate (\<lambda>_. ([[1]], None)) t p"
proof -
  have "written (enc_ops (write_messages (\<lambda>_. ([[1]], None)) (encoder_new []) [(t, p)])) =
      [HEADER, message_type_as_u8 t, 1]"
    using write_messages_plain [of "\<lambda>_. ([[1]], None)" "encoder_new []" "[(t, p)]"]
    by (simp add: encoder_new_def written_def wire_msgs_def wire_def payload_bytes_def HEADER_def)
  then show ?thesis
    by (auto simp: transmits_def lossless_store store_deflate_def store_inflate_def pieces_ok_def HEADER_def)
qed


end
