(* ===== verification/Client_Text.thy ===== *)
theory Client_Text
  imports Client_State Scheduler
begin

text \<open>
  The texts the browser client builds: country names by binary search
  (\<^verbatim>\<open>client/src/post/countries.rs\<close>), language packs with their format strings
  (\<^verbatim>\<open>client/src/lang.rs\<close>), durations (\<^verbatim>\<open>client/src/util.rs\<close>), relative times
  (\<^verbatim>\<open>client/src/time/scheduler.rs\<close>), image search links
  (\<^verbatim>\<open>client/src/post/image_search.rs\<close>) and the paths of uploaded files
  (\<^verbatim>\<open>client/src/post/common.rs\<close>). Strings are lists of UTF-8 bytes. The encoders of the
  \<^verbatim>\<open>hex\<close> and \<^verbatim>\<open>base64\<close> crates are arguments.
\<close>

section \<open>Country names\<close>

definition COUNTRIES :: "((char \<times> char) \<times> string) list" where
  "COUNTRIES =
     [((CHR ''a'', CHR ''d''), ''Andorra''),
      ((CHR ''a'', CHR ''e''), ''United Arab Emirates''),
      ((CHR ''a'', CHR ''f''), ''Afghanistan''),
      ((CHR ''a'', CHR ''g''), ''Antigua and Barbuda''),
      ((CHR ''a'', CHR ''i''), ''Anguilla''),
      ((CHR ''a'', CHR ''l''), ''Albania''),
      ((CHR ''a'', CHR ''m''), ''Armenia''),
      ((CHR ''a'', CHR ''o''), ''Angola''),
      ((CHR ''a'', CHR ''q''), ''Antarctica''),
      ((CHR ''a'', CHR ''r''), ''Argentina''),
      ((CHR ''a'', CHR ''s''), ''American Samoa''),
      ((CHR ''a'', CHR ''t''), ''Austria''),
      ((CHR ''a'', CHR ''u''), ''Australia''),
      ((CHR ''a'', CHR ''w''), ''Aruba''),
      ((CHR ''a'', CHR ''x''), ''Aland Islands''),
      ((CHR ''a'', CHR ''z''), ''Azerbaijan''),
      ((CHR ''b'', CHR ''a''), ''Bosnia and Herzegovina''),
      ((CHR ''b'', CHR ''b''), ''Barbados''),
      ((CHR ''b'', CHR ''d''), ''Bangladesh''),
      ((CHR ''b'', CHR ''e''), ''Belgium''),
      ((CHR ''b'', CHR ''f''), ''Burkina Faso''),
      ((CHR ''b'', CHR ''g''), ''Bulgaria''),
      ((CHR ''b'', CHR ''h''), ''Bahrain''),
      ((CHR ''b'', CHR ''i''), ''Burundi''),
      ((CHR ''b'', CHR ''j''), ''Benin''),
      ((CHR ''b'', CHR ''l''), ''Saint Barth'' @ [CHR 0xC3, CHR 0xA9] @ ''lemy''),
      ((CHR ''b'', CHR ''m''), ''Bermuda''),
      ((CHR ''b'', CHR ''n''), ''Brunei Darussalam''),
      ((CHR ''b'', CHR ''o''), ''Bolivia''),
      ((CHR ''b'', CHR ''q''), ''Bonaire''),
      ((CHR ''b'', CHR ''r''), ''Brazil''),
      ((CHR ''b'', CHR ''s''), ''Bahamas''),
      ((CHR ''b'', CHR ''t''), ''Bhutan''),
      ((CHR ''b'', CHR ''v''), ''Bouvet Island''),
      ((CHR ''b'', CHR ''w''), ''Botswana''),
      ((CHR ''b'', CHR ''y''), ''Belarus''),
      ((CHR ''b'', CHR ''z''), ''Belize''),
      ((CHR ''c'', CHR ''a''), ''Canada''),
      ((CHR ''c'', CHR ''c''), ''Cocos (Keeling) Islands''),
      ((CHR ''c'', CHR ''d''), ''Congo''),
      ((CHR ''c'', CHR ''f''), ''Central African Republic''),
      ((CHR ''c'', CHR ''g''), ''Congo''),
      ((CHR ''c'', CHR ''h''), ''Switzerland''),
      ((CHR ''c'', CHR ''i''), ''Cote d'Ivoire !''),
      ((CHR ''c'', CHR ''k''), ''Cook Islands''),
      ((CHR ''c'', CHR ''l''), ''Chile''),
      ((CHR ''c'', CHR ''m''), ''Cameroon''),
      ((CHR ''c'', CHR ''n''), ''China''),
      ((CHR ''c'', CHR ''o''), ''Colombia''),
      ((CHR ''c'', CHR ''r''), ''Costa Rica''),
      ((CHR ''c'', CHR ''u''), ''Cuba''),
      ((CHR ''c'', CHR ''v''), ''Cabo Verde''),
      ((CHR ''c'', CHR ''w''), ''Cura'' @ [CHR 0xC3, CHR 0xA7] @ ''ao''),
      ((CHR ''c'', CHR ''x''), ''Christmas Island''),
      ((CHR ''c'', CHR ''y''), ''Cyprus''),
      ((CHR ''c'', CHR ''z''), ''Czechia''),
      ((CHR ''d'', CHR ''e''), ''Germany''),
      ((CHR ''d'', CHR ''j''), ''Djibouti''),
      ((CHR ''d'', CHR ''k''), ''Denmark''),
      ((CHR ''d'', CHR ''m''), ''Dominica''),
      ((CHR ''d'', CHR ''o''), ''Dominican Republic''),
      ((CHR ''d'', CHR ''z''), ''Algeria''),
      ((CHR ''e'', CHR ''c''), ''Ecuador''),
      ((CHR ''e'', CHR ''e''), ''Estonia''),
      ((CHR ''e'', CHR ''g''), ''Egypt''),
      ((CHR ''e'', CHR ''h''), ''Western Sahara''),
      ((CHR ''e'', CHR ''r''), ''Eritrea''),
      ((CHR ''e'', CHR ''s''), ''Spain''),
      ((CHR ''e'', CHR ''t''), ''Ethiopia''),
      ((CHR ''f'', CHR ''i''), ''Finland''),
      ((CHR ''f'', CHR ''j''), ''Fiji''),
      ((CHR ''f'', CHR ''k''), ''Falkland Islands (Malvinas)''),
      ((CHR ''f'', CHR ''m''), ''Micronesia''),
      ((CHR ''f'', CHR ''o''), ''Faroe Islands''),
      ((CHR ''f'', CHR ''r''), ''France''),
      ((CHR ''g'', CHR ''a''), ''Gabon''),
      ((CHR ''g'', CHR ''b''), ''United Kingdom''),
      ((CHR ''g'', CHR ''d''), ''Grenada''),
      ((CHR ''g'', CHR ''e''), ''Georgia''),
      ((CHR ''g'', CHR ''f''), ''French Guiana''),
      ((CHR ''g'', CHR ''g''), ''Guernsey''),
      ((CHR ''g'', CHR ''h''), ''Ghana''),
      ((CHR ''g'', CHR ''i''), ''Gibraltar''),
      ((CHR ''g'', CHR ''l''), ''Greenland''),
      ((CHR ''g'', CHR ''m''), ''Gambia''),
      ((CHR ''g'', CHR ''n''), ''Guinea''),
      ((CHR ''g'', CHR ''p''), ''Guadeloupe''),
      ((CHR ''g'', CHR ''q''), ''Equatorial Guinea''),
      ((CHR ''g'', CHR ''r''), ''Greece''),
      ((CHR ''g'', CHR ''s''), ''South Georgia and the South Sandwich Islands''),
      ((CHR ''g'', CHR ''t''), ''Guatemala''),
      ((CHR ''g'', CHR ''u''), ''Guam''),
      ((CHR ''g'', CHR ''w''), ''Guinea-Bissau''),
      ((CHR ''g'', CHR ''y''), ''Guyana''),
      ((CHR ''h'', CHR ''k''), ''Hong Kong''),
      ((CHR ''h'', CHR ''m''), ''Heard Island and McDonald Islands''),
      ((CHR ''h'', CHR ''n''), ''Honduras''),
      ((CHR ''h'', CHR ''r''), ''Croatia''),
      ((CHR ''h'', CHR ''t''), ''Haiti''),
      ((CHR ''h'', CHR ''u''), ''Hungary''),
      ((CHR ''i'', CHR ''d''), ''Indonesia''),
      ((CHR ''i'', CHR ''e''), ''Ireland''),
      ((CHR ''i'', CHR ''l''), ''Israel''),
      ((CHR ''i'', CHR ''m''), ''Isle of Man''),
      ((CHR ''i'', CHR ''n''), ''India''),
      ((CHR ''i'', CHR ''o''), ''British Indian Ocean Territory''),
      ((CHR ''i'', CHR ''q''), ''Iraq''),
      ((CHR ''i'', CHR ''r''), ''Iran''),
      ((CHR ''i'', CHR ''s''), ''Iceland''),
      ((CHR ''i'', CHR ''t''), ''Italy''),
      ((CHR ''j'', CHR ''e''), ''Jersey''),
      ((CHR ''j'', CHR ''m''), ''Jamaica''),
      ((CHR ''j'', CHR ''o''), ''Jordan''),
      ((CHR ''j'', CHR ''p''), ''Japan''),
      ((CHR ''k'', CHR ''e''), ''Kenya''),
      ((CHR ''k'', CHR ''g''), ''Kyrgyzstan''),
      ((CHR ''k'', CHR ''h''), ''Cambodia''),
      ((CHR ''k'', CHR ''i''), ''Kiribati''),
      ((CHR ''k'', CHR ''m''), ''Comoros''),
      ((CHR ''k'', CHR ''n''), ''Saint Kitts and Nevis''),
      ((CHR ''k'', CHR ''p''), ''Democratic People's Republic of Korea''),
      ((CHR ''k'', CHR ''r''), ''Republic of Korea''),
      ((CHR ''k'', CHR ''w''), ''Kuwait''),
      ((CHR ''k'', CHR ''y''), ''Cayman Islands''),
      ((CHR ''k'', CHR ''z''), ''Kazakhstan''),
      ((CHR ''l'', CHR ''a''), ''Lao People's Democratic Republic''),
      ((CHR ''l'', CHR ''b''), ''Lebanon''),
      ((CHR ''l'', CHR ''c''), ''Saint Lucia''),
      ((CHR ''l'', CHR ''i''), ''Liechtenstein''),
      ((CHR ''l'', CHR ''k''), ''Sri Lanka''),
      ((CHR ''l'', CHR ''r''), ''Liberia''),
      ((CHR ''l'', CHR ''s''), ''Lesotho''),
      ((CHR ''l'', CHR ''t''), ''Lithuania''),
      ((CHR ''l'', CHR ''u''), ''Luxembourg''),
      ((CHR ''l'', CHR ''v''), ''Latvia''),
      ((CHR ''l'', CHR ''y''), ''Libya''),
      ((CHR ''m'', CHR ''a''), ''Morocco''),
      ((CHR ''m'', CHR ''c''), ''Monaco''),
      ((CHR ''m'', CHR ''d''), ''Moldova''),
      ((CHR ''m'', CHR ''e''), ''Montenegro''),
      ((CHR ''m'', CHR ''f''), ''Saint Martin (French part)''),
      ((CHR ''m'', CHR ''g''), ''Madagascar''),
      ((CHR ''m'', CHR ''h''), ''Marshall Islands''),
      ((CHR ''m'', CHR ''k''), ''Macedonia''),
      ((CHR ''m'', CHR ''l''), ''Mali''),
      ((CHR ''m'', CHR ''m''), ''Myanmar''),
      ((CHR ''m'', CHR ''n''), ''Mongolia''),
      ((CHR ''m'', CHR ''o''), ''Macao''),
      ((CHR ''m'', CHR ''p''), ''Northern Mariana Islands''),
      ((CHR ''m'', CHR ''q''), ''Martinique''),
      ((CHR ''m'', CHR ''r''), ''Mauritania''),
      ((CHR ''m'', CHR ''s''), ''Montserrat''),
      ((CHR ''m'', CHR ''t''), ''Malta''),
      ((CHR ''m'', CHR ''u''), ''Mauritius''),
      ((CHR ''m'', CHR ''v''), ''Maldives''),
      ((CHR ''m'', CHR ''w''), ''Malawi''),
      ((CHR ''m'', CHR ''x''), ''Mexico''),
      ((CHR ''m'', CHR ''y''), ''Malaysia''),
      ((CHR ''m'', CHR ''z''), ''Mozambique''),
      ((CHR ''n'', CHR ''a''), ''Namibia''),
      ((CHR ''n'', CHR ''c''), ''New Caledonia''),
      ((CHR ''n'', CHR ''e''), ''Niger''),
      ((CHR ''n'', CHR ''f''), ''Norfolk Island''),
      ((CHR ''n'', CHR ''g''), ''Nigeria''),
      ((CHR ''n'', CHR ''i''), ''Nicaragua''),
      ((CHR ''n'', CHR ''l''), ''Netherlands''),
      ((CHR ''n'', CHR ''o''), ''Norway''),
      ((CHR ''n'', CHR ''p''), ''Nepal''),
      ((CHR ''n'', CHR ''r''), ''Nauru''),
      ((CHR ''n'', CHR ''u''), ''Niue''),
      ((CHR ''n'', CHR ''z''), ''New Zealand''),
      ((CHR ''o'', CHR ''m''), ''Oman''),
      ((CHR ''p'', CHR ''a''), ''Panama''),
      ((CHR ''p'', CHR ''e''), ''Peru''),
      ((CHR ''p'', CHR ''f''), ''French Polynesia''),
      ((CHR ''p'', CHR ''g''), ''Papua New Guinea''),
      ((CHR ''p'', CHR ''h''), ''Philippines''),
      ((CHR ''p'', CHR ''k''), ''Pakistan''),
      ((CHR ''p'', CHR ''l''), ''Poland''),
      ((CHR ''p'', CHR ''m''), ''Saint Pierre and Miquelon''),
      ((CHR ''p'', CHR ''n''), ''Pitcairn''),
      ((CHR ''p'', CHR ''r''), ''Puerto Rico''),
      ((CHR ''p'', CHR ''s''), ''Palestine''),
      ((CHR ''p'', CHR ''t''), ''Portugal''),
      ((CHR ''p'', CHR ''w''), ''Palau''),
      ((CHR ''p'', CHR ''y''), ''Paraguay''),
      ((CHR ''q'', CHR ''a''), ''Qatar''),
      ((CHR ''r'', CHR ''e''), ''Reunion !''),
      ((CHR ''r'', CHR ''o''), ''Romania''),
      ((CHR ''r'', CHR ''s''), ''Serbia''),
      ((CHR ''r'', CHR ''u''), ''Russian Federation''),
      ((CHR ''r'', CHR ''w''), ''Rwanda''),
      ((CHR ''s'', CHR ''a''), ''Saudi Arabia''),
      ((CHR ''s'', CHR ''b''), ''Solomon Islands''),
      ((CHR ''s'', CHR ''c''), ''Seychelles''),
      ((CHR ''s'', CHR ''d''), ''Sudan''),
      ((CHR ''s'', CHR ''e''), ''Sweden''),
      ((CHR ''s'', CHR ''g''), ''Singapore''),
      ((CHR ''s'', CHR ''h''), ''Saint Helena''),
      ((CHR ''s'', CHR ''i''), ''Slovenia''),
      ((CHR ''s'', CHR ''j''), ''Svalbard and Jan Mayen''),
      ((CHR ''s'', CHR ''k''), ''Slovakia''),
      ((CHR ''s'', CHR ''l''), ''Sierra Leone''),
      ((CHR ''s'', CHR ''m''), ''San Marino''),
      ((CHR ''s'', CHR ''n''), ''Senegal''),
      ((CHR ''s'', CHR ''o''), ''Somalia''),
      ((CHR ''s'', CHR ''r''), ''Suriname''),
      ((CHR ''s'', CHR ''s''), ''South Sudan''),
      ((CHR ''s'', CHR ''t''), ''Sao Tome and Principe''),
      ((CHR ''s'', CHR ''v''), ''El Salvador''),
      ((CHR ''s'', CHR ''x''), ''Sint Maarten (Dutch part)''),
      ((CHR ''s'', CHR ''y''), ''Syrian Arab Republic''),
      ((CHR ''s'', CHR ''z''), ''Swaziland''),
      ((CHR ''t'', CHR ''c''), ''Turks and Caicos Islands''),
      ((CHR ''t'', CHR ''d''), ''Chad''),
      ((CHR ''t'', CHR ''f''), ''French Southern Territories''),
      ((CHR ''t'', CHR ''g''), ''Togo''),
      ((CHR ''t'', CHR ''h''), ''Thailand''),
      ((CHR ''t'', CHR ''j''), ''Tajikistan''),
      ((CHR ''t'', CHR ''k''), ''Tokelau''),
      ((CHR ''t'', CHR ''l''), ''Timor-Leste''),
      ((CHR ''t'', CHR ''m''), ''Turkmenistan''),
      ((CHR ''t'', CHR ''n''), ''Tunisia''),
      ((CHR ''t'', CHR ''o''), ''Tonga''),
      ((CHR ''t'', CHR ''r''), ''Turkey''),
      ((CHR ''t'', CHR ''t''), ''Trinidad and Tobago''),
      ((CHR ''t'', CHR ''v''), ''Tuvalu''),
      ((CHR ''t'', CHR ''w''), ''Taiwan''),
      ((CHR ''t'', CHR ''z''), ''Tanzania''),
      ((CHR ''u'', CHR ''a''), ''Ukraine''),
      ((CHR ''u'', CHR ''g''), ''Uganda''),
      ((CHR ''u'', CHR ''m''), ''United States Minor Outlying Islands''),
      ((CHR ''u'', CHR ''s''), ''United States of America''),
      ((CHR ''u'', CHR ''y''), ''Uruguay''),
      ((CHR ''u'', CHR ''z''), ''Uzbekistan''),
      ((CHR ''v'', CHR ''a''), ''Holy See''),
      ((CHR ''v'', CHR ''c''), ''Saint Vincent and the Grenadines''),
      ((CHR ''v'', CHR ''e''), ''Venezuela''),
      ((CHR ''v'', CHR ''g''), ''British Virgin Islands''),
      ((CHR ''v'', CHR ''i''), ''U.S. Virgin Islands''),
      ((CHR ''v'', CHR ''n''), ''Viet Nam''),
      ((CHR ''v'', CHR ''u''), ''Vanuatu''),
      ((CHR ''w'', CHR ''f''), ''Wallis and Futuna''),
      ((CHR ''w'', CHR ''s''), ''Samoa''),
      ((CHR ''y'', CHR ''e''), ''Yemen''),
      ((CHR ''y'', CHR ''t''), ''Mayotte''),
      ((CHR ''z'', CHR ''a''), ''South Africa''),
      ((CHR ''z'', CHR ''m''), ''Zambia''),
      ((CHR ''z'', CHR ''w''), ''Zimbabwe'')]"

text \<open>The order of the two-byte arrays.\<close>

definition arr_less :: "char \<times> char \<Rightarrow> char \<times> char \<Rightarrow> bool" where
  "arr_less a b \<longleftrightarrow>
     (of_char (fst a) :: u8) < of_char (fst b) \<or>
     fst a = fst b \<and> (of_char (snd a) :: u8) < of_char (snd b)"

text \<open>
  The index \<open>mid - 1\<close> underflows for \<open>mid = 0\<close>: with overflow checks this panics at once, without
  them the next index is far outside the table, which panics too.
\<close>

function name_loop ::
  "((char \<times> char) \<times> string) list \<Rightarrow> char \<times> char \<Rightarrow> nat \<Rightarrow> nat \<Rightarrow> string option run" where
  "name_loop tab arr left right =
     (if left \<le> right then
        let mid = (left + right) div 2 in
        if length tab \<le> mid then Panicked
        else if arr_less arr (fst (tab ! mid)) then
          if mid = 0 then Panicked else name_loop tab arr left (mid - 1)
        else if arr_less (fst (tab ! mid)) arr then name_loop tab arr (mid + 1) right
        else Done (Some (snd (tab ! mid)))
      else Done None)"
  by pat_completeness auto
termination
  by (relation "measure (\<lambda>(tab, arr, left, right). Suc right - left)") auto

declare name_loop.simps [simp del]

definition get_name :: "string \<Rightarrow> string option run" where
  "get_name code =
     (if length code \<noteq> 2 then Done None
      else name_loop COUNTRIES (code ! 0, code ! 1) 0 (length COUNTRIES - 1))"

subsection \<open>Correctness of the search\<close>

definition arr_num :: "char \<times> char \<Rightarrow> nat" where
  "arr_num a = 256 * of_char (fst a) + of_char (snd a)"

lemma unat_of_char: "unat (of_char c :: u8) = of_char c"
proof -
  have "(of_char c :: u8) = of_nat (of_char c)"
    by (simp add: of_nat_of_char)
  moreover have "(of_char c :: nat) < 256"
    by (rule nat_of_char_less_256)
  ultimately show ?thesis by (simp add: unat_of_nat)
qed

lemma arr_less_iff: "arr_less a b \<longleftrightarrow> arr_num a < arr_num b"
proof -
  have "(of_char (snd a) :: nat) < 256" "(of_char (snd b) :: nat) < 256"
    by (rule nat_of_char_less_256)+
  moreover have "fst a = fst b \<longleftrightarrow> (of_char (fst a) :: nat) = of_char (fst b)"
    by simp
  ultimately show ?thesis
    unfolding arr_less_def arr_num_def word_less_nat_alt unat_of_char by linarith
qed

lemma arr_num_inj: "arr_num a = arr_num b \<Longrightarrow> a = b"
proof -
  assume e: "arr_num a = arr_num b"
  have "(of_char c :: nat) < 256" for c by (rule nat_of_char_less_256)
  then have "of_char (fst a) = (of_char (fst b) :: nat)" "of_char (snd a) = (of_char (snd b) :: nat)"
    using e unfolding arr_num_def by (metis div_mult_self4 div_less mult.commute add.commute
      mod_mult_self1 mod_less add_0 zero_neq_numeral)+
  then show ?thesis by (simp add: prod_eq_iff)
qed

abbreviation table_keys :: "((char \<times> char) \<times> string) list \<Rightarrow> nat list" where
  "table_keys tab \<equiv> map (arr_num \<circ> fst) tab"

lemma sorted_table_lookup:
  assumes "sorted_wrt (<) (table_keys tab)" "i < length tab"
  shows "map_of tab (fst (tab ! i)) = Some (snd (tab ! i))"
proof -
  have "distinct (table_keys tab)"
    using assms(1) by (simp add: strict_sorted_iff)
  then have "distinct (map fst tab)"
    by (metis distinct_map map_map)
  moreover have "(fst (tab ! i), snd (tab ! i)) \<in> set tab"
    using assms(2) by simp
  ultimately show ?thesis by (rule map_of_is_SomeI)
qed

text \<open>Above the first key of a sorted table the search is the lookup.\<close>

lemma name_loop_lookup:
  assumes "sorted_wrt (<) (table_keys tab)" "tab \<noteq> []" "\<not> arr_less arr (fst (tab ! 0))"
    and "right < length tab"
    and "\<forall>i < left. i < length tab \<longrightarrow> arr_num (fst (tab ! i)) < arr_num arr"
    and "\<forall>i. right < i \<longrightarrow> i < length tab \<longrightarrow> arr_num arr < arr_num (fst (tab ! i))"
  shows "name_loop tab arr left right = Done (map_of tab arr)"
  using assms
proof (induction tab arr left right rule: name_loop.induct)
  case (1 tab arr left right)
  have mono: "arr_num (fst (tab ! i)) < arr_num (fst (tab ! j))" if "i < j" "j < length tab" for i j
    using sorted_wrt_nth_less [OF "1.prems"(1), of i j] that by simp
  define mid where "mid = (left + right) div 2"
  show ?case
  proof (cases "left \<le> right")
    case False
    have ne: "arr \<noteq> fst (tab ! i)" if "i < length tab" for i
    proof (cases "i < left")
      case True
      then show ?thesis using "1.prems"(5) that by auto
    next
      case False
      with \<open>\<not> left \<le> right\<close> have "right < i" by simp
      then show ?thesis using "1.prems"(6) that by auto
    qed
    have "map_of tab arr = None"
    proof (rule ccontr)
      assume "map_of tab arr \<noteq> None"
      then obtain v where "(arr, v) \<in> set tab" by (auto dest: map_of_SomeD)
      then obtain i where "i < length tab" "tab ! i = (arr, v)" by (auto simp: in_set_conv_nth)
      then show False using ne [of i] by simp
    qed
    with False show ?thesis by (simp add: name_loop.simps [of tab arr left right])
  next
    case True
    then have mid: "left \<le> mid" "mid \<le> right" "mid < length tab"
      using "1.prems"(4) by (auto simp: mid_def)
    consider (lt) "arr_num arr < arr_num (fst (tab ! mid))"
      | (gt) "arr_num (fst (tab ! mid)) < arr_num arr"
      | (eq) "arr = fst (tab ! mid)"
      using arr_num_inj by (metis linorder_less_linear)
    then show ?thesis
    proof cases
      case lt
      then have "mid \<noteq> 0" using "1.prems"(3) unfolding arr_less_iff by (cases mid) simp_all
      have above: "arr_num arr < arr_num (fst (tab ! i))" if "mid - 1 < i" "i < length tab" for i
      proof (cases "i = mid")
        case False
        with that have "mid < i" by simp
        then show ?thesis using lt mono [of mid i] that by simp
      qed (use lt in simp)
      have "name_loop tab arr left (mid - 1) = Done (map_of tab arr)"
        using "1.IH"(1) [OF True mid_def] lt \<open>mid \<noteq> 0\<close> mid above "1.prems" by (simp add: arr_less_iff)
      then show ?thesis
        using True lt \<open>mid \<noteq> 0\<close> mid
        by (simp add: name_loop.simps [of tab arr left right] mid_def [symmetric] arr_less_iff Let_def)
    next
      case gt
      have below: "arr_num (fst (tab ! i)) < arr_num arr" if "i < Suc mid" "i < length tab" for i
      proof (cases "i = mid")
        case False
        with that have "i < mid" by simp
        then show ?thesis using gt mono [of i mid] mid by simp
      qed (use gt in simp)
      have "name_loop tab arr (mid + 1) right = Done (map_of tab arr)"
        using "1.IH"(2) [OF True mid_def] gt mid below "1.prems" by (simp add: arr_less_iff)
      then show ?thesis
        using True gt mid
        by (simp add: name_loop.simps [of tab arr left right] mid_def [symmetric] arr_less_iff Let_def)
    next
      case eq
      then have "map_of tab arr = Some (snd (tab ! mid))"
        using sorted_table_lookup [OF "1.prems"(1) mid(3)] by simp
      moreover have "\<not> arr_less arr (fst (tab ! mid))" "\<not> arr_less (fst (tab ! mid)) arr"
        using eq by (simp_all add: arr_less_iff)
      ultimately show ?thesis
        using True mid by (simp add: name_loop.simps [of tab arr left right] mid_def [symmetric])
    qed
  qed
qed

text \<open>Below the first key the upper end of the range runs under zero.\<close>

lemma name_loop_underflow:
  assumes "sorted_wrt (<) (table_keys tab)" "arr_less arr (fst (tab ! 0))" "right < length tab"
  shows "name_loop tab arr 0 right = Panicked"
  using assms
proof (induction right rule: less_induct)
  case (less right)
  have "right div 2 < length tab" "0 < length tab"
    using less.prems(3) by (auto intro: le_less_trans)
  then have "arr_num (fst (tab ! 0)) \<le> arr_num (fst (tab ! (right div 2)))"
    using sorted_wrt_nth_less [OF less.prems(1), of 0 "right div 2"]
    by (cases "right div 2 = 0") simp_all
  then have "arr_less arr (fst (tab ! (right div 2)))"
    using less.prems(2) by (simp add: arr_less_iff)
  moreover have "name_loop tab arr 0 (right div 2 - 1) = Panicked" if "right div 2 \<noteq> 0"
    using less.IH [of "right div 2 - 1"] that less.prems by simp
  ultimately show ?case
    using less.prems(3) by (simp add: name_loop.simps [of tab arr 0 right] Let_def)
qed

text \<open>The table is sorted, so that neighbouring keys decide.\<close>

fun ascending :: "nat list \<Rightarrow> bool" where
  "ascending (x # y # xs) \<longleftrightarrow> x < y \<and> ascending (y # xs)"
| "ascending _ \<longleftrightarrow> True"

lemma ascending_sorted: "ascending xs \<Longrightarrow> sorted_wrt (<) xs"
  by (induction xs rule: ascending.induct) auto

lemma COUNTRIES_sorted: "sorted_wrt (<) (table_keys COUNTRIES)"
  by (rule ascending_sorted) (simp add: COUNTRIES_def arr_num_def)

lemma COUNTRIES_bounds: "length COUNTRIES = 249" "fst (COUNTRIES ! 0) = (CHR ''a'', CHR ''d'')"
  by (simp_all add: COUNTRIES_def)

text \<open>
  For every two-byte code from \<^verbatim>\<open>ad\<close> on, the binary search ends with exactly the entry of the
  table, or none; for every code below \<^verbatim>\<open>ad\<close> it panics, and any other length gives no name.
\<close>

theorem get_name_lookup:
  "get_name code =
     (if length code \<noteq> 2 then Done None
      else if arr_less (code ! 0, code ! 1) (CHR ''a'', CHR ''d'') then Panicked
      else Done (map_of COUNTRIES (code ! 0, code ! 1)))"
proof -
  have ne: "COUNTRIES \<noteq> []" using COUNTRIES_bounds(1) by auto
  show ?thesis
    using name_loop_underflow [OF COUNTRIES_sorted, of "(code ! 0, code ! 1)" "length COUNTRIES - 1"]
      name_loop_lookup [OF COUNTRIES_sorted ne, of "(code ! 0, code ! 1)" "length COUNTRIES - 1" 0]
    by (auto simp: get_name_def COUNTRIES_bounds)
qed

section \<open>Language packs\<close>

datatype token = TextToken string | VariableToken string

type_synonym format_str = "token list"

record language_pack =
  literals :: "string \<rightharpoonup> string"
  format_strings :: "string \<rightharpoonup> format_str"
  pack_labels :: "string \<rightharpoonup> string \<times> string"
  plurals :: "string \<rightharpoonup> string \<times> string"

definition language_pack_default :: language_pack where
  "language_pack_default =
     \<lparr>literals = Map.empty, format_strings = Map.empty, pack_labels = Map.empty,
      plurals = Map.empty\<rparr>"

text \<open>
  The visitor that splits a format string. Positions are counted in characters and used as byte
  offsets of slices, which panic inside a character or outside the string.
\<close>

lemma str_slice_length: "str_slice s i j = Some t \<Longrightarrow> length t = j - i \<and> i \<le> j \<and> j \<le> length s"
  by (auto simp: str_slice_def split: if_splits)

definition split_text :: "string \<Rightarrow> nat \<Rightarrow> (token list \<times> string) option" where
  "split_text s start =
     (if start = 0 then Some ([], s)
      else case (str_slice s 0 start, str_slice s start (length s)) of
        (Some t, Some rest) \<Rightarrow> Some ([TextToken t], rest)
      | _ \<Rightarrow> None)"

definition split_variable :: "string \<Rightarrow> nat \<Rightarrow> (token \<times> string) option" where
  "split_variable s fin =
     (case (str_slice s 1 fin, str_slice s (fin + 1) (length s)) of
        (Some v, Some rest) \<Rightarrow> Some (VariableToken (str_trim v), rest)
      | _ \<Rightarrow> None)"

lemma split_variable_shorter:
  "split_variable s fin = Some (v, rest) \<Longrightarrow> length rest < length s"
  by (auto simp: split_variable_def split: option.splits dest!: str_slice_length)

lemma split_text_shorter:
  "split_text s start = Some (ts, rest) \<Longrightarrow> length rest \<le> length s"
  by (auto simp: split_text_def split: if_splits option.splits dest!: str_slice_length)

function visit_loop :: "string \<Rightarrow> token list \<Rightarrow> format_str run" where
  "visit_loop s out =
     (if s = [] then Done out
      else case position (\<lambda>c. c = ''{'') (chars s) of
        None \<Rightarrow> Done (out @ [TextToken s])
      | Some start \<Rightarrow>
          (case split_text s start of
             None \<Rightarrow> Panicked
           | Some (ts, s') \<Rightarrow>
               (case position (\<lambda>c. c = ''}'') (chars s') of
                  None \<Rightarrow> Done (out @ ts @ [TextToken s'])
                | Some fin \<Rightarrow>
                    (case split_variable s' fin of
                       None \<Rightarrow> Panicked
                     | Some (v, rest) \<Rightarrow> visit_loop rest (out @ ts @ [v])))))"
  by pat_completeness auto
termination
  by (relation "measure (\<lambda>(s, out). length s)")
     (auto dest!: split_variable_shorter split_text_shorter)

declare visit_loop.simps [simp del]

definition visit_str :: "string \<Rightarrow> format_str run" where
  "visit_str s = visit_loop s []"

definition localize_literal :: "language_pack \<Rightarrow> string \<Rightarrow> string" where
  "localize_literal l key =
     (case literals l key of Some v \<Rightarrow> v | None \<Rightarrow> ''localization not found'')"

definition pluralize :: "language_pack \<Rightarrow> string \<Rightarrow> 'w::len word \<Rightarrow> string" where
  "pluralize l key n =
     (case plurals l key of
        Some v \<Rightarrow> if n = 1 then fst v else snd v
      | None \<Rightarrow> ''localization not found'')"

fun format_token :: "(string \<times> string) list \<Rightarrow> token \<Rightarrow> string" where
  "format_token args (TextToken t) = t"
| "format_token args (VariableToken k) =
     (case find (\<lambda>kv. fst kv = k) args of
        Some kv \<Rightarrow> snd kv
      | None \<Rightarrow> ''{'' @ k @ ''}'')"

definition localize_format :: "language_pack \<Rightarrow> string \<Rightarrow> (string \<times> string) list \<Rightarrow> string" where
  "localize_format l key args =
     (case format_strings l key of
        Some fmt \<Rightarrow> foldl (\<lambda>w t. w @ format_token args t) [] fmt
      | None \<Rightarrow> ''localization not found: '' @ key)"

fun unit_key :: "time_unit \<Rightarrow> string" where
  "unit_key Seconds = ''second''"
| "unit_key Minutes = ''minute''"
| "unit_key Hours = ''hour''"
| "unit_key Days = ''day''"
| "unit_key Months = ''month''"
| "unit_key Years = ''year''"

definition show_relative_time :: "language_pack \<Rightarrow> relative_time \<Rightarrow> string" where
  "show_relative_time l t =
     localize_format l (if is_future t then ''time_in'' else ''time_ago'')
       [(''number'', show_unsigned (relative_time.duration t)),
        (''unit'', pluralize l (unit_key (unit_of t)) (relative_time.duration t))]"

section \<open>Durations\<close>

text \<open>\<^verbatim>\<open>{:0>2}\<close>\<close>

definition pad2 :: "string \<Rightarrow> string" where
  "pad2 s = replicate (2 - length s) CHR ''0'' @ s"

definition format_duration :: "u64 \<Rightarrow> string" where
  "format_duration secs =
     (if 60 * 60 \<le> secs then pad2 (show_unsigned (secs div (60 * 60))) @ '':'' else []) @
     (if 60 \<le> secs then pad2 (show_unsigned (secs div 60)) @ '':'' else []) @
     pad2 (show_unsigned (secs mod 60))"

section \<open>Format strings\<close>

text \<open>The strings of one-byte characters, which are the ASCII strings.\<close>

definition ascii :: "string \<Rightarrow> bool" where
  "ascii s \<longleftrightarrow> list_all char_start s"

lemma ascii_simps [simp]:
  "ascii []"
  "ascii (c # s) \<longleftrightarrow> char_start c \<and> ascii s"
  "ascii (s @ t) \<longleftrightarrow> ascii s \<and> ascii t"
  by (simp_all add: ascii_def)

lemma char_start_braces [simp]: "char_start CHR ''{''" "char_start CHR ''}''"
  by (simp_all add: char_start_def)

lemma chars_ascii: "ascii s \<Longrightarrow> chars s = map (\<lambda>c. [c]) s"
proof (induction s)
  case (Cons c s)
  then show ?case
    by (cases s) (simp_all)
qed simp

lemma at_boundary_ascii: "ascii s \<Longrightarrow> at_boundary s"
  by (cases s) (simp_all add: at_boundary_def)

lemma ascii_take_drop: "ascii s \<Longrightarrow> ascii (take n s) \<and> ascii (drop n s)"
  by (metis append_take_drop_id ascii_simps(3))

lemma str_slice_ascii:
  "ascii s \<Longrightarrow> i \<le> j \<Longrightarrow> j \<le> length s \<Longrightarrow> str_slice s i j = Some (take (j - i) (drop i s))"
  using ascii_take_drop [of s] by (simp add: str_slice_def at_boundary_ascii)

lemma position_map: "position p (map f xs) = position (p \<circ> f) xs"
  by (induction xs) simp_all

lemma position_chars_ascii: "ascii s \<Longrightarrow> position (\<lambda>c. c = [d]) (chars s) = position (\<lambda>c. c = d) s"
  by (simp add: chars_ascii position_map comp_def)

text \<open>The source form of a token, and the token lists that are told apart by it.\<close>

fun token_source :: "token \<Rightarrow> string" where
  "token_source (TextToken t) = t"
| "token_source (VariableToken k) = ''{'' @ k @ ''}''"

definition format_source :: "format_str \<Rightarrow> string" where
  "format_source ts = concat (map token_source ts)"

fun format_ok :: "format_str \<Rightarrow> bool" where
  "format_ok [] \<longleftrightarrow> True"
| "format_ok (TextToken t # ts) \<longleftrightarrow>
     t \<noteq> [] \<and> ascii t \<and> CHR ''{'' \<notin> set t \<and>
     (case ts of TextToken _ # _ \<Rightarrow> False | _ \<Rightarrow> True) \<and> format_ok ts"
| "format_ok (VariableToken k # ts) \<longleftrightarrow>
     ascii k \<and> CHR ''}'' \<notin> set k \<and> str_trim k = k \<and> format_ok ts"

lemma format_source_simps [simp]:
  "format_source [] = []"
  "format_source (t # ts) = token_source t @ format_source ts"
  by (simp_all add: format_source_def)

lemma format_source_ascii: "format_ok ts \<Longrightarrow> ascii (format_source ts)"
  by (induction ts rule: format_ok.induct) auto

lemma position_first:
  "d \<notin> set us \<Longrightarrow> position (\<lambda>c. c = d) (us @ d # ws) = Some (length us)"
  by (rule position_append_cons) auto

lemma split_variable_source:
  assumes "ascii k" "ascii r"
  shows "split_variable (CHR ''{'' # k @ CHR ''}'' # r) (Suc (length k)) =
    Some (VariableToken (str_trim k), r)"
  using assms
  by (simp add: split_variable_def str_slice_ascii)

text \<open>One variable, with or without a text in front of it, is split off.\<close>

lemma visit_loop_variable:
  assumes "ascii t" "CHR ''{'' \<notin> set t" "ascii k" "CHR ''}'' \<notin> set k" "ascii r"
  shows "visit_loop (t @ ''{'' @ k @ ''}'' @ r) out =
    visit_loop r (out @ (if t = [] then [] else [TextToken t]) @ [VariableToken (str_trim k)])"
proof -
  let ?v = "CHR ''{'' # k @ CHR ''}'' # r"
  have asc: "ascii (t @ ?v)" "ascii ?v" using assms by simp_all
  have p1: "position (\<lambda>c. c = ''{'') (chars (t @ ?v)) = Some (length t)"
    using asc(1) assms(2) by (simp add: position_chars_ascii position_first)
  have st: "split_text (t @ ?v) (length t) = Some (if t = [] then [] else [TextToken t], ?v)"
    using asc(1) by (auto simp: split_text_def str_slice_ascii)
  have "position (\<lambda>c. c = ''}'') (chars ?v) = Some (Suc (length k))"
    using position_first [of "CHR ''}''" "CHR ''{'' # k" r] assms(4)
    unfolding position_chars_ascii [OF asc(2)] by simp
  then show ?thesis
    using p1 st split_variable_source [OF assms(3,5)]
    by (subst visit_loop.simps) simp
qed

lemma visit_loop_source: "format_ok ts \<Longrightarrow> visit_loop (format_source ts) out = Done (out @ ts)"
proof (induction ts arbitrary: out rule: format_ok.induct)
  case 1
  then show ?case by (simp add: visit_loop.simps)
next
  case (2 t ts)
  show ?case
  proof (cases ts)
    case Nil
    have "position (\<lambda>c. c = ''{'') (chars t) = None"
      using 2 by (auto simp: position_chars_ascii position_None_iff)
    with 2 Nil show ?thesis by (simp add: visit_loop.simps [of t])
  next
    case (Cons u us)
    with 2 obtain k where u: "u = VariableToken k" by (cases u) auto
    have k: "ascii k" "CHR ''}'' \<notin> set k" "str_trim k = k" "ascii (format_source us)"
      using 2 Cons u format_source_ascii [of us] by auto
    have "visit_loop (format_source us) (out @ [TextToken t, VariableToken k]) =
      visit_loop (format_source ts) (out @ [TextToken t])"
      using visit_loop_variable [of "[]" k "format_source us" "out @ [TextToken t]"] k Cons u by simp
    also have "\<dots> = Done (out @ TextToken t # ts)"
      using "2.IH" [of "out @ [TextToken t]"] "2.prems" by simp
    finally show ?thesis
      using visit_loop_variable [of t k "format_source us" out] "2.prems" k Cons u by simp
  qed
next
  case (3 k ts)
  then show ?case
    using visit_loop_variable [of "[]" k "format_source ts" out] format_source_ascii [of ts]
    by simp
qed

text \<open>
  Every format string is read back: splitting the source form of a list of ASCII texts and
  trimmed variables, in which no two texts are neighbours, gives that list.
\<close>

theorem format_str_roundtrip:
  assumes "format_ok ts"
  shows "visit_str (format_source ts) = Done ts"
  using visit_loop_source [OF assms, of "[]"] by (simp add: visit_str_def)

lemma time_in_ok: "format_ok [TextToken ''in '', VariableToken ''number'', TextToken '' '', VariableToken ''unit'']"
  by (simp add: char_start_def str_trim_def trim_ws_def is_whitespace_def whitespace_chars_def)

theorem format_str_roundtrip_witness:
  "visit_str ''in {number} {unit}'' =
     Done [TextToken ''in '', VariableToken ''number'', TextToken '' '', VariableToken ''unit'']"
  using format_str_roundtrip [OF time_in_ok] by simp

lemma length_chars: "length (chars s) \<le> length s"
proof (induction s rule: chars.induct)
  case (2 c cs)
  then show ?case
    using length_dropWhile_le [of "\<lambda>b. \<not> char_start b" cs] by simp
qed simp

lemma char_count_ascii: "at_boundary s \<Longrightarrow> char_count s = length s \<longleftrightarrow> ascii s"
proof (induction s rule: chars.induct)
  case (2 c cs)
  show ?case
  proof (cases "takeWhile (\<lambda>b. \<not> char_start b) cs = []")
    case True
    then have "dropWhile (\<lambda>b. \<not> char_start b) cs = cs"
      by (metis append_Nil takeWhile_dropWhile_id)
    with True 2 at_boundary_dropWhile [of cs] show ?thesis
      by (simp add: char_count_def at_boundary_def)
  next
    case False
    then have "length (dropWhile (\<lambda>b. \<not> char_start b) cs) < length cs"
      by (metis length_append length_greater_0_conv less_add_same_cancel2 takeWhile_dropWhile_id)
    moreover have "\<not> ascii cs"
      using False by (cases cs) auto
    ultimately show ?thesis
      using length_chars [of "dropWhile (\<lambda>b. \<not> char_start b) cs"] by (simp add: char_count_def)
  qed
qed (simp add: char_count_def)

lemma position_chars_prefix:
  assumes "CHR ''{'' \<notin> set t" "at_boundary r"
  shows "position (\<lambda>c. c = ''{'') (chars (t @ CHR ''{'' # r)) = Some (char_count t)"
proof -
  have "set c \<subseteq> set t" if "c \<in> set (chars t)" for c
    using that concat_chars [of t] by (metis UN_upper set_concat)
  then have "\<forall>c \<in> set (chars t). c \<noteq> ''{''"
    using assms(1) by fastforce
  moreover have "chars (t @ CHR ''{'' # r) = chars t @ ''{'' # chars r"
    using chars_append [of "CHR ''{'' # r" t] chars_append [OF assms(2), of "''{''"]
    by (simp add: at_boundary_def)
  ultimately show ?thesis
    by (simp add: position_append_cons char_count_def)
qed

lemma visit_loop_prefix: "visit_loop s out = Done ts \<Longrightarrow> \<exists>us. ts = out @ us"
proof (induction s out rule: visit_loop.induct)
  case (1 s out)
  show ?case
    using "1.prems" "1.IH"
    by (subst (asm) visit_loop.simps) (fastforce split: if_splits option.splits)
qed

text \<open>
  A format string that begins with a text and a variable is split into the two exactly when
  the text is ASCII: character positions are used as byte offsets, so that any other text is cut
  short or the split panics.
\<close>

theorem format_text_split_iff:
  assumes "at_boundary t" "t \<noteq> []" "CHR ''{'' \<notin> set t"
    and "ascii k" "CHR ''}'' \<notin> set k" "str_trim k = k"
  shows "visit_str (t @ ''{'' @ k @ ''}'') = Done [TextToken t, VariableToken k] \<longleftrightarrow> ascii t"
proof
  assume "ascii t"
  then show "visit_str (t @ ''{'' @ k @ ''}'') = Done [TextToken t, VariableToken k]"
    using visit_loop_variable [of t k "[]" "[]"] assms
    by (simp add: visit_str_def visit_loop.simps [of "[]"])
next
  let ?s = "t @ CHR ''{'' # k @ ''}''"
  assume split: "visit_str (t @ ''{'' @ k @ ''}'') = Done [TextToken t, VariableToken k]"
  show "ascii t"
  proof (rule ccontr)
    assume "\<not> ascii t"
    then have n: "char_count t < length t" "char_count t \<noteq> 0"
      using char_count_ascii [OF assms(1)] length_chars [of t] assms(2) by (auto simp: char_count_def)
    have pos: "position (\<lambda>c. c = ''{'') (chars ?s) = Some (char_count t)"
      using assms(3,4) at_boundary_ascii [of "k @ ''}''"] by (simp add: position_chars_prefix)
    have "\<exists>us. [TextToken t, VariableToken k] = TextToken (take (char_count t) t) # us"
      using split n pos visit_loop_prefix
      by (subst (asm) visit_str_def, subst (asm) visit_loop.simps)
         (fastforce simp: split_text_def str_slice_def split: if_splits option.splits)
    then have "take (char_count t) t = t" by simp
    then show False using n(1) by (metis length_take min.absorb4 nat_less_le)
  qed
qed

theorem format_text_split_iff_witness:
  "visit_str ([CHR 0xC3, CHR 0xA9] @ ''{'' @ ''unit'' @ ''}'') \<noteq>
     Done [TextToken [CHR 0xC3, CHR 0xA9], VariableToken ''unit'']"
proof -
  have "at_boundary [CHR 0xC3, CHR 0xA9]" "\<not> ascii [CHR 0xC3, CHR 0xA9]" "ascii ''unit''"
    by (simp_all add: at_boundary_def char_start_def)
  moreover have "str_trim ''unit'' = ''unit''"
    by (simp add: char_start_def str_trim_def trim_ws_def is_whitespace_def whitespace_chars_def)
  ultimately show ?thesis
    using format_text_split_iff [of "[CHR 0xC3, CHR 0xA9]" "''unit''"] by simp
qed

section \<open>Localised texts\<close>

lemma localize_format_concat:
  "format_strings l key = Some fmt \<Longrightarrow>
   localize_format l key args = concat (map (format_token args) fmt)"
proof -
  have "foldl (\<lambda>w t. w @ format_token args t) w fmt = w @ concat (map (format_token args) fmt)" for w fmt
    by (induction fmt arbitrary: w) simp_all
  then show "format_strings l key = Some fmt \<Longrightarrow> ?thesis"
    by (simp add: localize_format_def)
qed

text \<open>
  The format strings of the language packs of the repository, and units with two forms.
\<close>

definition pack_ok :: "language_pack \<Rightarrow> bool" where
  "pack_ok l \<longleftrightarrow>
     map_option Done (format_strings l ''time_ago'') = Some (visit_str ''{number} {unit} ago'') \<and>
     map_option Done (format_strings l ''time_in'') = Some (visit_str ''in {number} {unit}'') \<and>
     list_all (\<lambda>u. plurals l (unit_key u) \<noteq> None) [Seconds, Minutes, Hours, Days, Months, Years]"

lemma time_ago_ok: "format_ok [VariableToken ''number'', TextToken '' '', VariableToken ''unit'', TextToken '' ago'']"
  by (simp add: char_start_def str_trim_def trim_ws_def is_whitespace_def whitespace_chars_def)

lemma visit_time_formats:
  "visit_str ''{number} {unit} ago'' =
     Done [VariableToken ''number'', TextToken '' '', VariableToken ''unit'', TextToken '' ago'']"
  "visit_str ''in {number} {unit}'' =
     Done [TextToken ''in '', VariableToken ''number'', TextToken '' '', VariableToken ''unit'']"
  using visit_loop_source [OF time_ago_ok, of "[]"] visit_loop_source [OF time_in_ok, of "[]"]
  by (simp_all add: visit_str_def)

lemma relative_time_text:
  assumes "pack_ok l"
  shows "\<exists>one many. plurals l (unit_key (unit_of t)) = Some (one, many) \<and>
    show_relative_time l t =
      (let n = show_unsigned (relative_time.duration t);
           u = (if relative_time.duration t = 1 then one else many)
       in if is_future t then ''in '' @ n @ '' '' @ u else n @ '' '' @ u @ '' ago'')"
proof -
  obtain one many where p: "plurals l (unit_key (unit_of t)) = Some (one, many)"
    using assms by (cases "unit_of t") (auto simp: pack_ok_def)
  have "format_strings l ''time_ago'' =
      Some [VariableToken ''number'', TextToken '' '', VariableToken ''unit'', TextToken '' ago'']"
    "format_strings l ''time_in'' =
      Some [TextToken ''in '', VariableToken ''number'', TextToken '' '', VariableToken ''unit'']"
    using assms by (auto simp: pack_ok_def visit_time_formats)
  with p show ?thesis
    by (simp add: show_relative_time_def localize_format_concat pluralize_def Let_def)
qed

subsection \<open>Durations\<close>

text \<open>Hours, minutes and seconds of a duration, the larger units only when they are needed.\<close>

definition clock_text :: "nat \<Rightarrow> string" where
  "clock_text n =
     (if 3600 \<le> n then pad2 (show_nat (n div 3600)) @ '':'' else []) @
     (if 60 \<le> n then pad2 (show_nat (n div 60 mod 60)) @ '':'' else []) @
     pad2 (show_nat (n mod 60))"

lemma pad2_value: "foldl (\<lambda>n c. 10 * n + (of_char c - 48)) (0 :: nat) (pad2 (show_nat n)) = n"
proof -
  have "foldl (\<lambda>n c. 10 * n + (of_char c - 48)) (0 :: nat) (replicate m CHR ''0'') = 0" for m
    by (induction m) simp_all
  then show ?thesis by (simp add: pad2_def show_nat_value)
qed

lemma pad2_inj: "pad2 (show_nat m) = pad2 (show_nat n) \<Longrightarrow> m = n"
  by (metis pad2_value)

lemma format_duration_nat:
  "format_duration secs =
     (let n = unat secs in
      (if 3600 \<le> n then pad2 (show_nat (n div 3600)) @ '':'' else []) @
      (if 60 \<le> n then pad2 (show_nat (n div 60)) @ '':'' else []) @
      pad2 (show_nat (n mod 60)))"
  by (simp add: format_duration_def show_unsigned_def word_le_nat_alt unat_div unat_mod Let_def)

text \<open>
  A duration is shown as its hours, minutes and seconds exactly when it is below one hour;
  from one hour on the minutes are the whole duration in minutes.
\<close>

theorem format_duration_correct_iff:
  "format_duration secs = clock_text (unat secs) \<longleftrightarrow> unat secs < 3600"
proof (cases "unat secs < 3600")
  case True
  then have "unat secs div 60 mod 60 = unat secs div 60" by simp
  with True show ?thesis by (simp add: format_duration_nat clock_text_def Let_def)
next
  case False
  then have "60 \<le> unat secs div 60" "unat secs div 60 mod 60 < 60" by simp_all
  then have "unat secs div 60 \<noteq> unat secs div 60 mod 60" by linarith
  with False show ?thesis
    using pad2_inj by (auto simp: format_duration_nat clock_text_def Let_def)
qed

section \<open>Uploaded files\<close>

text \<open>\<^verbatim>\<open>hex::encode\<close> and \<^verbatim>\<open>base64::encode\<close>\<close>

record text_codecs =
  hex_encode :: "u8 list \<Rightarrow> string"
  base64_encode :: "u8 list \<Rightarrow> string"

fun provider_key :: "search_provider \<Rightarrow> string" where
  "provider_key Google = ''google''"
| "provider_key Yandex = ''yandex''"
| "provider_key IQDB = ''iqdb''"
| "provider_key SauceNao = ''saucenao''"
| "provider_key Trace = ''trace''"
| "provider_key DesuArchive = ''desuarchive''"
| "provider_key ExHentai = ''exhentai''"

fun provider_symbol :: "search_provider \<Rightarrow> string" where
  "provider_symbol Google = ''G''"
| "provider_symbol Yandex = ''Y''"
| "provider_symbol IQDB = ''IQDB''"
| "provider_symbol SauceNao = ''SN''"
| "provider_symbol Trace = ''T''"
| "provider_symbol DesuArchive = ''DA''"
| "provider_symbol ExHentai = ''EH''"

fun provider_url :: "text_codecs \<Rightarrow> search_provider \<Rightarrow> image \<Rightarrow> string \<Rightarrow> string option" where
  "provider_url enc DesuArchive img img_url =
     (if file_type (img_common img) \<in> {JPEG, PNG, GIF, WEBM}
      then Some (''https://desuarchive.org/_/search/image/'' @ base64_encode enc (md5 img))
      else None)"
| "provider_url enc ExHentai img img_url =
     (if file_type (img_common img) \<in> {JPEG, PNG}
      then Some (''http://exhentai.org/?fs_similar=1&fs_exp=1&f_shash='' @ hex_encode enc (md5 img))
      else None)"
| "provider_url enc Google img img_url =
     Some (''https://www.google.com/searchbyimage?image_url='' @ img_url)"
| "provider_url enc Yandex img img_url =
     Some (''https://yandex.com/images/search?source=collections&rpt=imageview&url='' @ img_url)"
| "provider_url enc IQDB img img_url = Some (''http://iqdb.org/?url='' @ img_url)"
| "provider_url enc SauceNao img img_url =
     Some (''http://saucenao.com/search.php?db=999&url='' @ img_url)"
| "provider_url enc Trace img img_url = Some (''https://trace.moe/?url='' @ img_url)"

definition image_root :: "client_state \<Rightarrow> string" where
  "image_root s =
     (let over = image_root_override (cs_configs s) in
      if over = [] then ''/assets/images'' else over)"

definition thumb_path :: "text_codecs \<Rightarrow> client_state \<Rightarrow> image \<Rightarrow> string" where
  "thumb_path enc s img =
     image_root s @ ''/thumb/'' @ hex_encode enc (sha1 img) @ ''.'' @
     extension (thumb_type (img_common img))"

definition source_path :: "text_codecs \<Rightarrow> client_state \<Rightarrow> image \<Rightarrow> string" where
  "source_path enc s img =
     image_root s @ ''/thumb/'' @ hex_encode enc (sha1 img) @ ''.'' @
     extension (file_type (img_common img))"

definition is_expandable :: "file_type \<Rightarrow> bool" where
  "is_expandable t \<longleftrightarrow> t \<notin> {PDF, MP3, FLAC, ZIP, SevenZip, TXZ, TGZ, TXT, RAR, CBR, CBZ}"

text \<open>
  The link to the file of an upload is the link to its thumbnail whenever the two have the same
  type: both paths point below \<^verbatim>\<open>thumb\<close>.
\<close>

theorem source_path_is_thumb_path:
  "source_path enc s img = thumb_path enc s img \<longleftrightarrow>
     file_type (img_common img) = thumb_type (img_common img)"
proof -
  have "extension a = extension b \<longleftrightarrow> a = b" for a b
    by (cases a; cases b) simp_all
  then show ?thesis by (simp add: source_path_def thumb_path_def)
qed

theorem provider_url_None_iff:
  "provider_url enc p img u = None \<longleftrightarrow>
     (p = DesuArchive \<and> file_type (img_common img) \<notin> {JPEG, PNG, GIF, WEBM} \<or>
      p = ExHentai \<and> file_type (img_common img) \<notin> {JPEG, PNG})"
  by (cases p) auto

end
