(* ===== verification/Client_Components.thy ===== *)
theory Client_Components
  imports Client_Text Client_Connection
begin

text \<open>
  The components of the browser client without the posts: the wrapper that hooks a component into
  the global state (\<^verbatim>\<open>client/src/comp_util.rs\<close>, \<^verbatim>\<open>state::hook\<close>), the page selector
  (\<^verbatim>\<open>page_selector.rs\<close>), threads and the thread index (\<^verbatim>\<open>thread.rs\<close>, \<^verbatim>\<open>thread_index.rs\<close>),
  the navigation row and the form for new threads (\<^verbatim>\<open>widgets.rs\<close>), the buttons
  (\<^verbatim>\<open>buttons.rs\<close>), countdowns and the connection indicator. A handler returns the new
  component, whether it is rendered again, and the calls it makes; a view is a tree of elements.
\<close>

section \<open>Rendered trees\<close>

text \<open>
  A callback is a function of the mouse button; it gives the message for the component and the
  requests it dispatches to the state agent. Components placed inside a tree are leaves with
  their properties. What a submitted form holds is the values of its tag inputs and its subject,
  where a value may not be a string, or the error of reading them.
\<close>

type_synonym form_data = "string + string option list \<times> string option"

type_synonym 'm callback = "nat \<Rightarrow> 'm \<times> state_request list"

datatype post_set = Last5Posts | Page u32

datatype child =
    ThreadPostChild u64
  | MenuChild u64
  | TimeViewChild u32
  | CountdownChild (cd_from: u32) (cd_to: u32)
  | PageSelectorChild u64
  | ThreadChild u64 post_set
  | NewThreadFormChild
  | AsideRowChild bool
  | ThreadsChild
  | BannerChild
  | BackgroundChild
  | SyncCounterChild

datatype 'm html =
    TextNode string
  | Elem (tag_name: string) (attributes: "(string \<times> string) list")
      (onclick: "'m callback option") (children: "'m html list")
  | Fragment "'m html list"
  | RawHtml string
  | Child child
  | Input (input_attributes: "(string \<times> string) list") (oninput: "(string \<Rightarrow> 'm) option")
      (input_onclick: "'m callback option")
  | Form (form_attributes: "(string \<times> string) list") (onsubmit: "form_data \<Rightarrow> 'm") "'m html list"

definition send_msg :: "'m \<Rightarrow> 'm callback" where
  "send_msg m = (\<lambda>_. (m, []))"

definition navigate_and :: "location \<Rightarrow> 'm \<Rightarrow> 'm callback" where
  "navigate_and loc m = (\<lambda>_. (m, [NavigateTo loc (PUSH_STATE OR SET_STATE)]))"

definition anchor :: "language_pack \<Rightarrow> string \<Rightarrow> 'm callback \<Rightarrow> 'm html" where
  "anchor l lbl cb = Elem ''a'' [] (Some cb) [TextNode (localize_literal l lbl)]"

definition span_button :: "language_pack \<Rightarrow> string \<Rightarrow> 'm callback \<Rightarrow> 'm html" where
  "span_button l lbl cb = Elem ''span'' [(''class'', ''act'')] None [anchor l lbl cb]"

definition aside_button :: "language_pack \<Rightarrow> string \<Rightarrow> 'm callback \<Rightarrow> 'm html" where
  "aside_button l lbl cb = Elem ''aside'' [(''class'', ''act glass'')] None [anchor l lbl cb]"

section \<open>Property changes\<close>

text \<open>\<^verbatim>\<open>comp_prop_change!\<close>: new properties are stored and rendered when they differ.\<close>

definition comp_prop_change :: "'p \<Rightarrow> 'p \<Rightarrow> 'p \<times> bool" where
  "comp_prop_change new old = (if old \<noteq> new then (new, True) else (old, False))"

section \<open>Hooked components\<close>

text \<open>
  The trait \<^verbatim>\<open>comp_util::Inner\<close>: what a hooked component supplies. An update may panic.
\<close>

record ('i, 'p, 'm, 'x) inner_class =
  inner_default :: 'i
  inner_init :: "'p \<Rightarrow> client_state \<Rightarrow> 'i \<Rightarrow> 'i"
  update_message :: 'm
  subscribe_to :: "'p \<Rightarrow> change list"
  inner_update :: "'p \<Rightarrow> client_state \<Rightarrow> 'm \<Rightarrow> 'i \<Rightarrow> ('i \<times> bool \<times> 'x list) run"

record ('i, 'p) hooked =
  hk_inner :: 'i
  hk_props :: 'p

definition state_hook :: "change list \<Rightarrow> state_request list" where
  "state_hook changes = (if changes = [] then [] else [NotifyChange changes])"

definition hooked_create ::
  "('i, 'p, 'm, 'x) inner_class \<Rightarrow> 'p \<Rightarrow> client_state \<Rightarrow> ('i, 'p) hooked \<times> state_request list" where
  "hooked_create cls props s =
     (\<lparr>hk_inner = inner_init cls props s (inner_default cls), hk_props = props\<rparr>,
      state_hook (subscribe_to cls props))"

definition hooked_update ::
  "('i, 'p, 'm, 'x) inner_class \<Rightarrow> client_state \<Rightarrow> 'm \<Rightarrow> ('i, 'p) hooked \<Rightarrow>
   (('i, 'p) hooked \<times> bool \<times> 'x list) run" where
  "hooked_update cls s m h =
     (case inner_update cls (hk_props h) s m (hk_inner h) of
        Done (i, rerender, es) \<Rightarrow> Done (h\<lparr>hk_inner := i\<rparr>, rerender, es)
      | Panicked \<Rightarrow> Panicked
      | Diverged \<Rightarrow> Diverged)"

definition hooked_change ::
  "('i, 'p, 'm, 'x) inner_class \<Rightarrow> 'p \<Rightarrow> ('i, 'p) hooked \<Rightarrow>
   ('i, 'p) hooked \<times> bool \<times> state_request list" where
  "hooked_change cls props h =
     (if hk_props h \<noteq> props then
        let old = subscribe_to cls (hk_props h);
            new = subscribe_to cls props
        in (h\<lparr>hk_props := props\<rparr>, True,
            if old \<noteq> new then [ChangeNotifications old new] else [])
      else (h, False, []))"

subsection \<open>Subscriptions\<close>

definition subscriptions :: "app \<Rightarrow> subscriber \<Rightarrow> change set" where
  "subscriptions w sub = {c. (c, sub) \<in> sm_rel (by_key (hooks (app_agent w)))}"

lemma rel_remove_by_key_value:
  "sm_rel (by_key (remove_by_key_value k v d)) = sm_rel (by_key d) - {(k, v)}"
  by (auto simp: remove_by_key_value_def sm_rel_by_key_remove sm_rel_iff split: option.splits)

lemma subscriptions_insert:
  "sm_rel (by_key (foldl (\<lambda>d h. dsm_insert h sub d) d hs)) =
     sm_rel (by_key d) \<union> (\<lambda>h. (h, sub)) ` set hs"
  by (induction hs arbitrary: d) (auto simp: dsm_insert_def sm_rel_insert)

lemma subscriptions_remove:
  "sm_rel (by_key (foldl (\<lambda>d h. remove_by_key_value h sub d) d hs)) =
     sm_rel (by_key d) - (\<lambda>h. (h, sub)) ` set hs"
  by (induction hs arbitrary: d) (auto simp: rel_remove_by_key_value)

text \<open>The agent takes the requests of one component in the order they were sent.\<close>

definition serve :: "browser \<Rightarrow> subscriber iter_order \<Rightarrow> subscriber \<Rightarrow> app \<Rightarrow> state_request list \<Rightarrow> app" where
  "serve br ord sub w reqs = foldl (\<lambda>w r. fst (state_handle_input br ord r sub w)) w reqs"

text \<open>A component with all property changes of its life, and the requests it sends.\<close>

definition hooked_life ::
  "('i, 'p, 'm, 'x) inner_class \<Rightarrow> client_state \<Rightarrow> 'p \<Rightarrow> 'p list \<Rightarrow> ('i, 'p) hooked \<times> state_request list" where
  "hooked_life cls s props changes =
     foldl (\<lambda>(h, reqs) p. case hooked_change cls p h of (h, _, rs) \<Rightarrow> (h, reqs @ rs))
       (hooked_create cls props s) changes"

lemma serve_append: "serve br ord sub w (xs @ ys) = serve br ord sub (serve br ord sub w xs) ys"
  by (simp add: serve_def)

lemma subscriptions_serve:
  "serve br ord sub w [] = w"
  "subscriptions (serve br ord sub w [NotifyChange new]) other =
     subscriptions w other \<union> (if other = sub then set new else {})"
  "subscriptions (serve br ord sub w [ChangeNotifications old new]) other =
     (if other = sub then (subscriptions w other - set old) \<union> set new else subscriptions w other)"
  by (auto simp: serve_def subscriptions_def state_handle_input_def subscriptions_insert
      subscriptions_remove)

lemma subscriptions_change:
  assumes "subscriptions w sub = set (subscribe_to cls (hk_props h))"
    and "hooked_change cls p h = (h', r, rs)"
  shows "subscriptions (serve br ord sub w rs) other =
    (if other = sub then set (subscribe_to cls (hk_props h')) else subscriptions w other)"
proof (cases "hk_props h = p")
  case True
  with assms show ?thesis by (simp add: hooked_change_def subscriptions_serve)
next
  case False
  then have h: "hk_props h' = p"
    and rs: "rs = (if subscribe_to cls (hk_props h) \<noteq> subscribe_to cls p
                   then [ChangeNotifications (subscribe_to cls (hk_props h)) (subscribe_to cls p)] else [])"
    using assms(2) by (auto simp: hooked_change_def Let_def)
  show ?thesis
    by (cases "subscribe_to cls (hk_props h) = subscribe_to cls p")
       (simp_all add: h rs subscriptions_serve assms(1))
qed

text \<open>
  C37: A hooked component is subscribed to exactly the changes its current properties call for:
  once the agent has served the requests of its creation and of any sequence of property changes,
  and no other subscriber is affected.
\<close>

theorem component_subscriptions_exact:
  assumes "subscriptions w sub = {}"
    and "hooked_life cls s props changes = (h, reqs)"
  shows "subscriptions (serve br ord sub w reqs) sub = set (subscribe_to cls (hk_props h)) \<and>
    hk_props h = last (props # changes) \<and>
    (\<forall>other. other \<noteq> sub \<longrightarrow> subscriptions (serve br ord sub w reqs) other = subscriptions w other)"
  using assms(2)
proof (induction changes arbitrary: h reqs rule: rev_induct)
  case Nil
  then show ?case
    using assms(1)
    by (auto simp: hooked_life_def hooked_create_def state_hook_def subscriptions_serve
        split: if_splits)
next
  case (snoc p changes)
  obtain h0 rs0 where l: "hooked_life cls s props changes = (h0, rs0)"
    by (cases "hooked_life cls s props changes")
  obtain h1 r1 rs1 where c: "hooked_change cls p h0 = (h1, r1, rs1)"
    by (cases "hooked_change cls p h0") auto
  have e: "h = h1" "reqs = rs0 @ rs1"
    using snoc.prems l c by (auto simp: hooked_life_def)
  have "hk_props h1 = p"
    using c by (auto simp: hooked_change_def Let_def split: if_splits)
  then show ?case
    using snoc.IH [OF l] subscriptions_change [OF _ c, of "serve br ord sub w rs0" sub br ord]
    by (simp add: e serve_append)
qed

section \<open>Page selector\<close>

record page_selector =
  ps_offset :: u32
  page_count :: u32

definition page_selector_default :: page_selector where
  "page_selector_default = \<lparr>ps_offset = 0, page_count = 0\<rparr>"

datatype page_message =
    ScrollPages (scroll_left: bool) (scroll_to_end: bool)
  | SelectPage u32
  | ThreadUpdate
  | PageNop

definition fetch_page_count :: "u64 \<Rightarrow> client_state \<Rightarrow> page_selector \<Rightarrow> page_selector" where
  "fetch_page_count tid s i =
     i\<lparr>page_count := (case threads s tid of Some t \<Rightarrow> th_last_page t + 1 | None \<Rightarrow> 1)\<rparr>"

definition page_max :: "page_selector \<Rightarrow> u32" where
  "page_max i = (if 5 < page_count i then page_count i - 5 else 0)"

definition page_scroll :: "bool \<Rightarrow> bool \<Rightarrow> page_selector \<Rightarrow> page_selector" where
  "page_scroll left to_end i =
     (if to_end then i\<lparr>ps_offset := if left then 0 else page_max i\<rparr>
      else if left then
        if 0 < ps_offset i then i\<lparr>page_count := page_count i - 1\<rparr> else i
      else if ps_offset i < page_max i then i\<lparr>ps_offset := ps_offset i + 1\<rparr>
      else i)"

fun page_update ::
  "u64 \<Rightarrow> client_state \<Rightarrow> page_message \<Rightarrow> page_selector \<Rightarrow> (page_selector \<times> bool \<times> unit list) run" where
  "page_update tid s (ScrollPages left to_end) i =
     (let i' = page_scroll left to_end i in Done (i', ps_offset i' \<noteq> ps_offset i, []))"
| "page_update tid s (SelectPage _) i = Panicked"
| "page_update tid s ThreadUpdate i =
     (let i' = fetch_page_count tid s i in Done (i', page_count i \<noteq> page_count i', []))"
| "page_update tid s PageNop i = Done (i, False, [])"

definition page_class :: "(page_selector, u64, page_message, unit) inner_class" where
  "page_class =
     \<lparr>inner_default = page_selector_default, inner_init = fetch_page_count,
      update_message = ThreadUpdate, subscribe_to = (\<lambda>tid. [ThreadChange tid]),
      inner_update = page_update\<rparr>"

definition scroll_button :: "string \<Rightarrow> page_message \<Rightarrow> page_message html" where
  "scroll_button txt m = Elem ''a'' [] (Some (send_msg m)) [TextNode txt]"

definition shown_pages :: "page_selector \<Rightarrow> u32 list" where
  "shown_pages i = map of_nat [unat (ps_offset i) ..< unat (page_count i)]"

definition page_view :: "page_selector \<Rightarrow> page_message html" where
  "page_view i =
     Elem ''span'' [(''class'', ''spaced mono no-select'')] None
       ([scroll_button ''<<'' (ScrollPages True True)] @
        (if 5 < page_count i then [scroll_button ''<'' (ScrollPages True False)] else []) @
        map (\<lambda>n. Elem ''a'' [] (Some (send_msg (SelectPage n))) [TextNode (show_unsigned n)])
          (shown_pages i) @
        (if 5 < page_count i then [scroll_button ''>'' (ScrollPages False False)] else []) @
        [scroll_button ''>>'' (ScrollPages False True)])"

text \<open>
  What a hooked component promises about data it copies from the global state: the copy is
  current after creation and after every notification of a change.
\<close>

locale state_copy =
  fixes cls :: "('i, 'p, 'm, 'x) inner_class"
    and current :: "'p \<Rightarrow> client_state \<Rightarrow> 'i \<Rightarrow> bool"
  assumes init_current: "current p s (inner_init cls p s i)"
    and update_current: "\<exists>i' r es. inner_update cls p s (update_message cls) i = Done (i', r, es) \<and> current p s i'"
begin

lemma create_current: "current p s (hk_inner (fst (hooked_create cls p s)))"
  by (simp add: hooked_create_def init_current)

lemma notified_current:
  "\<exists>h' r es. hooked_update cls s (update_message cls) h = Done (h', r, es) \<and>
     hk_props h' = hk_props h \<and> current (hk_props h) s (hk_inner h')"
  using update_current [of "hk_props h" s "hk_inner h"] by (auto simp: hooked_update_def)

end

definition page_current :: "u64 \<Rightarrow> client_state \<Rightarrow> page_selector \<Rightarrow> bool" where
  "page_current tid s i \<longleftrightarrow> page_count i = page_count (fetch_page_count tid s i)"

interpretation pages: state_copy page_class page_current
  by unfold_locales (simp_all add: page_class_def page_current_def fetch_page_count_def Let_def)

text \<open>
  The page selector knows the number of pages of its thread after it is created and after
  every change of the thread.
\<close>

theorem page_selector_current:
  "page_current tid s (hk_inner (fst (hooked_create page_class tid s))) \<and>
   (\<exists>h' r es. hooked_update page_class s (update_message page_class) h = Done (h', r, es) \<and>
      page_current (hk_props h) s (hk_inner h'))"
  using pages.create_current pages.notified_current [of s h] by auto

text \<open>
  The button that scrolls one page to the left never shows an earlier page. At the first page
  it does nothing; elsewhere every click leaves the offset and drops the last page of the list
  instead, without a new rendering, and after as many clicks as there are pages the count wraps
  around.
\<close>

theorem scroll_left_drops_pages:
  "foldl (\<lambda>i _. page_scroll True False i) i [0 ..< n] =
     (if ps_offset i = 0 then i else i\<lparr>page_count := page_count i - of_nat n\<rparr>) \<and>
   page_update tid s (ScrollPages True False) i = Done (page_scroll True False i, False, [])"
proof -
  have "foldl (\<lambda>i _. page_scroll True False i) i [0 ..< n] =
     (if ps_offset i = 0 then i else i\<lparr>page_count := page_count i - of_nat n\<rparr>)"
  proof (induction n)
    case (Suc n)
    then show ?case
      by (auto simp: page_scroll_def word_neq_0_conv algebra_simps split: if_splits)
  qed simp
  then show ?thesis by (simp add: page_scroll_def)
qed

section \<open>Threads\<close>

text \<open>The posts of a page without the opening post, in the order of the hash set.\<close>

definition read_page_posts ::
  "u64 iter_order \<Rightarrow> u64 list \<Rightarrow> u64 \<Rightarrow> u32 \<Rightarrow> client_state \<Rightarrow> u64 list" where
  "read_page_posts ord dst tid page s =
     (case sm_get (posts_by_thread_page s) (tid, page) of
        Some ids \<Rightarrow> dst @ filter (\<lambda>pid. pid \<noteq> tid) (ord ids)
      | None \<Rightarrow> dst)"

definition thread_posts :: "u64 iter_order \<Rightarrow> u64 \<Rightarrow> post_set \<Rightarrow> client_state \<Rightarrow> u64 list" where
  "thread_posts ord tid pages s =
     (case pages of
        Last5Posts \<Rightarrow>
          let page_count = (case threads s tid of Some t \<Rightarrow> th_last_page t + 1 | None \<Rightarrow> 1);
              v = read_page_posts ord [] tid (page_count - 1) s;
              v = (if length v < 5 \<and> 1 < page_count
                   then read_page_posts ord v tid (page_count - 2) s else v);
              v = sort v
          in if 5 < length v then drop (length v - 5) v else v
      | Page page \<Rightarrow> sort (read_page_posts ord [] tid page s))"

definition thread_view ::
  "language_pack \<Rightarrow> u64 iter_order \<Rightarrow> u64 \<Rightarrow> post_set \<Rightarrow> client_state \<Rightarrow> unit html" where
  "thread_view l ord tid pages s =
     Elem ''section'' [(''class'', ''thread-container'')] None
       ([Child (ThreadPostChild tid)] @
        map (\<lambda>pid. Child (ThreadPostChild pid)) (thread_posts ord tid pages s) @
        [aside_button l ''reply'' (send_msg ())])"

definition thread_class :: "(unit, u64 \<times> post_set, unit, unit) inner_class" where
  "thread_class =
     \<lparr>inner_default = (), inner_init = (\<lambda>_ _ i. i), update_message = (),
      subscribe_to = (\<lambda>(tid, _). [ThreadChange tid]),
      inner_update = (\<lambda>_ _ _ i. Done (i, True, []))\<rparr>"

text \<open>The threads of the index, most recently bumped first.\<close>

definition index_threads :: "u64 iter_order \<Rightarrow> client_state \<Rightarrow> thread list" where
  "index_threads ord s =
     sort_key (\<lambda>t. - uint (bumped_on t)) (map (\<lambda>tid. the (threads s tid)) (ord (dom (threads s))))"

definition index_subscriptions :: "change list" where
  "index_subscriptions = [LocationChange, ThreadListChange]"

fun separated :: "'m html list \<Rightarrow> 'm html list" where
  "separated (x # y # xs) = x # Elem ''hr'' [] None [] # separated (y # xs)"
| "separated xs = xs"

definition index_view :: "u64 iter_order \<Rightarrow> client_state \<Rightarrow> unit html" where
  "index_view ord s =
     (case loc_feed (cs_location s) of
        Catalog \<Rightarrow> Elem ''span'' [] None [TextNode ''TODO'']
      | Index \<Rightarrow>
          Elem ''section'' [] None
            (separated (map (\<lambda>t. Child (ThreadChild (th_id t) Last5Posts)) (index_threads ord s)))
      | ThreadFeed tid page \<Rightarrow> Child (ThreadChild tid (Page page)))"

subsection \<open>The posts a thread shows\<close>

definition replies :: "client_state \<Rightarrow> u64 \<Rightarrow> u32 \<Rightarrow> u64 set" where
  "replies s tid page =
     (case sm_get (posts_by_thread_page s) (tid, page) of Some ids \<Rightarrow> ids - {tid} | None \<Rightarrow> {})"

lemma sort_enumerated: "set xs = A \<Longrightarrow> distinct xs \<Longrightarrow> sort xs = sorted_list_of_set A"
  for xs :: "'a::linorder list"
  by (metis distinct_remdups_id sorted_list_of_set_sort_remdups)

lemma sorted_list_of_set_append:
  fixes A B :: "'a::linorder set"
  assumes "finite A" "finite B" "\<And>a b. a \<in> A \<Longrightarrow> b \<in> B \<Longrightarrow> a < b"
  shows "sorted_list_of_set (A \<union> B) = sorted_list_of_set A @ sorted_list_of_set B"
proof (rule sorted_distinct_set_unique [symmetric])
  show "sorted (sorted_list_of_set A @ sorted_list_of_set B)"
    using assms by (auto simp: sorted_append less_imp_le)
  show "distinct (sorted_list_of_set A @ sorted_list_of_set B)"
    using assms by auto
qed (use assms in auto)

text \<open>
  The pages of a thread as the client knows them: finite, in ascending order of post numbers,
  none after the last page.
\<close>

definition pages_ok :: "client_state \<Rightarrow> u64 \<Rightarrow> u32 \<Rightarrow> bool" where
  "pages_ok s tid lp \<longleftrightarrow>
     (\<forall>p ids. sm_get (posts_by_thread_page s) (tid, p) = Some ids \<longrightarrow> finite ids) \<and>
     (\<forall>p q a b. p < q \<longrightarrow> a \<in> replies s tid p \<longrightarrow> b \<in> replies s tid q \<longrightarrow> a < b) \<and>
     (\<forall>p > lp. replies s tid p = {})"

lemma read_page_posts_enumerated:
  assumes "enumerates ord"
    and "\<And>ids. sm_get (posts_by_thread_page s) (tid, page) = Some ids \<Longrightarrow> finite ids"
  shows "\<exists>xs. read_page_posts ord dst tid page s = dst @ xs \<and>
    set xs = replies s tid page \<and> distinct xs"
  using assms enumerates_set [OF assms(1)] enumerates_distinct [OF assms(1)]
  by (auto simp: read_page_posts_def replies_def split: option.split)

lemma drop_sorted_suffix:
  fixes A B :: "'a::linorder set"
  assumes "finite A" "finite B" "\<And>a b. a \<in> A \<Longrightarrow> b \<in> B \<Longrightarrow> a < b" "5 \<le> card B \<or> A = {}"
  shows "drop (card B - 5) (sorted_list_of_set B) = drop (card (A \<union> B) - 5) (sorted_list_of_set (A \<union> B))"
proof -
  have "A \<inter> B = {}" using assms(3) by force
  then have "card (A \<union> B) = card A + card B" using assms by (simp add: card_Un_disjoint)
  then show ?thesis
    using assms(4) by (auto simp: sorted_list_of_set_append [OF assms(1-3)])
qed

lemma page_order:
  fixes lp p :: u32
  shows "lp + 1 \<noteq> 0 \<Longrightarrow> 1 < lp + 1 \<longleftrightarrow> 0 < lp"
    and "0 < lp \<Longrightarrow> lp - 1 < lp"
    and "p < lp \<Longrightarrow> p \<noteq> lp - 1 \<Longrightarrow> p < lp - 1"
proof -
  show "lp + 1 \<noteq> 0 \<Longrightarrow> 1 < lp + 1 \<longleftrightarrow> 0 < lp"
    by (simp add: word_less_nat_alt unatSuc add.commute)
  show "lp - 1 < lp" if "0 < lp"
  proof -
    have "lp \<noteq> 0" "0 < unat lp" using that by (auto simp: word_less_nat_alt)
    then show ?thesis by (simp add: word_less_nat_alt unat_minus_one)
  qed
  show "p < lp - 1" if "p < lp" "p \<noteq> lp - 1"
  proof -
    have "lp \<noteq> 0" using that(1) by auto
    then show ?thesis using that by (auto simp: word_less_nat_alt word_unat_eq_iff unat_minus_one)
  qed
qed

lemma thread_posts_last5:
  assumes "enumerates ord" "threads s tid = Some t" "th_last_page t + 1 \<noteq> 0"
    and "pages_ok s tid (th_last_page t)"
    and "B = (if card (replies s tid (th_last_page t)) < 5 \<and> 0 < th_last_page t
              then replies s tid (th_last_page t - 1) \<union> replies s tid (th_last_page t)
              else replies s tid (th_last_page t))"
  shows "thread_posts ord tid Last5Posts s = drop (card B - 5) (sorted_list_of_set B)"
proof -
  let ?lp = "th_last_page t"
  have fin: "finite ids" if "sm_get (posts_by_thread_page s) (tid, p) = Some ids" for p ids
    using assms(4) that by (auto simp: pages_ok_def)
  obtain xs where xs: "read_page_posts ord [] tid ?lp s = xs" "set xs = replies s tid ?lp" "distinct xs"
    using read_page_posts_enumerated [OF assms(1), of s tid ?lp "[]"] fin by auto
  obtain ys where ys: "read_page_posts ord xs tid (?lp - 1) s = xs @ ys"
      "set ys = replies s tid (?lp - 1)" "distinct ys"
    using read_page_posts_enumerated [OF assms(1), of s tid "?lp - 1" xs] fin by auto
  have card: "card (replies s tid ?lp) = length xs"
    using xs by (metis distinct_card)
  note count = page_order(1) [OF assms(3)]
  define v where "v = (if length xs < 5 \<and> 0 < ?lp then xs @ ys else xs)"
  have "distinct (xs @ ys)" if "0 < ?lp"
  proof -
    have "?lp - 1 < ?lp" using that by (rule page_order(2))
    then have "a < b" if "a \<in> set ys" "b \<in> set xs" for a b
      using assms(4) that xs(2) ys(2) unfolding pages_ok_def by blast
    then show ?thesis using xs(3) ys(3) by force
  qed
  then have v: "set v = B" "distinct v"
    using xs ys card by (auto simp: v_def assms(5))
  have "thread_posts ord tid Last5Posts s = (if 5 < length (sort v) then drop (length (sort v) - 5) (sort v) else sort v)"
    using xs ys count by (simp add: thread_posts_def assms(2) Let_def v_def)
  also have "\<dots> = drop (card B - 5) (sorted_list_of_set B)"
    using v distinct_card [of v] by (simp add: sort_enumerated [OF v])
  finally show ?thesis .
qed

text \<open>
  A thread in the index shows the five newest replies the client knows of it, in ascending
  order, when its pages are in order and the last page but one either has five replies itself or
  is the first known one.
\<close>

theorem thread_shows_newest_replies:
  assumes "enumerates ord" "threads s tid = Some t" "th_last_page t + 1 \<noteq> 0"
    and "pages_ok s tid (th_last_page t)"
    and "th_last_page t = 0 \<or> 5 \<le> card (replies s tid (th_last_page t - 1)) \<or>
         (\<forall>p < th_last_page t - 1. replies s tid p = {})"
    and "R = (\<Union>p. replies s tid p)"
  shows "thread_posts ord tid Last5Posts s = drop (card R - 5) (sorted_list_of_set R)"
proof -
  let ?lp = "th_last_page t"
  define B where "B = (if card (replies s tid ?lp) < 5 \<and> 0 < ?lp
              then replies s tid (?lp - 1) \<union> replies s tid ?lp else replies s tid ?lp)"
  have fin: "finite (replies s tid p)" for p
    using assms(4) by (auto simp: pages_ok_def replies_def split: option.split)
  then have finR: "finite R" by (simp add: assms(6))
  have finB: "finite B" using fin by (simp add: B_def)
  have less: "a < b" if "p < q" "a \<in> replies s tid p" "b \<in> replies s tid q" for p q a b
    using assms(4) that unfolding pages_ok_def by blast
  have none: "replies s tid p = {}" if "?lp < p" for p
    using assms(4) that unfolding pages_ok_def by blast
  have sub: "B \<subseteq> R" by (auto simp: B_def assms(6))
  have below: "p < ?lp" if "a \<in> replies s tid p" "p \<noteq> ?lp" for a p
    using that none by (metis empty_iff linorder_neqE)
  have lower: "a < b" if a: "a \<in> R - B" and b: "b \<in> B" for a b
  proof -
    from a obtain p where p: "a \<in> replies s tid p" by (auto simp: assms(6))
    with a have "p \<noteq> ?lp" by (auto simp: B_def split: if_splits)
    with p have lt: "p < ?lp" by (rule below)
    show ?thesis
    proof (cases "card (replies s tid ?lp) < 5 \<and> 0 < ?lp")
      case True
      then have "p < ?lp - 1" using page_order(3) [OF lt] a p by (auto simp: B_def)
      then show ?thesis using b True less [OF lt p] less [of p "?lp - 1" a b] p by (auto simp: B_def)
    next
      case False
      then have "b \<in> replies s tid ?lp" using b unfolding B_def by (simp only: if_False)
      then show ?thesis by (rule less [OF lt p])
    qed
  qed
  have rest: "R - B = {}" if "\<And>p. p < ?lp \<Longrightarrow> replies s tid p \<subseteq> B"
  proof -
    have "replies s tid p \<subseteq> B" for p
      using that [of p] none [of p] by (cases p ?lp rule: linorder_cases) (auto simp: B_def)
    then show ?thesis by (auto simp: assms(6))
  qed
  have "5 \<le> card B \<or> R - B = {}"
  proof (cases "card (replies s tid ?lp) < 5 \<and> 0 < ?lp")
    case True
    then have B: "B = replies s tid (?lp - 1) \<union> replies s tid ?lp" by (simp add: B_def)
    show ?thesis
    proof (cases "5 \<le> card (replies s tid (?lp - 1))")
      case True
      moreover have "card (replies s tid (?lp - 1)) \<le> card B" using fin by (simp add: B card_mono)
      ultimately show ?thesis by linarith
    next
      case False
      then have "replies s tid p \<subseteq> B" if "p < ?lp" for p
        using assms(5) True page_order(3) [OF that] by (cases "p = ?lp - 1") (auto simp: B)
      then show ?thesis using rest by blast
    qed
  next
    case False
    then show ?thesis using rest by (cases "?lp = 0") (auto simp: B_def word_neq_0_conv)
  qed
  then have "drop (card B - 5) (sorted_list_of_set B) = drop (card R - 5) (sorted_list_of_set R)"
    using drop_sorted_suffix [of "R - B" B] finR finB lower sub by (simp add: Un_absorb2)
  then show ?thesis
    using thread_posts_last5 [OF assms(1-4) B_def] by simp
qed

text \<open>
  The index lists every thread exactly once, most recently bumped first.
\<close>

theorem index_lists_threads:
  assumes "enumerates ord" "finite (dom (threads s))"
  shows "mset (index_threads ord s) = image_mset (\<lambda>tid. the (threads s tid)) (mset_set (dom (threads s))) \<and>
    sorted_wrt (\<lambda>a b. bumped_on b \<le> bumped_on a) (index_threads ord s)"
proof
  have "mset (ord (dom (threads s))) = mset_set (dom (threads s))"
    using enumerates_set [OF assms] enumerates_distinct [OF assms] by (metis mset_set_set)
  then show "mset (index_threads ord s) = image_mset (\<lambda>tid. the (threads s tid)) (mset_set (dom (threads s)))"
    by (simp add: index_threads_def)
  have "sorted (map (\<lambda>t. - uint (bumped_on t)) (index_threads ord s))"
    by (simp add: index_threads_def)
  then show "sorted_wrt (\<lambda>a b. bumped_on b \<le> bumped_on a) (index_threads ord s)"
    by (simp add: sorted_map word_le_def)
qed

section \<open>Navigation row\<close>

definition navigation_button :: "language_pack \<Rightarrow> string \<Rightarrow> location \<Rightarrow> bool html" where
  "navigation_button l lbl loc = aside_button l lbl (navigate_and loc False)"

definition aside_row_view :: "language_pack \<Rightarrow> bool \<Rightarrow> client_state \<Rightarrow> bool html" where
  "aside_row_view l is_top s =
     (let loc = cs_location s;
          (lbl, fcs) = (if is_top then (''bottom'', FocusBottom) else (''top'', FocusTop))
      in Elem ''span''
           [(''class'', ''aside-container''), (''style'', if is_top then ''margin-top: 1.5em;'' else [])] None
           ((if \<not> is_thread loc \<and> is_top then [Child NewThreadFormChild] else []) @
            [navigation_button l lbl \<lparr>loc_feed = loc_feed loc, loc_focus = Some fcs\<rparr>] @
            (if loc_feed loc \<noteq> Index
             then [navigation_button l ''index'' \<lparr>loc_feed = Index, loc_focus = None\<rparr>] else []) @
            (if loc_feed loc \<noteq> Catalog
             then [navigation_button l ''catalog'' \<lparr>loc_feed = Catalog, loc_focus = None\<rparr>] else []) @
            (case loc_feed loc of
               ThreadFeed tid page \<Rightarrow>
                 [Elem ''aside'' [(''class'', ''glass'')] None [Child (PageSelectorChild tid)]]
             | _ \<Rightarrow> [])))"

section \<open>Form for new threads\<close>

record thread_form =
  form_expanded :: bool
  sending :: bool
  available_tags :: "string list"
  selected_tags :: "string list"
  form_conn :: conn_fsm

definition thread_form_create :: thread_form where
  "thread_form_create =
     \<lparr>form_expanded = False, sending = False, available_tags = [], selected_tags = [[]],
      form_conn = Loading\<rparr>"

text \<open>
  A submission carries the contents the form element has then. The lower case mapping is an
  argument.
\<close>

datatype form_message =
    Toggle bool
  | InputTag nat string
  | RemoveTag nat
  | AddTag
  | Submit form_data
  | ConnState conn_fsm
  | FetchedUsedTags "string list"
  | FormNop

datatype form_effect =
    SendCreateThread (sent_subject: string) (sent_tags: "string list") (sent_captcha: "u8 list")
  | FormAlert string

definition submit_request ::
  "(string \<Rightarrow> string) \<Rightarrow> form_data \<Rightarrow> string + form_effect" where
  "submit_request lower form =
     rbind form (\<lambda>(tag_values, subject).
       let tags = map lower (List.map_filter (\<lambda>t. t) tag_values) in
       if card (set tags) \<noteq> length tags then Inl ''tag set contains duplicates''
       else rbind (ok_or ''could not convert subject to string'' subject)
         (\<lambda>subject. Inr (SendCreateThread subject tags [])))"

fun form_update ::
  "(string \<Rightarrow> string) \<Rightarrow> form_message \<Rightarrow> thread_form \<Rightarrow> thread_form \<times> bool \<times> form_effect list" where
  "form_update lower (Toggle expand) f = (f\<lparr>form_expanded := expand\<rparr>, True, [])"
| "form_update lower (InputTag i val) f =
     (if i < length (selected_tags f) then f\<lparr>selected_tags := (selected_tags f)[i := val]\<rparr> else f,
      False, [])"
| "form_update lower (RemoveTag i) f =
     (f\<lparr>selected_tags :=
        if length (selected_tags f) = 1 then [[]]
        else map snd (filter (\<lambda>(j, _). j \<noteq> i) (enumerate 0 (selected_tags f)))\<rparr>, True, [])"
| "form_update lower AddTag f =
     (if length (selected_tags f) < 3 then f\<lparr>selected_tags := selected_tags f @ [[]]\<rparr> else f, True, [])"
| "form_update lower (Submit form) f =
     (if sending f then (f, False, [])
      else case submit_request lower form of
        Inl err \<Rightarrow> (f\<lparr>sending := False\<rparr>, True, [FormAlert err])
      | Inr e \<Rightarrow> (f\<lparr>sending := True\<rparr>, True, [e]))"
| "form_update lower (ConnState st) f =
     (let f = f\<lparr>form_conn := st\<rparr> in
      (if st \<noteq> Synced then f\<lparr>sending := False\<rparr> else f, True, []))"
| "form_update lower (FetchedUsedTags tags) f = (f\<lparr>available_tags := tags\<rparr>, True, [])"
| "form_update lower FormNop f = (f, False, [])"

text \<open>The values the list of known tags offers.\<close>

definition offered_tags :: "thread_form \<Rightarrow> string list" where
  "offered_tags f = filter (\<lambda>t. t \<notin> set (selected_tags f)) (available_tags f)"

definition submit_disabled :: "thread_form \<Rightarrow> bool" where
  "submit_disabled f \<longleftrightarrow> form_conn f \<noteq> Synced \<or> sending f"

definition render_tag :: "language_pack \<Rightarrow> string \<Rightarrow> nat \<Rightarrow> form_message html" where
  "render_tag l tag i =
     Elem ''span'' [] None
       [Input [(''placeholder'', localize_literal l ''tag''), (''required'', ''true''), (''type'', ''text''),
           (''maxlength'', ''20''), (''minlength'', ''1''), (''value'', tag), (''name'', ''tag''),
           (''list'', ''available-tags'')] (Some (InputTag i)) None,
        Elem ''a'' [(''class'', ''act'')] (Some (send_msg (RemoveTag i))) [TextNode ''X'']]"

definition render_tags :: "language_pack \<Rightarrow> thread_form \<Rightarrow> form_message html" where
  "render_tags l f =
     (let v = map (\<lambda>(i, t). render_tag l t i) (enumerate 0 (selected_tags f)) in
      Fragment (v @
        (if length v < 3
         then [Input [(''type'', ''button''), (''value'', localize_literal l ''add_tag'')] None
                 (Some (send_msg AddTag))]
         else [])))"

definition flag_attr :: "string \<Rightarrow> bool \<Rightarrow> (string \<times> string) list" where
  "flag_attr k b = (if b then [(k, ''true'')] else [])"

definition render_form :: "language_pack \<Rightarrow> thread_form \<Rightarrow> form_message html" where
  "render_form l f =
     Form [(''id'', ''new-thread-form''), (''style'', ''display: flex; flex-direction: column;'')] Submit
       [Input [(''placeholder'', localize_literal l ''subject''), (''name'', ''subject''),
          (''required'', ''true''), (''type'', ''text''), (''maxlength'', ''100''), (''style'', ''width: 100%'')]
          None None,
        Elem ''hr'' [] None [],
        render_tags l f,
        Elem ''hr'' [] None [],
        Elem ''span'' [] None
          [Input ([(''type'', ''submit''), (''style'', ''width: 50%'')] @
             flag_attr ''disabled'' (submit_disabled f)) None None,
           Input ([(''type'', ''button''), (''value'', localize_literal l ''cancel''), (''style'', ''width: 50%'')] @
             flag_attr ''disabled'' (sending f)) None (Some (send_msg (Toggle False)))],
        Elem ''datalist'' [(''id'', ''available-tags'')] None
          (map (\<lambda>t. Elem ''option'' [(''value'', t)] None []) (offered_tags f))]"

definition form_view :: "language_pack \<Rightarrow> thread_form \<Rightarrow> form_message html" where
  "form_view l f =
     Elem ''aside'' [(''id'', ''thread-form-container'')] None
       [Elem ''span'' [(''class'', if \<not> form_expanded f then ''act'' else [])] None
         [if form_expanded f then render_form l f
          else Elem ''a'' [(''class'', ''new-thread-button'')] (Some (send_msg (Toggle True)))
                 [TextNode (localize_literal l ''new_thread'')]]]"

definition form_step ::
  "(string \<Rightarrow> string) \<Rightarrow> thread_form \<times> form_effect list \<Rightarrow> form_message \<Rightarrow> thread_form \<times> form_effect list" where
  "form_step lower s m =
     (case s of (f, es) \<Rightarrow> case form_update lower m f of (f, _, es') \<Rightarrow> (f, es @ es'))"

definition form_run :: "(string \<Rightarrow> string) \<Rightarrow> form_message list \<Rightarrow> thread_form \<Rightarrow> thread_form \<times> form_effect list" where
  "form_run lower ms f = foldl (form_step lower) (f, []) ms"

definition is_send :: "form_effect \<Rightarrow> bool" where
  "is_send e \<longleftrightarrow> (case e of SendCreateThread _ _ _ \<Rightarrow> True | _ \<Rightarrow> False)"

definition tags_ok :: "(string \<Rightarrow> string) \<Rightarrow> string list \<Rightarrow> bool" where
  "tags_ok lower tags \<longleftrightarrow> distinct tags \<and> set tags \<subseteq> range lower"

definition form_ok :: "(string \<Rightarrow> string) \<Rightarrow> thread_form \<times> form_effect list \<Rightarrow> bool" where
  "form_ok lower s \<longleftrightarrow>
     0 < length (selected_tags (fst s)) \<and> length (selected_tags (fst s)) \<le> 3 \<and>
     (\<forall>subj tags cap. SendCreateThread subj tags cap \<in> set (snd s) \<longrightarrow> tags_ok lower tags)"

lemma filter_enumerate_length:
  "length (filter (\<lambda>(j, _). j \<noteq> i) (enumerate n xs)) =
     (if n \<le> i \<and> i < n + length xs then length xs - 1 else length xs)"
proof (induction xs arbitrary: n)
  case (Cons x xs)
  then show ?case by (cases "i = n") auto
qed simp

lemma submit_request_sends:
  "submit_request lower form = Inr (SendCreateThread subj tags cap) \<Longrightarrow> tags_ok lower tags"
  by (auto simp: tags_ok_def submit_request_def rbind_eq_Inr Let_def card_distinct split: if_splits)

lemma submit_request_is_send: "submit_request lower form = Inr e \<Longrightarrow> is_send e"
  by (auto simp: submit_request_def rbind_eq_Inr Let_def is_send_def split: if_splits)

lemma form_update_tags:
  assumes "form_update lower m f = (f', r, es)"
    and "0 < length (selected_tags f)" "length (selected_tags f) \<le> 3"
  shows "0 < length (selected_tags f') \<and> length (selected_tags f') \<le> 3"
proof (cases m)
  case (RemoveTag i)
  define ts where "ts = map snd (filter (\<lambda>(j, _). j \<noteq> i) (enumerate 0 (selected_tags f)))"
  have "length ts = (if i < length (selected_tags f) then length (selected_tags f) - 1
                     else length (selected_tags f))"
    by (simp add: ts_def filter_enumerate_length)
  then show ?thesis
    using assms RemoveTag by (auto simp: ts_def [symmetric] split: if_splits)
qed (use assms in \<open>auto simp: Let_def split: if_splits sum.splits\<close>)

lemma form_update_sends:
  assumes "form_update lower m f = (f', r, es)" "SendCreateThread subj tags cap \<in> set es"
  shows "tags_ok lower tags"
  using assms submit_request_sends
  by (cases m) (auto simp: Let_def split: if_splits sum.splits)

interpretation form: step_invariant "form_step lower" "form_ok lower" for lower
proof
  fix s m
  assume ok: "form_ok lower s"
  obtain f es where s: "s = (f, es)" by (cases s)
  obtain f' r es' where u: "form_update lower m f = (f', r, es')" by (metis surj_pair)
  show "form_ok lower (form_step lower s m)"
    using ok form_update_tags [OF u] form_update_sends [OF u]
    by (auto simp: form_ok_def form_step_def s u)
qed

text \<open>
  The form for new threads always has one to three tag inputs, and every request it sends
  has distinct tags in lower case.
\<close>

theorem form_tags_valid:
  assumes "form_run lower ms thread_form_create = (f, es)"
  shows "0 < length (selected_tags f) \<and> length (selected_tags f) \<le> 3 \<and>
    (\<forall>subj tags cap. SendCreateThread subj tags cap \<in> set es \<longrightarrow>
       distinct tags \<and> set tags \<subseteq> range lower)"
proof -
  have "form_ok lower (thread_form_create, [])"
    by (simp add: form_ok_def thread_form_create_def)
  then have "form_ok lower (f, es)"
    using form.run_keeps [of lower "(thread_form_create, [])" ms] assms by (simp add: form_run_def)
  then show ?thesis by (simp add: form_ok_def tags_ok_def)
qed

lemma form_step_count:
  assumes "\<forall>st. m = ConnState st \<longrightarrow> st = Synced"
    and "form_step lower (f, es) m = (f', es')"
    and "length (filter is_send es) + (if sending f then 0 else 1) \<le> n"
  shows "length (filter is_send es') + (if sending f' then 0 else 1) \<le> n"
  using assms submit_request_is_send
  by (cases m) (auto simp: form_step_def is_send_def Let_def split: if_splits sum.splits)

text \<open>
  As long as the connection stays synchronised, the form sends at most one request, and a form
  that waits for its request sends none.
\<close>

theorem form_sends_once:
  assumes "\<forall>st. ConnState st \<in> set ms \<longrightarrow> st = Synced" "form_run lower ms f = (f', es)"
  shows "length (filter is_send es) \<le> (if sending f then 0 else 1)"
proof -
  have "length (filter is_send (snd (foldl (form_step lower) s ms))) +
      (if sending (fst (foldl (form_step lower) s ms)) then 0 else 1) \<le> n"
    if "\<forall>st. ConnState st \<in> set ms \<longrightarrow> st = Synced"
      "length (filter is_send (snd s)) + (if sending (fst s) then 0 else 1) \<le> n" for s n ms
    using that
  proof (induction ms arbitrary: s)
    case (Cons m ms)
    obtain f0 es0 f1 es1 where "s = (f0, es0)" "form_step lower (f0, es0) m = (f1, es1)"
      by (metis surj_pair)
    with Cons form_step_count [of m lower f0 es0 f1 es1 n] show ?case by simp
  qed simp
  from this [of ms "(f, [])" "if sending f then 0 else 1"] assms show ?thesis
    by (simp add: form_run_def)
qed

section \<open>Countdowns and the connection indicator\<close>

record countdown =
  cd_props :: "u32 \<times> u32"
  cd_current :: relative_time

definition countdown_create :: "u32 \<times> u32 \<Rightarrow> countdown \<times> request list" where
  "countdown_create props =
     (\<lparr>cd_props = props, cd_current = relative_time_default\<rparr>, [Register (snd props)])"

definition countdown_update :: "response \<Rightarrow> countdown \<Rightarrow> countdown \<times> bool" where
  "countdown_update r c = (c\<lparr>cd_current := resp_diff r\<rparr>, True)"

definition countdown_change :: "u32 \<times> u32 \<Rightarrow> countdown \<Rightarrow> countdown \<times> bool" where
  "countdown_change props c =
     (case comp_prop_change props (cd_props c) of (p, rerender) \<Rightarrow> (c\<lparr>cd_props := p\<rparr>, rerender))"

definition countdown_view :: "language_pack \<Rightarrow> countdown \<Rightarrow> 'm html" where
  "countdown_view l c =
     Elem ''strong'' [] None
       [TextNode (''#countdown('' @ show_unsigned (snd (cd_props c) - fst (cd_props c)) @ '') '' @
          show_relative_time l (cd_current c))]"

fun sync_label :: "conn_fsm \<Rightarrow> string" where
  "sync_label Loading = ''loading''"
| "sync_label Connecting = ''connecting''"
| "sync_label Dropped = ''disconnected''"
| "sync_label Synced = ''synced''"
| "sync_label Syncing = ''syncing''"
| "sync_label Handshaking = ''handshaking''"

definition sync_counter_view :: "language_pack \<Rightarrow> conn_fsm \<Rightarrow> 'm html" where
  "sync_counter_view l current =
     Elem ''b'' [(''id'', ''sync''), (''class'', ''banner-float''), (''title'', localize_literal l ''sync'')]
       None [TextNode (localize_literal l (sync_label current))]"

section \<open>Timestamps\<close>

text \<open>The fields of a JavaScript date in the time zone of the browser.\<close>

record js_date =
  jd_date :: nat
  jd_month :: nat
  jd_year :: nat
  jd_day :: nat
  jd_hours :: nat
  jd_minutes :: nat
  jd_seconds :: nat

definition MONTHS :: "string list" where
  "MONTHS =
     [''january'', ''february'', ''march'', ''april'', ''may'', ''june'', ''july'', ''august'', ''september'',
      ''october'', ''november'', ''december'']"

definition DAYS :: "string list" where
  "DAYS = [''sunday'', ''monday'', ''tuesday'', ''wednesday'', ''thursday'', ''friday'', ''saturday'']"

definition absolute_time :: "language_pack \<Rightarrow> js_date \<Rightarrow> string run" where
  "absolute_time l d =
     (if jd_month d < length MONTHS \<and> jd_day d < length DAYS then
        Done (pad2 (show_nat (jd_date d)) @ '' '' @ localize_literal l (MONTHS ! jd_month d) @ '' '' @
          show_nat (jd_year d) @ '' ('' @ localize_literal l (DAYS ! jd_day d) @ '') '' @
          pad2 (show_nat (jd_hours d)) @ '':'' @ pad2 (show_nat (jd_minutes d)) @ '':'' @
          pad2 (show_nat (jd_seconds d)))
      else Panicked)"

definition time_view_html ::
  "language_pack \<Rightarrow> (u32 \<Rightarrow> js_date) \<Rightarrow> time_view \<Rightarrow> 'm html run" where
  "time_view_html l date v =
     (case absolute_time l (date (view_time v)) of
        Done ab \<Rightarrow>
          let rel = show_relative_time l (resp_diff (view_current v)) in
          Done (Elem ''time'' [(''title'', if resp_relative (view_current v) then ab else rel)] None
            [TextNode (if resp_relative (view_current v) then rel else ab)])
      | Panicked \<Rightarrow> Panicked
      | Diverged \<Rightarrow> Diverged)"

text \<open>
  With calendar dates the view of a timestamp never panics; it shows the relative or the absolute
  time and has the other one as its title.
\<close>

theorem time_view_shows_both:
  assumes "\<And>t. jd_month (date t) < 12 \<and> jd_day (date t) < 7"
  shows "\<exists>ab. absolute_time l (date (view_time v)) = Done ab \<and>
    (let rel = show_relative_time l (resp_diff (view_current v)) in
     time_view_html l date v =
       Done (if resp_relative (view_current v) then Elem ''time'' [(''title'', ab)] None [TextNode rel]
             else Elem ''time'' [(''title'', rel)] None [TextNode ab]))"
  using assms [of "view_time v"]
  by (simp add: time_view_html_def absolute_time_def MONTHS_def DAYS_def Let_def)

section \<open>Small instances\<close>

theorem component_subscriptions_exact_witness:
  "\<exists>h reqs. hooked_life page_class client_state_default 5 [7, 9] = (h, reqs) \<and>
     subscriptions (serve demo_browser sorted_list_of_set 1 (app_start client_state_default) reqs) 1 =
       {ThreadChange 9}"
proof -
  have "subscriptions (app_start client_state_default) 1 = {}"
    by (simp add: subscriptions_def app_start_def state_agent_create_def)
  then show ?thesis
    using component_subscriptions_exact [of "app_start client_state_default" 1 page_class
        client_state_default 5 "[7, 9]" _ _ demo_browser sorted_list_of_set]
    by (cases "hooked_life page_class client_state_default 5 [7, 9]") (auto simp: page_class_def)
qed

definition demo_replies :: client_state where
  "demo_replies = client_state_default
     \<lparr>threads := [5 \<mapsto> \<lparr>th_id = 5, th_page = 0, th_last_page = 0, th_subject = ''s'', th_tags = [],
        bumped_on = 3, th_created_on = 1, post_count = 7, image_count = 0\<rparr>],
      posts_by_thread_page := [(5, 0) \<mapsto> {5, 6, 7, 8, 9, 10, 11}]\<rparr>"

lemma demo_replies_page: "replies demo_replies 5 p = (if p = 0 then {6, 7, 8, 9, 10, 11} else {})"
  by (auto simp: replies_def demo_replies_def sm_get_def)

theorem thread_shows_newest_replies_witness:
  "thread_posts sorted_list_of_set 5 Last5Posts demo_replies = [7, 8, 9, 10, 11]"
proof -
  have R: "(\<Union>p. replies demo_replies 5 p) = {6, 7, 8, 9, 10, 11}"
    by (auto simp: demo_replies_page)
  have "finite ids" if "sm_get (posts_by_thread_page demo_replies) (5, p) = Some ids" for p ids
    using that by (auto simp: demo_replies_def sm_get_def split: if_splits)
  then have ok: "pages_ok demo_replies 5 0"
    by (auto simp: pages_ok_def demo_replies_page split: if_splits)
  obtain t where t: "threads demo_replies 5 = Some t" "th_last_page t = 0"
    by (simp add: demo_replies_def)
  show ?thesis
    using thread_shows_newest_replies [OF enumerates_sorted t(1), OF _ _ _ R [symmetric]] ok t(2) by simp
qed

theorem index_lists_threads_witness:
  "map th_id (index_threads sorted_list_of_set demo_replies) = [5]"
proof -
  have "finite (dom (threads demo_replies))" "dom (threads demo_replies) = {5}"
    by (simp_all add: demo_replies_def)
  then have "mset (index_threads sorted_list_of_set demo_replies) = {#the (threads demo_replies 5)#}"
    using index_lists_threads [OF enumerates_sorted, of demo_replies] by simp
  then show ?thesis by (simp add: demo_replies_def)
qed

theorem form_tags_valid_witness:
  "\<exists>f es. form_run (\<lambda>s. s) [AddTag, AddTag, AddTag, Submit (Inr ([Some ''a'', Some ''b''], Some ''subject''))]
     thread_form_create = (f, es) \<and> length (selected_tags f) \<le> 3 \<and>
     SendCreateThread ''subject'' [''a'', ''b''] [] \<in> set es \<and> distinct [''a'', ''b'']"
proof -
  obtain f es where r: "form_run (\<lambda>s. s) [AddTag, AddTag, AddTag,
      Submit (Inr ([Some ''a'', Some ''b''], Some ''subject''))] thread_form_create = (f, es)"
    by (metis surj_pair)
  moreover have "SendCreateThread ''subject'' [''a'', ''b''] [] \<in> set es"
    using r by (auto simp: form_run_def form_step_def thread_form_create_def submit_request_def
        List.map_filter_simps Let_def)
  ultimately show ?thesis using form_tags_valid [OF r] by blast
qed

theorem form_sends_once_witness:
  "\<exists>f es. form_run (\<lambda>s. s) [Submit (Inr ([Some ''a''], Some ''s'')), ConnState Synced,
       Submit (Inr ([Some ''a''], Some ''s''))] thread_form_create = (f, es) \<and>
     length (filter is_send es) \<le> 1"
proof -
  obtain f es where r: "form_run (\<lambda>s. s) [Submit (Inr ([Some ''a''], Some ''s'')), ConnState Synced,
       Submit (Inr ([Some ''a''], Some ''s''))] thread_form_create = (f, es)"
    by (metis surj_pair)
  with form_sends_once [OF _ r] show ?thesis by (auto simp: thread_form_create_def)
qed

end
