(* ===== verification/Client_Posts.thy ===== *)
theory Client_Posts
  imports Client_Components
begin

text \<open>
  The post component of the browser client: its message handler and view
  (\<^verbatim>\<open>client/src/post/common.rs\<close>) for posts inside a thread (\<^verbatim>\<open>thread_post.rs\<close>), the rendering of
  post bodies (\<^verbatim>\<open>body.rs\<close>, \<^verbatim>\<open>embeds.rs\<close>) and the post menu (\<^verbatim>\<open>menu.rs\<close>). A view gives a tree
  and the messages it sends to its own component while rendering. The encoders of the file
  hashes, the host name and the formatting of sizes in megabytes (\<^verbatim>\<open>{:.1}\<close> of an \<^verbatim>\<open>f32\<close>) are
  arguments.
\<close>

section \<open>Message handler\<close>

record post_inner =
  reveal_image :: bool
  expand_image :: bool
  tall_image :: bool

definition post_inner_default :: post_inner where
  "post_inner_default = \<lparr>reveal_image = False, expand_image = False, tall_image = False\<rparr>"

datatype post_message =
    Rerender
  | ImageHideToggle
  | ImageContract
  | ImageExpand
  | ImageDownload
  | SetVolume
  | CheckTallImage
  | PostNop
  | Extra

datatype post_effect =
    ScrollIntoView
  | ClickDownload
  | SetMediaVolume (percent: u8)

text \<open>
  The elements of the component that are in the document, and the height of the window in pixels.
\<close>

record post_dom =
  has_el :: bool
  has_download :: bool
  has_media :: bool
  inner_height :: "int option"

definition scroll_to :: "post_dom \<Rightarrow> post_effect list" where
  "scroll_to doc = (if has_el doc then [ScrollIntoView] else [])"

definition check_tall_image :: "post_dom \<Rightarrow> u64 \<Rightarrow> client_state \<Rightarrow> post_effect list" where
  "check_tall_image doc pid s =
     (case (Option.bind (posts s pid) post_image, inner_height doc) of
        (Some img, Some wh) \<Rightarrow> if wh < uint (width (img_common img)) then scroll_to doc else []
      | _ \<Rightarrow> [])"

fun post_update ::
  "post_dom \<Rightarrow> u64 \<Rightarrow> client_state \<Rightarrow> post_message \<Rightarrow> post_inner \<Rightarrow> post_inner \<times> bool \<times> post_effect list" where
  "post_update doc pid s Rerender i = (i, True, [])"
| "post_update doc pid s PostNop i = (i, False, [])"
| "post_update doc pid s Extra i = (i, False, [])"
| "post_update doc pid s ImageHideToggle i = (i\<lparr>reveal_image := \<not> reveal_image i\<rparr>, True, [])"
| "post_update doc pid s ImageExpand i = (i\<lparr>expand_image := True\<rparr>, True, [])"
| "post_update doc pid s ImageContract i =
     (i\<lparr>expand_image := False, tall_image := False\<rparr>, True,
      if tall_image i then scroll_to doc else [])"
| "post_update doc pid s ImageDownload i = (i, False, if has_download doc then [ClickDownload] else [])"
| "post_update doc pid s SetVolume i =
     (i, False, if has_media doc then [SetMediaVolume (audio_volume (cs_options s))] else [])"
| "post_update doc pid s CheckTallImage i = (i, False, check_tall_image doc pid s)"

definition post_class :: "post_dom \<Rightarrow> (post_inner, u64, post_message, post_effect) inner_class" where
  "post_class doc =
     \<lparr>inner_default = post_inner_default, inner_init = (\<lambda>_ _ i. i), update_message = Rerender,
      subscribe_to = (\<lambda>pid. [ConfigsChange, change.OptionsChange, PostChange pid]),
      inner_update = (\<lambda>pid s m i. Done (post_update doc pid s m i))\<rparr>"

section \<open>Bodies\<close>

record view_env =
  ve_lang :: language_pack
  ve_codecs :: text_codecs
  ve_host :: string
  ve_show_mb :: "u64 \<Rightarrow> string"

definition render_embed :: "embed \<Rightarrow> post_message html" where
  "render_embed e = Elem ''span'' [] None [TextNode ''TODO: embed rendering'']"

definition link_marks :: "view_env \<Rightarrow> client_state \<Rightarrow> post_link \<Rightarrow> string" where
  "link_marks env s l =
     (if (case loc_feed (cs_location s) of
            ThreadFeed tid _ \<Rightarrow> pl_thread l \<noteq> 0 \<and> tid \<noteq> pl_thread l
          | _ \<Rightarrow> True)
      then '' '' @ [CHR 0xE2, CHR 0x9E, CHR 0xA1] else []) @
     (if pl_id l \<in> mine s then '' '' @ localize_literal (ve_lang env) ''you'' else [])"

definition render_post_link :: "view_env \<Rightarrow> client_state \<Rightarrow> post_link \<Rightarrow> post_message html" where
  "render_post_link env s l =
     Fragment
       [Elem ''a'' [] None
          (if link_marks env s l \<noteq> [] then [TextNode (link_marks env s l)] else []),
        Elem ''a'' [] (Some (navigate_and
            \<lparr>loc_feed = ThreadFeed (pl_thread l) (pl_page l), loc_focus = Some (FocusPost (pl_id l))\<rparr>
            PostNop))
          [TextNode '' #'']]"

text \<open>
  The text of a dice roll. \<^verbatim>\<open>abs\<close> of the smallest \<^verbatim>\<open>i16\<close> and the \<^verbatim>\<open>i32\<close> sum wrap around.
\<close>

definition show_abs :: "16 word \<Rightarrow> string" where
  "show_abs w = show_signed (if sint w < 0 then - w else w)"

definition dice_sum :: "16 word \<Rightarrow> u16 list \<Rightarrow> 32 word" where
  "dice_sum offset results =
     foldl (\<lambda>sum r. sum + ucast r) 0 results + (if offset \<noteq> 0 then scast offset else 0)"

fun dice_results :: "u16 list \<Rightarrow> string" where
  "dice_results [] = []"
| "dice_results [r] = show_unsigned r"
| "dice_results (r # rs) = show_unsigned r @ '' + '' @ dice_results rs"

definition show_dice :: "16 word \<Rightarrow> u16 \<Rightarrow> u16 list \<Rightarrow> string" where
  "show_dice offset faces results =
     (let sign = (if sint offset < 0 then ''-'' else ''+'') in
      ''#'' @ (if 1 < length results then show_nat (length results) else []) @
      ''d'' @ show_unsigned faces @
      (if offset \<noteq> 0 then sign @ show_abs offset else []) @
      dice_results results @
      (if offset \<noteq> 0 then sign @ '' '' @ show_abs offset else []) @
      '' = '' @ show_signed (dice_sum offset results))"

fun command_text :: "command \<Rightarrow> string" where
  "command_text (Autobahn hours) = ''#autobahn('' @ show_unsigned hours @ '')''"
| "command_text (EightBall m) = ''#8ball '' @ m"
| "command_text (Flip b) = ''#flip '' @ (if b then ''flap'' else ''flop'')"
| "command_text (Pyu n) = ''#pyu '' @ show_unsigned n"
| "command_text (PCount n) = ''#pcount '' @ show_unsigned n"
| "command_text (Dice offset faces results) = show_dice offset faces results"
| "command_text (Countdown start secs) = []"

definition render_command :: "command \<Rightarrow> post_message html" where
  "render_command comm =
     (case comm of
        Countdown start secs \<Rightarrow> Child (CountdownChild start (start + secs))
      | _ \<Rightarrow> Elem ''strong'' [] None [TextNode (command_text comm)])"

primrec body_render :: "view_env \<Rightarrow> client_state \<Rightarrow> node \<Rightarrow> post_message html" where
  "body_render env s Empty = Fragment []"
| "body_render env s (Text t) = TextNode t"
| "body_render env s NewLine = Elem ''br'' [] None []"
| "body_render env s (Siblings l r) = Fragment [body_render env s l, body_render env s r]"
| "body_render env s (PostLink l) = render_post_link env s l"
| "body_render env s (Command comm) = render_command comm"
| "body_render env s (URL u) = Elem ''a'' [(''href'', u), (''target'', ''_blank'')] None [TextNode u]"
| "body_render env s (Reference lbl u) =
     Elem ''a'' [(''href'', u), (''target'', ''_blank'')] None [TextNode (''>>>/'' @ lbl @ ''/'')]"
| "body_render env s (Embed e) = render_embed e"
| "body_render env s (Code code) = Elem ''div'' [] None [RawHtml code]"
| "body_render env s (Spoiler ch) = Elem ''del'' [] None [body_render env s ch]"
| "body_render env s (Quoted ch) = Elem ''em'' [] None [body_render env s ch]"
| "body_render env s (Bold ch) = Elem ''b'' [] None [body_render env s ch]"
| "body_render env s (Italic ch) = Elem ''i'' [] None [body_render env s ch]"
| "body_render env s (Pending p) =
     Elem ''b'' [(''class'', ''admin'')] None [TextNode ''ERROR: PENDING NODE SENT TO CLIENT'']"

section \<open>View of a post\<close>

definition render_name :: "view_env \<Rightarrow> client_state \<Rightarrow> post \<Rightarrow> post_message html" where
  "render_name env s p =
     Elem ''b'' [(''class'', if post_sage p then ''name sage'' else ''name'')] None
       [Fragment
         ((if forced_anonymity (cs_options s) \<or> post_name p = None \<and> post_trip p = None then
             [Elem ''span'' [] None [TextNode (localize_literal (ve_lang env) ''anon'')]]
           else
             (case post_name p of Some n \<Rightarrow> [Elem ''span'' [] None [TextNode n]] | None \<Rightarrow> []) @
             (case post_trip p of Some t \<Rightarrow> [Elem ''code'' [] None [TextNode t]] | None \<Rightarrow> [])) @
          (if post_id p \<in> mine s
           then [Elem ''i'' [] None [TextNode (localize_literal (ve_lang env) ''you'')]] else []))]"

definition post_thread_info :: "client_state \<Rightarrow> post \<Rightarrow> thread option" where
  "post_thread_info s p = (if post_id p = post_thread p then threads s (post_thread p) else None)"

definition render_thread_title :: "thread option \<Rightarrow> post_message html" where
  "render_thread_title th =
     (case th of
        Some t \<Rightarrow> Fragment
          (map (\<lambda>tag. Elem ''b'' [] None [TextNode (''/'' @ tag @ ''/'')]) (th_tags t) @
           [Elem ''h3'' [] None
              [TextNode ([CHR 0xE3, CHR 0x80, CHR 0x8C] @ th_subject t @ [CHR 0xE3, CHR 0x80, CHR 0x8D])]])
      | None \<Rightarrow> Fragment [])"

definition flag_image :: "string \<Rightarrow> string \<Rightarrow> post_message html" where
  "flag_image code nm =
     Elem ''img'' [(''class'', ''flag''), (''src'', ''/assets/flags/'' @ code @ ''.svg''), (''title'', nm)]
       None []"

text \<open>The flag, which panics with the search for the name of its country.\<close>

definition render_flag :: "post \<Rightarrow> post_message html run" where
  "render_flag p =
     (case post_flag p of
        Some code \<Rightarrow>
          (case get_name code of
             Done (Some nm) \<Rightarrow> Done (flag_image code nm)
           | Done None \<Rightarrow> Done (Fragment [])
           | Panicked \<Rightarrow> Panicked
           | Diverged \<Rightarrow> Diverged)
      | None \<Rightarrow> Done (Fragment []))"

definition render_thread_links :: "view_env \<Rightarrow> client_state \<Rightarrow> post \<Rightarrow> post_message html" where
  "render_thread_links env s p =
     (if post_thread_info s p \<noteq> None \<and> \<not> is_thread (cs_location s) then
        Fragment
          [span_button (ve_lang env) ''top''
             (navigate_and \<lparr>loc_feed = ThreadFeed (post_id p) 0, loc_focus = Some FocusTop\<rparr> PostNop),
           span_button (ve_lang env) ''bottom''
             (navigate_and \<lparr>loc_feed = ThreadFeed (post_id p) (- 1), loc_focus = Some FocusBottom\<rparr> PostNop)]
      else Fragment [])"

fun then_render :: "('a \<Rightarrow> 'b) \<Rightarrow> 'a run \<Rightarrow> 'b run" where
  "then_render f (Done x) = Done (f x)"
| "then_render f Panicked = Panicked"
| "then_render f Diverged = Diverged"

definition header_with ::
  "view_env \<Rightarrow> client_state \<Rightarrow> post \<Rightarrow> post_message html \<Rightarrow> post_message html" where
  "header_with env s p flag =
     Elem ''header'' [(''class'', ''spaced'')] None
       [render_thread_title (post_thread_info s p), render_name env s p, flag,
        Child (TimeViewChild (post_created_on p)),
        Elem ''nav'' [(''class'', ''spaced'')] None
          [Elem ''a'' [] None [TextNode ''#''],
           Elem ''a'' [] None [TextNode (show_unsigned (post_id p))]],
        render_thread_links env s p,
        Child (MenuChild (post_id p))]"

definition render_header :: "view_env \<Rightarrow> client_state \<Rightarrow> post \<Rightarrow> post_message html run" where
  "render_header env s p = then_render (header_with env s p) (render_flag p)"

definition file_size :: "view_env \<Rightarrow> u64 \<Rightarrow> string" where
  "file_size env sz =
     (if sz < push_bit 10 1 then show_unsigned sz @ '' B''
      else if sz < push_bit 20 1 then show_unsigned (sz div push_bit 20 1) @ '' KB''
      else ve_show_mb env sz @ '' MB'')"

definition file_info :: "view_env \<Rightarrow> image_common \<Rightarrow> string list" where
  "file_info env c =
     (if audio c then [[CHR 0xE2, CHR 0x99, CHR 0xAB]] else []) @
     (if image_common.duration c \<noteq> 0 then [format_duration (ucast (image_common.duration c))] else []) @
     [file_size env (img_size c)] @
     (if width c \<noteq> 0 \<or> height c \<noteq> 0 then [show_unsigned (width c) @ ''x'' @ show_unsigned (height c)] else []) @
     (case artist c of
        Some a \<Rightarrow> [a] @ (if title c \<noteq> None then ['' - ''] else [])
      | None \<Rightarrow> []) @
     (case title c of Some t \<Rightarrow> [t] | None \<Rightarrow> [])"

definition search_image_url :: "view_env \<Rightarrow> image \<Rightarrow> string" where
  "search_image_url env img =
     (let c = img_common img;
          (root, typ) =
            (if file_type c \<in> {JPEG, PNG, GIF} \<and> img_size c < push_bit 20 8
             then (''src'', file_type c) else (''thumb'', thumb_type c))
      in ve_host env @ ''/assets/images/'' @ root @ ''/'' @ hex_encode (ve_codecs env) (sha1 img) @
         ''.'' @ extension typ)"

definition render_image_search :: "view_env \<Rightarrow> client_state \<Rightarrow> image \<Rightarrow> post_message html" where
  "render_image_search env s img =
     (if thumb_type (img_common img) \<in> {NoFile, PDF} then Fragment []
      else Elem ''span'' [(''class'', ''spaced'')] None
        (List.map_filter
          (\<lambda>pr. map_option
             (\<lambda>u. Elem ''a''
                [(''class'', ''image-search''), (''target'', ''_blank''), (''rel'', ''nofollow''), (''href'', u)]
                None [TextNode (provider_symbol pr)])
             (provider_url (ve_codecs env) pr img (search_image_url env img)))
          (enabled_image_search (cs_options s))))"

definition hides_images :: "client_state \<Rightarrow> bool" where
  "hides_images s \<longleftrightarrow> hide_thumbnails (cs_options s) \<or> work_mode (cs_options s)"

definition render_figcaption ::
  "view_env \<Rightarrow> client_state \<Rightarrow> post_inner \<Rightarrow> image \<Rightarrow> post_message html" where
  "render_figcaption env s i img =
     (let c = img_common img; nm = img_name c @ ''.'' @ extension (file_type c) in
      Elem ''figcaption'' [(''class'', ''spaced'')] None
        [if hides_images s
         then span_button (ve_lang env) (if reveal_image i then ''hide'' else ''show'') (send_msg ImageHideToggle)
         else Fragment [],
         render_image_search env s img,
         Elem ''span'' [(''class'', ''file-info'')] None
           (map (\<lambda>t. Elem ''span'' [] None [TextNode t]) (file_info env c)),
         if expand_image i \<and> is_expandable (file_type c)
         then span_button (ve_lang env) ''contract'' (send_msg ImageContract) else Fragment [],
         Elem ''a'' [(''href'', source_path (ve_codecs env) s img), (''download'', nm)] None [TextNode nm]])"

definition is_audio :: "image_common \<Rightarrow> bool" where
  "is_audio c \<longleftrightarrow>
     file_type c \<in> {MP3, FLAC} \<or> file_type c \<in> {WEBM, MP4, OGG} \<and> \<not> video c"

text \<open>Width, height and address of what a figure shows.\<close>

definition figure_source ::
  "view_env \<Rightarrow> client_state \<Rightarrow> post_inner \<Rightarrow> image \<Rightarrow> u16 \<times> u16 \<times> string" where
  "figure_source env s i img =
     (let c = img_common img; src = source_path (ve_codecs env) s img in
      if \<not> expand_image i \<or> is_audio c then
        if thumb_type c = NoFile then
          (150, 150, if file_type c \<in> {WEBM, MP4, MP3, OGG, FLAC} then ''/assets/audio.png''
                     else ''/assets/file.png'')
        else if spoilered c \<and> \<not> reveal_image_spoilers (cs_options s) then
          (150, 150, ''/assets/spoil/default.jpg'')
        else if file_type c = GIF \<and> expand_gif_thumbnails (cs_options s) then
          (thumb_width c, thumb_height c, src)
        else (thumb_width c, thumb_height c, thumb_path (ve_codecs env) s img)
      else (width c, height c, src))"

definition expansion_class :: "image_expansion_mode \<Rightarrow> string" where
  "expansion_class m =
     (case m of
        FitWidth \<Rightarrow> ''expanded fit-to-width''
      | FitHeight \<Rightarrow> ''expanded fit-to-height''
      | FitScreen \<Rightarrow> ''expanded fit-to-width fit-to-height''
      | ExpandNone \<Rightarrow> ''expanded'')"

definition contract_click :: "post_message callback" where
  "contract_click = (\<lambda>button. (if button \<noteq> 0 then PostNop else ImageContract, []))"

definition thumb_click :: "image_expansion_mode \<Rightarrow> image_common \<Rightarrow> post_message callback" where
  "thumb_click mode c = (\<lambda>button.
     (if mode = ExpandNone \<or> button \<noteq> 0 then PostNop
      else if is_audio c \<or> is_expandable (file_type c) then ImageExpand
      else ImageDownload, []))"

definition render_thumb ::
  "view_env \<Rightarrow> client_state \<Rightarrow> post_inner \<Rightarrow> image \<Rightarrow> post_message html \<times> post_message list" where
  "render_thumb env s i img =
     (let c = img_common img;
          mode = image_expansion_mode (cs_options s);
          (w, h, url) = figure_source env s i img
      in if expand_image i \<and> \<not> is_audio c then
           let m1 = (if mode = FitWidth then [CheckTallImage] else []) in
           if file_type c \<in> {OGG, MP4, WEBM} then
             (Elem ''video'' [(''src'', url), (''cls'', expansion_class mode), (''autoplay'', ''true''),
                (''controls'', ''true''), (''loop'', ''true'')] (Some contract_click) [],
              m1 @ [SetVolume])
           else
             (Elem ''img'' [(''src'', url), (''width'', show_unsigned w), (''height'', show_unsigned h),
                (''cls'', expansion_class mode)] (Some contract_click) [], m1)
         else
           (Elem ''img'' [(''src'', url), (''width'', show_unsigned w), (''height'', show_unsigned h)]
              (Some (thumb_click mode c)) [], []))"

definition render_figure ::
  "view_env \<Rightarrow> client_state \<Rightarrow> post_inner \<Rightarrow> image \<Rightarrow> post_message html \<times> post_message list" where
  "render_figure env s i img =
     (if \<not> reveal_image i \<and> hides_images s then (Fragment [], [])
      else
        let (thumb, ms) = render_thumb env s i img;
            audio_shown = (expand_image i \<and> is_audio (img_common img))
        in (Elem ''figure'' [] None
              [thumb,
               if audio_shown
               then Elem ''audio'' [(''autoplay'', ''true''), (''loop'', ''true''), (''controls'', ''true''),
                      (''src'', source_path (ve_codecs env) s img)] None []
               else Fragment []],
            ms @ (if audio_shown then [SetVolume] else [])))"

text \<open>\<^verbatim>\<open>render_id\<close> and \<^verbatim>\<open>render_body\<close> are those of a post inside a thread.\<close>

definition post_article ::
  "view_env \<Rightarrow> client_state \<Rightarrow> post_inner \<Rightarrow> post \<Rightarrow> post_message html \<Rightarrow> post_message html \<times> post_message list" where
  "post_article env s i p header =
     (let cls = ''glass'' @ (if post_open p then '' open'' else []) @
            (if post_id p = post_thread p then '' op'' else []);
          (figure, ms) = (case post_image p of Some img \<Rightarrow> render_figure env s i img | None \<Rightarrow> (Fragment [], []))
      in (Elem ''article'' [(''id'', ''p-'' @ show_unsigned (post_id p)), (''class'', cls)] None
            [header,
             case post_image p of Some img \<Rightarrow> render_figcaption env s i img | None \<Rightarrow> Fragment [],
             Elem ''div'' [(''class'', ''post-container'')] None
               [figure, Elem ''blockquote'' [] None [body_render env s (post_body p)]],
             Fragment []],
          ms))"

definition post_view ::
  "view_env \<Rightarrow> u64 \<Rightarrow> client_state \<Rightarrow> post_inner \<Rightarrow> (post_message html \<times> post_message list) run" where
  "post_view env pid s i =
     (case posts s pid of
        Some p \<Rightarrow> then_render (post_article env s i p) (render_header env s p)
      | None \<Rightarrow> Done (Fragment [], []))"

section \<open>Post menu\<close>

datatype menu_message = MenuRerender | ToggleExpand

definition menu_update :: "menu_message \<Rightarrow> bool \<Rightarrow> bool \<times> bool" where
  "menu_update m expanded =
     (case m of MenuRerender \<Rightarrow> (expanded, True) | ToggleExpand \<Rightarrow> (\<not> expanded, True))"

definition menu_icon :: "menu_message html" where
  "menu_icon =
     Elem ''svg'' [(''xmlns'', ''http://www.w3.org/2000/svg''), (''width'', ''8''), (''height'', ''8''),
         (''viewBox'', ''0 0 8 8'')] (Some (send_msg ToggleExpand))
       [Elem ''path'' [(''d'', ''M1.5 0l-1.5 1.5 4 4 4-4-1.5-1.5-2.5 2.5-2.5-2.5z''),
          (''transform'', ''translate(0 1)'')] None []]"

definition menu_view :: "bool \<Rightarrow> menu_message html" where
  "menu_view expanded =
     Elem ''a'' [(''class'', ''svg-link control'')] (Some (send_msg ToggleExpand))
       [menu_icon,
        if expanded then Elem ''ul'' [(''class'', ''popup-menu glass'')] None
                           [Elem ''li'' [] None [TextNode ''TODO'']]
        else Fragment []]"

text \<open>
  A click reaches the handlers of the clicked element and then of the elements around it.
\<close>

definition click_messages :: "nat \<Rightarrow> 'm html list \<Rightarrow> 'm list" where
  "click_messages button trail =
     List.map_filter (\<lambda>h. case h of Elem _ _ (Some cb) _ \<Rightarrow> Some (fst (cb button)) | _ \<Rightarrow> None) trail"

text \<open>
  The icon and the link around it both toggle the menu, so that a click on the icon changes
  nothing.
\<close>

theorem menu_icon_click_does_nothing:
  "foldl (\<lambda>e m. fst (menu_update m e)) expanded
     (click_messages 0 [menu_icon, menu_view expanded]) = expanded"
  by (simp add: click_messages_def menu_icon_def menu_view_def send_msg_def menu_update_def
      List.map_filter_simps)

section \<open>What a post shows\<close>

text \<open>Every size below one megabyte and from one kilobyte on is shown as nothing.\<close>

theorem file_size_kilobytes:
  assumes "2 ^ 10 \<le> unat sz" "unat sz < 2 ^ 20"
  shows "file_size env sz = ''0 KB''"
proof -
  have "unat (sz div 1048576) = 0" using assms(2) by (simp add: unat_div)
  then have "sz div 1048576 = 0" by (simp add: unat_eq_zero)
  moreover have "show_nat 0 = ''0''" by code_simp
  ultimately show ?thesis
    using assms by (simp add: file_size_def word_less_nat_alt show_unsigned_def)
qed

text \<open>The addresses of the images, videos and sounds an element tree loads.\<close>

fun media_sources :: "'m html \<Rightarrow> string list" where
  "media_sources (Elem t attrs cb ch) =
     (if t \<in> {''img'', ''video'', ''audio''} then map snd (filter (\<lambda>(k, _). k = ''src'') attrs) else []) @
     concat (map media_sources ch)"
| "media_sources (Fragment ch) = concat (map media_sources ch)"
| "media_sources (TextNode t) = []"
| "media_sources (RawHtml t) = []"
| "media_sources (Child c) = []"
| "media_sources (Input attrs oi oc) = []"
| "media_sources (Form attrs os ch) = concat (map media_sources ch)"

lemma body_has_no_media: "media_sources (body_render env s n) = []"
  by (induction n)
     (simp_all add: render_post_link_def render_command_def render_embed_def split: command.split)

lemma buttons_have_no_media [simp]: "media_sources (span_button l lbl cb) = []"
  by (simp add: span_button_def anchor_def)

lemma concat_map_empty: "(\<And>x. x \<in> set xs \<Longrightarrow> f x = []) \<Longrightarrow> concat (map f xs) = []"
  by (induction xs) auto

lemma figcaption_has_no_media: "media_sources (render_figcaption env s i img) = []"
proof -
  have "media_sources (render_image_search env s img) = []"
    by (auto simp: render_image_search_def List.map_filter_def comp_def intro!: concat_map_empty)
  then show ?thesis
    by (simp add: render_figcaption_def Let_def comp_def)
qed

lemma header_media:
  assumes "render_header env s p = Done h"
  shows "\<forall>src \<in> set (media_sources h).
    \<exists>code. post_flag p = Some code \<and> src = ''/assets/flags/'' @ code @ ''.svg''"
proof -
  have "media_sources (render_name env s p) = []"
    by (cases "post_name p"; cases "post_trip p") (simp_all add: render_name_def)
  moreover have "media_sources (render_thread_title (post_thread_info s p)) = []"
    by (auto simp: render_thread_title_def comp_def split: option.split)
  moreover have "media_sources (render_thread_links env s p) = []"
    by (simp add: render_thread_links_def)
  moreover obtain f where f: "render_flag p = Done f"
    using assms by (cases "render_flag p") (simp_all add: render_header_def)
  moreover have "\<forall>src \<in> set (media_sources f). \<exists>code. post_flag p = Some code \<and>
      src = ''/assets/flags/'' @ code @ ''.svg''"
    using f by (auto simp: render_flag_def flag_image_def split: option.splits run.splits)
  ultimately show ?thesis
    using assms by (auto simp: render_header_def header_with_def)
qed

text \<open>
  C38: With hidden thumbnails or in work mode, a post whose image the user has not revealed loads
  no file: the only images of the whole post are country flags, and nothing is sent to play.
\<close>

theorem hidden_images_not_loaded:
  assumes "hides_images s" "\<not> reveal_image i" "posts s pid = Some p"
    and "post_view env pid s i = Done (h, ms)"
  shows "ms = [] \<and> (\<forall>src \<in> set (media_sources h).
    \<exists>code. post_flag p = Some code \<and> src = ''/assets/flags/'' @ code @ ''.svg'')"
proof -
  obtain hd where hd: "render_header env s p = Done hd"
    using assms(3,4) by (cases "render_header env s p") (simp_all add: post_view_def)
  have fig: "render_figure env s i img = (Fragment [], [])" for img
    using assms(1,2) by (simp add: render_figure_def)
  have "(h, ms) = post_article env s i p hd"
    using assms(3,4) hd by (simp add: post_view_def)
  then show ?thesis
    using header_media [OF hd]
    by (auto simp: post_article_def fig figcaption_has_no_media body_has_no_media split: option.splits)
qed

lemma body_render_posts: "body_render env (s\<lparr>posts := ps\<rparr>) n = body_render env s n"
  by (induction n) (simp_all add: render_post_link_def link_marks_def)

text \<open>The parts of an article with the image read only options and configuration.\<close>

lemma paths_posts [simp]:
  "source_path enc (s\<lparr>posts := ps\<rparr>) img = source_path enc s img"
  "thumb_path enc (s\<lparr>posts := ps\<rparr>) img = thumb_path enc s img"
  "hides_images (s\<lparr>posts := ps\<rparr>) = hides_images s"
  by (simp_all add: source_path_def thumb_path_def image_root_def hides_images_def)

lemma figure_source_posts [simp]:
  "figure_source env (s\<lparr>posts := ps\<rparr>) i img = figure_source env s i img"
  by (simp add: figure_source_def Let_def cong: if_cong)

lemma render_thumb_posts [simp]:
  "render_thumb env (s\<lparr>posts := ps\<rparr>) i img = render_thumb env s i img"
  by (simp add: render_thumb_def Let_def cong: if_cong)

lemma image_render_posts:
  "render_figure env (s\<lparr>posts := ps\<rparr>) i img = render_figure env s i img"
  "render_figcaption env (s\<lparr>posts := ps\<rparr>) i img = render_figcaption env s i img"
  by (simp_all add: render_figcaption_def render_figure_def render_image_search_def Let_def
      cong: if_cong)

text \<open>
  With forced anonymity a post looks the same whatever name and tripcode it has.
\<close>

theorem anonymous_view:
  assumes "forced_anonymity (cs_options s)" "posts s pid = Some p"
  shows "post_view env pid
      (s\<lparr>posts := (posts s)(pid \<mapsto> p\<lparr>post_name := nm, post_trip := trip\<rparr>)\<rparr>) i =
    post_view env pid s i"
proof -
  let ?p = "p\<lparr>post_name := nm, post_trip := trip\<rparr>"
  let ?s = "s\<lparr>posts := (posts s)(pid \<mapsto> ?p)\<rparr>"
  have "render_header env ?s ?p = render_header env s p"
    using assms(1)
    by (simp add: render_header_def header_with_def [abs_def] render_name_def render_flag_def
        render_thread_links_def post_thread_info_def)
  moreover have "post_article env ?s i ?p = post_article env s i p"
    by (rule ext, cases "post_image p")
       (simp_all add: post_article_def image_render_posts body_render_posts)
  moreover have "posts ?s pid = Some ?p" by simp
  ultimately show ?thesis
    unfolding post_view_def assms(2) by simp
qed

text \<open>
  A post is shown unless its flag is a code below \<^verbatim>\<open>ad\<close>, for which the view panics; the flag of
  any other code is an image titled with the entry of the country table, and left out without one.
\<close>

theorem post_view_flag:
  assumes "posts s pid = Some p"
  shows "post_view env pid s i =
    (case post_flag p of
       None \<Rightarrow> Done (post_article env s i p (header_with env s p (Fragment [])))
     | Some code \<Rightarrow>
         if length code = 2 \<and> arr_less (code ! 0, code ! 1) (CHR ''a'', CHR ''d'') then Panicked
         else Done (post_article env s i p (header_with env s p
           (case (if length code = 2 then map_of COUNTRIES (code ! 0, code ! 1) else None) of
              Some nm \<Rightarrow> flag_image code nm
            | None \<Rightarrow> Fragment []))))"
proof (cases "post_flag p")
  case (Some code)
  then show ?thesis
    using assms get_name_lookup [of code]
    by (auto simp: post_view_def render_header_def render_flag_def split: option.split)
qed (use assms in \<open>simp add: post_view_def render_header_def render_flag_def\<close>)

text \<open>No message ever marks an image as tall, so that contracting an image never scrolls.\<close>

theorem image_never_tall:
  "\<not> tall_image (foldl (\<lambda>i m. fst (post_update doc pid s m i)) post_inner_default ms) \<and>
   (\<not> tall_image i \<longrightarrow> snd (snd (post_update doc pid s ImageContract i)) = [])"
proof -
  have "\<not> tall_image (fst (post_update doc pid s m i))" if "\<not> tall_image i" for m i
    using that by (cases m) simp_all
  then have "\<not> tall_image i \<Longrightarrow> \<not> tall_image (foldl (\<lambda>i m. fst (post_update doc pid s m i)) i ms)" for i ms
    by (induction ms arbitrary: i) simp_all
  then show ?thesis by (simp add: post_inner_default_def)
qed

section \<open>Texts of a body\<close>

fun text_content :: "'m html \<Rightarrow> string" where
  "text_content (TextNode t) = t"
| "text_content (Elem t attrs cb ch) = concat (map text_content ch)"
| "text_content (Fragment ch) = concat (map text_content ch)"
| "text_content (RawHtml t) = []"
| "text_content (Child c) = []"
| "text_content (Input attrs oi oc) = []"
| "text_content (Form attrs os ch) = concat (map text_content ch)"

text \<open>
  The text of a post link is its marks alone: the number of the post it points to is not shown.
\<close>

theorem post_link_shows_no_number:
  "text_content (render_post_link env s l) = link_marks env s l @ '' #''"
  by (simp add: render_post_link_def)

lemma foldl_sum_word:
  "foldl (\<lambda>sum r. sum + ucast r) (word_of_int a) rs = (word_of_int (a + (\<Sum>r\<leftarrow>rs. uint r)) :: 32 word)"
  for rs :: "u16 list"
proof (induction rs arbitrary: a)
  case (Cons r rs)
  have "(word_of_int a + ucast r :: 32 word) = word_of_int (a + uint r)"
    by (simp only: ucast_eq of_int_add)
  then have "foldl (\<lambda>sum r. sum + ucast r) (word_of_int a :: 32 word) (r # rs) =
      foldl (\<lambda>sum r. sum + ucast r) (word_of_int (a + uint r)) rs"
    by (simp only: foldl_Cons)
  also have "\<dots> = word_of_int (a + uint r + (\<Sum>r\<leftarrow>rs. uint r))"
    by (rule Cons)
  finally show ?case by (simp only: list.map sum_list.Cons add.assoc)
qed simp

lemma sum_u16_bounds: "0 \<le> (\<Sum>r\<leftarrow>rs. uint r) \<and> (\<Sum>r\<leftarrow>rs. uint r) \<le> 65535 * int (length rs)"
  for rs :: "u16 list"
proof (induction rs)
  case (Cons r rs)
  have "0 \<le> uint r" "uint r < 2 ^ 16" using uint_bounded [of r] by simp_all
  with Cons show ?case by simp
qed simp

text \<open>
  The text of a dice roll ends in the sum of its results and its offset, as an integer, for
  every roll the parser accepts.
\<close>

theorem dice_text_ends_in_sum:
  assumes "length results \<le> 10"
  shows "\<exists>front. show_dice offset faces results = front @ '' = '' @ show_signed (dice_sum offset results) \<and>
    sint (dice_sum offset results) = (\<Sum>r\<leftarrow>results. uint r) + sint offset"
proof -
  let ?sum = "(\<Sum>r\<leftarrow>results. uint r) + sint offset"
  have off: "- (2 ^ 15) \<le> sint offset" "sint offset < 2 ^ 15"
    using sint_ge [of offset] sint_lt [of offset] by simp_all
  have f: "foldl (\<lambda>sum r. sum + ucast r) (0 :: 32 word) results = word_of_int (\<Sum>r\<leftarrow>results. uint r)"
    using foldl_sum_word [of 0 results] by (simp only: of_int_0 add_0)
  have o: "(if offset \<noteq> 0 then scast offset else 0) = (word_of_int (sint offset) :: 32 word)"
    by (cases "offset = 0") (simp_all only: scast_eq if_True if_False not_True_eq_False
        not_False_eq_True signed_0 of_int_0 refl simp_thms if_cancel)
  have "dice_sum offset results = word_of_int ?sum"
    unfolding dice_sum_def f o by (simp only: of_int_add)
  then have "sint (dice_sum offset results) = signed_take_bit 31 ?sum"
    by (simp only: sint_sbintrunc') simp
  also have "\<dots> = ?sum"
  proof (rule signed_take_bit_int_eq_self)
    have "(\<Sum>r\<leftarrow>results. uint r) \<le> 655350" "0 \<le> (\<Sum>r\<leftarrow>results. uint r)"
      using sum_u16_bounds [of results] assms by linarith+
    then show "- (2 ^ 31) \<le> ?sum" "?sum < 2 ^ 31" using off by simp_all
  qed
  finally show ?thesis by (auto simp: show_dice_def Let_def)
qed

text \<open>Nothing but a pending node shows the error for pending nodes.\<close>

fun shows_error :: "'m html \<Rightarrow> bool" where
  "shows_error (Elem t attrs cb ch) \<longleftrightarrow> (''class'', ''admin'') \<in> set attrs \<or> (\<exists>c \<in> set ch. shows_error c)"
| "shows_error (Fragment ch) \<longleftrightarrow> (\<exists>c \<in> set ch. shows_error c)"
| "shows_error (Form attrs os ch) \<longleftrightarrow> (\<exists>c \<in> set ch. shows_error c)"
| "shows_error _ \<longleftrightarrow> False"

lemma static_body_no_error: "body_static n \<Longrightarrow> \<not> shows_error (body_render env s n)"
  by (induction n) (simp_all add: render_post_link_def)

section \<open>A small post\<close>

definition demo_pack :: language_pack where
  "demo_pack = language_pack_default\<lparr>literals := [''anon'' \<mapsto> ''Anonymous'', ''you'' \<mapsto> ''You'']\<rparr>"

definition demo_view :: view_env where
  "demo_view =
     \<lparr>ve_lang = demo_pack, ve_codecs = \<lparr>hex_encode = (\<lambda>_. ''00''), base64_encode = (\<lambda>_. ''00'')\<rparr>,
      ve_host = ''host'', ve_show_mb = (\<lambda>_. ''1.0'')\<rparr>"

definition demo_image :: image where
  "demo_image =
     \<lparr>img_common = \<lparr>audio = False, video = False, file_type = PNG, thumb_type = JPEG, width = 20,
        height = 10, thumb_width = 2, thumb_height = 1, duration = 0, img_size = 99, artist = None,
        title = None, img_name = ''pic'', spoilered = False\<rparr>,
      sha1 = [], md5 = []\<rparr>"

definition demo_post :: post where
  "demo_post = post_default\<lparr>post_id := 4, post_thread := 4, post_name := Some ''name'',
     post_flag := Some ''fr'', post_image := Some demo_image, post_body := Text ''body''\<rparr>"

definition demo_state :: client_state where
  "demo_state = client_state_default
     \<lparr>posts := [4 \<mapsto> demo_post],
      cs_options := options_default\<lparr>work_mode := True, forced_anonymity := True\<rparr>\<rparr>"

lemma demo_facts:
  "posts demo_state 4 = Some demo_post" "hides_images demo_state" "forced_anonymity (cs_options demo_state)"
  "post_flag demo_post = Some ''fr''"
  by (simp_all add: demo_state_def hides_images_def demo_post_def)

lemma france: "map_of COUNTRIES (CHR ''f'', CHR ''r'') = Some ''France''"
proof -
  have "COUNTRIES ! 74 = ((CHR ''f'', CHR ''r''), ''France'')"
    by (simp add: COUNTRIES_def)
  then show ?thesis
    using sorted_table_lookup [OF COUNTRIES_sorted, of 74] by (simp add: COUNTRIES_bounds)
qed

lemma fr_not_below: "\<not> arr_less (CHR ''f'', CHR ''r'') (CHR ''a'', CHR ''d'')"
  by (simp add: arr_less_iff arr_num_def)

theorem post_view_flag_witness:
  "\<exists>nm. map_of COUNTRIES (CHR ''f'', CHR ''r'') = Some nm \<and> post_view demo_view 4 demo_state post_inner_default =
    Done (post_article demo_view demo_state post_inner_default demo_post
      (header_with demo_view demo_state demo_post (flag_image ''fr'' nm)))"
proof -
  show ?thesis
    using post_view_flag [OF demo_facts(1), of demo_view post_inner_default] fr_not_below
    by (simp add: demo_facts(4) france)
qed

theorem hidden_images_not_loaded_witness:
  "\<exists>h. post_view demo_view 4 demo_state post_inner_default = Done (h, []) \<and>
    set (media_sources h) \<subseteq> {''/assets/flags/fr.svg''}"
proof -
  have "render_flag demo_post = Done (flag_image ''fr'' ''France'')"
    using get_name_lookup [of "''fr''"] fr_not_below by (simp add: render_flag_def demo_facts(4) france)
  then obtain h ms where v: "post_view demo_view 4 demo_state post_inner_default = Done (h, ms)"
    by (simp add: post_view_def demo_facts(1) render_header_def) (metis surj_pair)
  then show ?thesis
    using hidden_images_not_loaded [OF demo_facts(2) _ demo_facts(1) v]
    by (auto simp: post_inner_default_def demo_facts(4))
qed

theorem anonymous_view_witness:
  "post_view demo_view 4 (demo_state\<lparr>posts := (posts demo_state)(4 \<mapsto>
       demo_post\<lparr>post_name := None, post_trip := Some ''trip''\<rparr>)\<rparr>) post_inner_default =
   post_view demo_view 4 demo_state post_inner_default"
  by (rule anonymous_view [OF demo_facts(3,1)])

theorem dice_text_ends_in_sum_witness: "sint (dice_sum (- 1) [3, 4]) = 6"
  using dice_text_ends_in_sum [of "[3, 4]" "- 1" 6] by simp

end
