(* ===== verification/Client_App.thy ===== *)
theory Client_App
  imports Client_Components
begin

text \<open>
  The start of the page (\<^verbatim>\<open>client/src/lib.rs\<close>) with the key pair that identifies its user
  (\<^verbatim>\<open>KeyPair\<close> and \<^verbatim>\<open>init\<close> of \<^verbatim>\<open>client/src/state.rs\<close>), local storage, the static frame of the page
  (\<^verbatim>\<open>banner.rs\<close>, \<^verbatim>\<open>user_bg.rs\<close>) and the function components send messages with
  (\<^verbatim>\<open>client/src/connection.rs\<close>). The browser's cryptography, bincode, deflate, base64 and JSON are
  arguments. Local storage outlives the page: what happens over several page loads is a step
  relation on the storage and the running page, if there is one.
\<close>

section \<open>Cached globals\<close>

text \<open>
  The window, the document, local storage and the host are looked up once: \<^verbatim>\<open>cache_variable!\<close> keeps
  what the first lookup returned.
\<close>

definition cache_variable :: "'v \<Rightarrow> 'v option \<Rightarrow> 'v \<times> 'v option" where
  "cache_variable get cached = (case cached of Some v \<Rightarrow> (v, cached) | None \<Rightarrow> (get, Some get))"

lemma cache_variable_stable:
  "fst (cache_variable get' (snd (cache_variable get cached))) = fst (cache_variable get cached)"
  by (simp add: cache_variable_def split: option.split)

section \<open>Key pairs\<close>

definition KEY_PAIR_KEY :: string where "KEY_PAIR_KEY = ''key_pair''"

definition OPTIONS_KEY :: string where "OPTIONS_KEY = ''options''"

type_synonym storage = "string \<rightharpoonup> string"

text \<open>Whether reading and writing an entry of the storage fails, with the error.\<close>

record storage_io =
  get_error :: "string \<Rightarrow> string option"
  set_error :: "string option"

text \<open>
  The writers \<^verbatim>\<open>store\<close> stacks: bincode, deflate, base64, with the text of a UTF-8 error; and the
  readers \<^verbatim>\<open>load\<close> stacks, which pull their input on demand, as one function.
\<close>

record key_codec =
  kc_serialize :: "key_pair \<Rightarrow> string + u8 list"
  kc_deflate :: "u8 list \<Rightarrow> string + u8 list"
  kc_base64 :: "u8 list \<Rightarrow> string + u8 list"
  kc_utf8_error :: "u8 list \<Rightarrow> string"
  kc_read :: "u8 list \<Rightarrow> string + key_pair"

definition from_utf8 :: "key_codec \<Rightarrow> u8 list \<Rightarrow> string + string" where
  "from_utf8 codec bs =
     (if utf8_valid (map unat bs) then Inr (from_bytes bs) else Inl (kc_utf8_error codec bs))"

definition key_store :: "key_codec \<Rightarrow> storage_io \<Rightarrow> key_pair \<Rightarrow> storage \<Rightarrow> (string + unit) \<times> storage" where
  "key_store codec io kp st =
     (case rbind (kc_serialize codec kp) (\<lambda>b.
             rbind (kc_deflate codec b) (\<lambda>z.
             rbind (kc_base64 codec z) (from_utf8 codec))) of
        Inl err \<Rightarrow> (Inl err, st)
      | Inr s \<Rightarrow>
          (case set_error io of
             Some err \<Rightarrow> (Inl err, st)
           | None \<Rightarrow> (Inr (), st(KEY_PAIR_KEY \<mapsto> s))))"

definition key_load :: "key_codec \<Rightarrow> storage_io \<Rightarrow> storage \<Rightarrow> string + key_pair option" where
  "key_load codec io st =
     (case get_error io KEY_PAIR_KEY of
        Some err \<Rightarrow> Inl err
      | None \<Rightarrow>
          (case st KEY_PAIR_KEY of
             Some s \<Rightarrow> rbind (kc_read codec (as_bytes s)) (\<lambda>kp. Inr (Some kp))
           | None \<Rightarrow> Inr None))"

datatype js_value = JsString string | JsNumber nat | JsBytes "u8 list"

type_synonym js_object = "(string \<times> js_value) list"

definition algo_dict :: js_object where
  "algo_dict =
     [(''name'', JsString ''RSASSA-PKCS1-v1_5''), (''modulusLength'', JsNumber 4096),
      (''publicExponent'', JsBytes [1, 0, 1]), (''hash'', JsString ''SHA-256'')]"

definition usages :: "string list" where
  "usages = [''sign'']"

text \<open>
  \<^verbatim>\<open>SubtleCrypto\<close>, if the window has one. Keys are opaque handles; a generated pair is
  an object whose properties are keys.
\<close>

type_synonym crypto_key = nat

record crypto =
  crypto_error :: "string option"
  generate_key :: "js_object \<Rightarrow> bool \<Rightarrow> string list \<Rightarrow> string + (string \<Rightarrow> string + crypto_key)"
  export_key :: "string \<Rightarrow> crypto_key \<Rightarrow> string + u8 list"
  import_key :: "string \<Rightarrow> u8 list \<Rightarrow> js_object \<Rightarrow> bool \<Rightarrow> string list \<Rightarrow> string + crypto_key"
  sign_with_key :: "string \<Rightarrow> crypto_key \<Rightarrow> u8 list \<Rightarrow> string + u8 list"

definition subtle_crypto :: "crypto \<Rightarrow> string + crypto" where
  "subtle_crypto cr = (case crypto_error cr of Some err \<Rightarrow> Inl err | None \<Rightarrow> Inr cr)"

definition export_vec :: "crypto \<Rightarrow> (string \<Rightarrow> string + crypto_key) \<Rightarrow> string \<Rightarrow> string \<Rightarrow> string + u8 list" where
  "export_vec cr pair prop format =
     rbind (subtle_crypto cr) (\<lambda>subtle. rbind (pair prop) (export_key subtle format))"

definition key_generate :: "crypto \<Rightarrow> string + key_pair" where
  "key_generate cr =
     rbind (subtle_crypto cr) (\<lambda>subtle.
     rbind (generate_key subtle algo_dict True usages) (\<lambda>pair.
       let priv_key = export_vec cr pair ''privateKey'' ''pkcs8'';
           pub_key = export_vec cr pair ''publicKey'' ''spki''
       in rbind priv_key (\<lambda>priv. rbind pub_key (\<lambda>pub.
            Inr \<lparr>kp_private = priv, kp_public = pub, kp_id = None\<rparr>))))"

definition key_sign :: "crypto \<Rightarrow> key_pair \<Rightarrow> u8 list \<Rightarrow> string + u8 list" where
  "key_sign cr kp buf =
     rbind (subtle_crypto cr) (\<lambda>subtle.
     rbind (import_key subtle ''pkcs8'' (kp_private kp) algo_dict True usages) (\<lambda>key.
     rbind (sign_with_key subtle ''RSASSA-PKCS1-v1_5'' key buf) (\<lambda>arr.
       if length arr \<noteq> 512 then Inl (''unexpected signature length: '' @ show_nat (length arr))
       else Inr arr)))"

section \<open>Start of the page\<close>

definition load_or_generate ::
  "key_codec \<Rightarrow> storage_io \<Rightarrow> crypto \<Rightarrow> storage \<Rightarrow> (string + key_pair) \<times> storage" where
  "load_or_generate codec io cr st =
     (case key_load codec io st of
        Inl err \<Rightarrow> (Inl err, st)
      | Inr (Some kp) \<Rightarrow> (Inr kp, st)
      | Inr None \<Rightarrow>
          (case key_generate cr of
             Inl err \<Rightarrow> (Inl err, st)
           | Inr kp \<Rightarrow>
               (case key_store codec io kp st of
                  (Inl err, st) \<Rightarrow> (Inl err, st)
                | (Inr _, st) \<Rightarrow> (Inr kp, st))))"

text \<open>
  What else the start reads: the address, how saved options parse, whether manual scrolling can
  be set, the embedded configuration and the properties of the window, of which one promises the
  language pack as a JSON text.
\<close>

datatype js_any = JsPromise "string + js_any" | JsText string | JsOther

record page_env =
  pe_pathname :: "string option"
  pe_hash :: "string option"
  pe_options :: "string \<Rightarrow> options option"
  pe_scroll_error :: "string option"
  pe_configs :: "string + configs"
  pe_window :: "string \<Rightarrow> string + js_any"
  pe_cast_error :: "js_any \<Rightarrow> string"
  pe_parse_pack :: "string \<Rightarrow> string + language_pack"

definition load_language_pack :: "page_env \<Rightarrow> string + language_pack" where
  "load_language_pack pe =
     rbind (pe_window pe ''language_pack'') (\<lambda>v.
       case v of
         JsPromise r \<Rightarrow>
           rbind r (\<lambda>x. case x of JsText s \<Rightarrow> pe_parse_pack pe s | _ \<Rightarrow> Inl (pe_cast_error pe x))
       | _ \<Rightarrow> Inl (pe_cast_error pe v))"

text \<open>An error on reading the saved options is unwrapped.\<close>

definition page_init ::
  "key_codec \<Rightarrow> storage_io \<Rightarrow> crypto \<Rightarrow> page_env \<Rightarrow> storage \<Rightarrow> (string + client_state) run \<times> storage" where
  "page_init codec io cr pe st =
     (case load_or_generate codec io cr st of
        (Inl err, st) \<Rightarrow> (Done (Inl err), st)
      | (Inr kp, st) \<Rightarrow>
          if get_error io OPTIONS_KEY \<noteq> None then (Panicked, st)
          else
            (case state_init kp (pe_pathname pe) (pe_hash pe) (Option.bind (st OPTIONS_KEY) (pe_options pe))
                    (pe_scroll_error pe) (pe_configs pe) client_state_default of
               (s, Some err) \<Rightarrow> (Done (Inl err), st)
             | (s, None) \<Rightarrow> (Done (Inr s), st)))"

definition app_create :: "browser \<Rightarrow> subscriber iter_order \<Rightarrow> subscriber \<Rightarrow> client_state \<Rightarrow> app \<times> client_effect list" where
  "app_create br ord sub s =
     state_handle_input br ord (FetchFeed (cs_location s)) sub (app_start s)"

text \<open>The running application is its state and its language pack; errors of both futures are reported in order.\<close>

definition main_js ::
  "key_codec \<Rightarrow> storage_io \<Rightarrow> crypto \<Rightarrow> page_env \<Rightarrow> browser \<Rightarrow> subscriber iter_order \<Rightarrow> subscriber \<Rightarrow> storage \<Rightarrow>
   (string + app \<times> language_pack) run \<times> storage" where
  "main_js codec io cr pe br ord sub st =
     (case page_init codec io cr pe st of
        (Done r, st) \<Rightarrow>
          (Done (rbind r (\<lambda>s. rbind (load_language_pack pe) (\<lambda>l. Inr (fst (app_create br ord sub s), l)))), st)
      | (Panicked, st) \<Rightarrow> (Panicked, st)
      | (Diverged, st) \<Rightarrow> (Diverged, st))"

section \<open>Frame of the page\<close>

definition background_view :: "'m html" where
  "background_view = Elem ''div'' [(''id'', ''user-background'')] None []"

definition banner_view :: "'m html" where
  "banner_view =
     Elem ''span'' [(''id'', ''banner''), (''class'', ''glass'')] None
       [Elem ''b'' [(''id'', ''banner-center''), (''class'', ''spaced'')] None [],
        Elem ''span'' [] None [Child SyncCounterChild]]"

definition app_view :: "'m html" where
  "app_view =
     Elem ''section'' [] None
       [Child BackgroundChild,
        Elem ''div'' [(''class'', ''overlay-container'')] None [Child BannerChild],
        Elem ''section'' [(''id'', ''main'')] None
          [Child (AsideRowChild True),
           Elem ''hr'' [] None [],
           Child ThreadsChild,
           Elem ''hr'' [] None [],
           Child (AsideRowChild False)]]"

text \<open>A click anywhere: the tag and the classes of its target, if that is an element.\<close>

definition document_click :: "(string \<times> string set) option \<Rightarrow> (string \<times> string set) option" where
  "document_click target =
     (case target of
        Some (tag, cls) \<Rightarrow>
          Some (tag, if tag = ''DEL'' then (if ''reveal'' \<in> cls then cls - {''reveal''} else insert ''reveal'' cls) else cls)
      | None \<Rightarrow> None)"

section \<open>Sending from components\<close>

definition send_regular ::
  "deflater \<Rightarrow> 'p serializer \<Rightarrow> message_type \<Rightarrow> 'p \<Rightarrow> io_error + conn_request" where
  "send_regular deflate ser t payload =
     (case write_message ser (encoder_new []) t payload of
        (enc, Some err) \<Rightarrow> Inl err
      | (enc, None) \<Rightarrow> rbind (encoder_finish deflate enc) (\<lambda>msg. Inr (RegularReq msg)))"

section \<open>Page loads\<close>

text \<open>
  An event of the state agent with the storage behind the page: every \<^verbatim>\<open>Store\<close> among the effects is
  a call of \<^verbatim>\<open>KeyPair::store\<close>.
\<close>

record page =
  page_storage :: storage
  page_app :: "app option"

definition run_stores :: "key_codec \<Rightarrow> storage_io \<Rightarrow> client_effect list \<Rightarrow> storage \<Rightarrow> storage" where
  "run_stores codec io effs st =
     foldl (\<lambda>st e. case e of Store kp \<Rightarrow> snd (key_store codec io kp st) | _ \<Rightarrow> st) st effs"

definition storing :: "key_codec \<Rightarrow> storage_io \<Rightarrow> storage \<Rightarrow> browser \<Rightarrow> browser" where
  "storing codec io st br =
     br\<lparr>br_store := \<lambda>kp. case fst (key_store codec io kp st) of Inl err \<Rightarrow> Some err | Inr _ \<Rightarrow> None\<rparr>"

text \<open>
  What may happen to a page: it is loaded, with success or not; its state agent gets a request or a
  message; another entry of the storage changes. Failures, the answers of the browser and what a
  newly generated key is differ from step to step.
\<close>

inductive page_step :: "key_codec \<Rightarrow> page \<Rightarrow> page \<Rightarrow> bool" for codec where
  started: "main_js codec io cr pe br ord sub (page_storage p) = (Done (Inr (w, l)), st) \<Longrightarrow>
    page_step codec p \<lparr>page_storage = st, page_app = Some w\<rparr>"
| not_started: "main_js codec io cr pe br ord sub (page_storage p) = (r, st) \<Longrightarrow>
    \<forall>w l. r \<noteq> Done (Inr (w, l)) \<Longrightarrow> page_step codec p \<lparr>page_storage = st, page_app = None\<rparr>"
| requested: "page_app p = Some w \<Longrightarrow>
    state_handle_input (storing codec io (page_storage p) br) ord req sub w = (w', effs) \<Longrightarrow>
    page_step codec p \<lparr>page_storage = run_stores codec io effs (page_storage p), page_app = Some w'\<rparr>"
| updated: "page_app p = Some w \<Longrightarrow>
    state_update (storing codec io (page_storage p) br) ord_t ord m w = (w', effs) \<Longrightarrow>
    page_step codec p \<lparr>page_storage = run_stores codec io effs (page_storage p), page_app = Some w'\<rparr>"
| other_entry: "k \<noteq> KEY_PAIR_KEY \<Longrightarrow> page_step codec p (p\<lparr>page_storage := (page_storage p)(k := v)\<rparr>)"

text \<open>Reading back what was written gives the key pair.\<close>

definition key_codec_ok :: "key_codec \<Rightarrow> bool" where
  "key_codec_ok codec \<longleftrightarrow>
     (\<forall>kp b z t. kc_serialize codec kp = Inr b \<longrightarrow> kc_deflate codec b = Inr z \<longrightarrow>
        kc_base64 codec z = Inr t \<longrightarrow> kc_read codec t = Inr kp)"

text \<open>Who the user is: the keys, without the number the server knows them by.\<close>

definition identity :: "key_pair \<Rightarrow> u8 list \<times> u8 list" where
  "identity kp = (kp_private kp, kp_public kp)"

definition stored_key :: "key_codec \<Rightarrow> storage \<Rightarrow> key_pair option" where
  "stored_key codec st =
     (case st KEY_PAIR_KEY of
        Some s \<Rightarrow> (case kc_read codec (as_bytes s) of Inr kp \<Rightarrow> Some kp | Inl _ \<Rightarrow> None)
      | None \<Rightarrow> None)"

definition stored_identity :: "key_codec \<Rightarrow> storage \<Rightarrow> (u8 list \<times> u8 list) option" where
  "stored_identity codec st = map_option identity (stored_key codec st)"

lemma stored_identity_simps [simp]:
  "stored_key codec st = Some kp \<Longrightarrow> stored_identity codec st = Some (identity kp)"
  "stored_identity codec st = None \<longleftrightarrow> stored_key codec st = None"
  by (simp_all add: stored_identity_def)

text \<open>A store either fails and changes nothing or makes the pair the stored one.\<close>

lemma key_store_cases:
  assumes "key_codec_ok codec" "key_store codec io kp st = (r, st')"
  obtains err where "r = Inl err" "st' = st" | "r = Inr ()" "stored_key codec st' = Some kp"
proof (cases r)
  case (Inl err)
  with assms(2) have "st' = st" by (auto simp: key_store_def split: sum.splits option.splits)
  with Inl that(1) show ?thesis by blast
next
  case (Inr u)
  with assms(2) obtain b z t where "kc_serialize codec kp = Inr b" "kc_deflate codec b = Inr z"
    "kc_base64 codec z = Inr t" "st' = st(KEY_PAIR_KEY \<mapsto> from_bytes t)"
    by (auto simp: key_store_def rbind_eq_Inr from_utf8_def split: sum.splits option.splits if_splits)
  with assms(1) have "stored_key codec st' = Some kp" by (simp add: key_codec_ok_def stored_key_def)
  with Inr that(2) show ?thesis by simp
qed

lemma load_or_generate_stored:
  assumes "key_codec_ok codec" "load_or_generate codec io cr st = (r, st')"
  shows "(\<forall>kp. r = Inr kp \<longrightarrow> stored_key codec st' = Some kp) \<and> (stored_key codec st \<noteq> None \<longrightarrow> st' = st)"
proof (cases "key_load codec io st")
  case (Inl err)
  with assms(2) show ?thesis by (auto simp: load_or_generate_def)
next
  case (Inr loaded)
  show ?thesis
  proof (cases loaded)
    case (Some kp)
    with Inr assms(2) show ?thesis
      by (auto simp: load_or_generate_def key_load_def stored_key_def rbind_eq_Inr split: option.splits)
  next
    case None
    then have n: "stored_key codec st = None"
      using Inr by (auto simp: key_load_def stored_key_def rbind_eq_Inr split: option.splits)
    show ?thesis
    proof (cases "key_generate cr")
      case (Inl err)
      with Inr None assms(2) n show ?thesis by (auto simp: load_or_generate_def)
    next
      case g: (Inr kp)
      obtain r' st1 where s: "key_store codec io kp st = (r', st1)" by (metis surj_pair)
      from assms(1) s show ?thesis
        by (cases rule: key_store_cases)
          (use Inr None assms(2) n g s in \<open>auto simp: load_or_generate_def\<close>)
    qed
  qed
qed

text \<open>A started page has the stored key pair, and a load never replaces one.\<close>

lemma main_js_stored:
  assumes "key_codec_ok codec" "main_js codec io cr pe br ord sub st = (r, st')"
  shows "(\<forall>w l. r = Done (Inr (w, l)) \<longrightarrow> stored_key codec st' = Some (cs_key_pair (app_state w))) \<and>
    (stored_key codec st \<noteq> None \<longrightarrow> st' = st)"
proof -
  obtain q st1 where q: "load_or_generate codec io cr st = (q, st1)" by (metis surj_pair)
  have "st' = st1"
    using assms(2) q
    by (auto simp: main_js_def page_init_def split: sum.splits prod.splits if_splits option.splits run.splits)
  moreover have "q = Inr (cs_key_pair (app_state w))" if "r = Done (Inr (w, l))" for w l
    using assms(2) q that
    by (auto simp: main_js_def page_init_def state_init_def app_create_def state_handle_input_def
        fetch_feed_data_def app_start_def rbind_eq_Inr Let_def
        split: sum.splits prod.splits if_splits option.splits run.splits)
  ultimately show ?thesis using load_or_generate_stored [OF assms(1) q] by auto
qed

text \<open>Only \<^verbatim>\<open>SetKeyID\<close> touches the key pair, and it keeps the keys.\<close>

definition stores_nothing :: "client_effect list \<Rightarrow> bool" where
  "stores_nothing effs \<longleftrightarrow> (\<forall>kp. Store kp \<notin> set effs)"

lemma stores_nothing_simps [simp]:
  "stores_nothing []"
  "stores_nothing (xs @ ys) \<longleftrightarrow> stores_nothing xs \<and> stores_nothing ys"
  "stores_nothing (e # es) \<longleftrightarrow> (\<forall>kp. e \<noteq> Store kp) \<and> stores_nothing es"
  "stores_nothing (map Respond rs)"
  "stores_nothing (with_logging err)"
  "stores_nothing (trigger ord c a)"
  by (auto simp: stores_nothing_def with_logging_def trigger_def split: option.splits)

lemma run_stores_nothing: "stores_nothing effs \<Longrightarrow> run_stores codec io effs st = st"
  unfolding run_stores_def stores_nothing_def
  by (induction effs arbitrary: st) (auto split: client_effect.splits)

lemma key_pair_register [simp]: "cs_key_pair (register_post p s) = cs_key_pair s"
  by (simp add: register_post_def)

lemma key_pair_registers [simp]: "cs_key_pair (foldl (\<lambda>s p. register_post p s) s ps) = cs_key_pair s"
  by (induction ps arbitrary: s) simp_all

lemma key_pair_fetched [simp]:
  "cs_key_pair (fst (foldl insert_fetched_thread (s, cs) ts)) = cs_key_pair s"
  by (induction ts arbitrary: s cs) (simp_all add: insert_fetched_thread_eq)

lemma key_pair_fetched_one [simp]: "cs_key_pair (fst (insert_fetched_thread (s, cs) t)) = cs_key_pair s"
  using key_pair_fetched [of s cs "[t]"] by simp

lemma set_location_keys:
  "set_location br ord new flags w = (w', effs) \<Longrightarrow>
    cs_key_pair (app_state w') = cs_key_pair (app_state w) \<and> stores_nothing effs"
  by (auto simp: set_location_def fetch_feed_data_def Let_def split: if_splits option.splits)

lemma state_update_keys:
  "state_update br ord_t ord m w = (w', effs) \<Longrightarrow>
    cs_key_pair (app_state w') = cs_key_pair (app_state w) \<and> stores_nothing effs"
  by (cases m)
    (auto simp: process_successful_feed_fetch_def Let_def split_beta set_location_keys [OF surjective_pairing]
      dest: set_location_keys)

lemma state_handle_input_keys:
  assumes "state_handle_input br ord req sub w = (w', effs)"
  shows "cs_key_pair (app_state w') = cs_key_pair (app_state w) \<and> stores_nothing effs \<or>
    (\<exists>kid err. cs_key_pair (app_state w') = (cs_key_pair (app_state w))\<lparr>kp_id := kid\<rparr> \<and>
      effs = Store (cs_key_pair (app_state w')) # with_logging err)"
  using assms
  by (cases req)
    (auto simp: state_handle_input_def fetch_feed_data_def insert_thread_notice_def Let_def
      dest: set_location_keys)

text \<open>A running page has the identity that is stored; a stored identity stays.\<close>

definition page_ok :: "key_codec \<Rightarrow> page \<Rightarrow> bool" where
  "page_ok codec p \<longleftrightarrow>
     (\<forall>w. page_app p = Some w \<longrightarrow>
        stored_identity codec (page_storage p) = Some (identity (cs_key_pair (app_state w))))"

lemma run_stores_one: "run_stores codec io (Store kp # with_logging err) st = snd (key_store codec io kp st)"
  by (simp add: run_stores_def with_logging_def split: option.split)

lemma page_step_keeps:
  assumes "key_codec_ok codec" "page_step codec p p'" "page_ok codec p"
  shows "page_ok codec p' \<and>
    (\<forall>i. stored_identity codec (page_storage p) = Some i \<longrightarrow>
         stored_identity codec (page_storage p') = Some i)"
  using assms(2)
proof (cases rule: page_step.cases)
  case (started io cr pe br ord sub w l st)
  with main_js_stored [OF assms(1) started(2)] show ?thesis
    by (auto simp: page_ok_def stored_identity_def)
next
  case (not_started io cr pe br ord sub r st)
  with main_js_stored [OF assms(1) not_started(2)] show ?thesis
    by (auto simp: page_ok_def stored_identity_def)
next
  case (requested w io br ord req sub w' effs)
  have i: "stored_identity codec (page_storage p) = Some (identity (cs_key_pair (app_state w)))"
    using assms(3) requested(2) by (simp add: page_ok_def)
  from state_handle_input_keys [OF requested(3)] show ?thesis
  proof
    assume "cs_key_pair (app_state w') = cs_key_pair (app_state w) \<and> stores_nothing effs"
    with i requested(1) show ?thesis by (simp add: page_ok_def run_stores_nothing)
  next
    assume "\<exists>kid err. cs_key_pair (app_state w') = (cs_key_pair (app_state w))\<lparr>kp_id := kid\<rparr> \<and>
      effs = Store (cs_key_pair (app_state w')) # with_logging err"
    then obtain kid err where k: "cs_key_pair (app_state w') = (cs_key_pair (app_state w))\<lparr>kp_id := kid\<rparr>"
      and e: "effs = Store (cs_key_pair (app_state w')) # with_logging err" by blast
    have same: "identity (cs_key_pair (app_state w')) = identity (cs_key_pair (app_state w))"
      by (simp add: k identity_def)
    obtain r st where s: "key_store codec io (cs_key_pair (app_state w')) (page_storage p) = (r, st)"
      by (metis surj_pair)
    from assms(1) s have "stored_identity codec st = Some (identity (cs_key_pair (app_state w)))"
      by (cases rule: key_store_cases) (simp_all add: i same)
    with requested(1) s i show ?thesis by (simp add: page_ok_def e run_stores_one same)
  qed
next
  case (updated w io br ord_t ord m w' effs)
  with state_update_keys [OF updated(3)] assms(3) show ?thesis
    by (simp add: page_ok_def run_stores_nothing)
next
  case (other_entry k v)
  with assms(3) show ?thesis by (simp add: page_ok_def stored_identity_def stored_key_def)
qed

lemma page_steps_keep:
  assumes "key_codec_ok codec" "(page_step codec)\<^sup>*\<^sup>* p p'" "page_ok codec p"
  shows "page_ok codec p' \<and>
    (\<forall>i. stored_identity codec (page_storage p) = Some i \<longrightarrow>
         stored_identity codec (page_storage p') = Some i)"
  using assms(2,3)
proof (induction rule: rtranclp_induct)
  case (step q r)
  from step.IH [OF step.prems] page_step_keeps [OF assms(1) step.hyps(2)] show ?case by blast
qed simp

text \<open>
  C34: a user keeps their identity. Once the page has started, every page that runs later, after any
  number of reloads, failed or not, navigation, registrations of the key with the server and
  failing writes to local storage, has the same private and public key, as long as nothing else
  overwrites the entry of the key pair and the pair that is read back is the one that was written.
\<close>

theorem identity_survives_reloads:
  assumes "key_codec_ok codec"
    and "(page_step codec)\<^sup>*\<^sup>* \<lparr>page_storage = st, page_app = None\<rparr> p" "page_app p = Some w"
    and "(page_step codec)\<^sup>*\<^sup>* p p'" "page_app p' = Some w'"
  shows "identity (cs_key_pair (app_state w')) = identity (cs_key_pair (app_state w))"
proof -
  have "page_ok codec p"
    using page_steps_keep [OF assms(1,2)] by (simp add: page_ok_def)
  with page_steps_keep [OF assms(1,4)] assms(3,5) show ?thesis by (auto simp: page_ok_def)
qed

definition demo_key :: key_pair where
  "demo_key = \<lparr>kp_private = [1], kp_public = [2], kp_id = None\<rparr>"

definition demo_codec :: key_codec where
  "demo_codec =
     \<lparr>kc_serialize = (\<lambda>kp. if kp = demo_key then Inr [65] else Inl ''unsupported''),
      kc_deflate = Inr, kc_base64 = Inr, kc_utf8_error = (\<lambda>_. ''invalid utf-8''),
      kc_read = (\<lambda>bs. if bs = [65] then Inr demo_key else Inl ''unexpected end of file'')\<rparr>"

definition demo_io :: storage_io where
  "demo_io = \<lparr>get_error = (\<lambda>_. None), set_error = None\<rparr>"

definition demo_crypto :: crypto where
  "demo_crypto =
     \<lparr>crypto_error = None,
      generate_key = (\<lambda>_ _ _. Inr (\<lambda>prop. Inr (if prop = ''privateKey'' then 1 else 2))),
      export_key = (\<lambda>_ k. Inr [of_nat k]), import_key = (\<lambda>_ _ _ _ _. Inr 1),
      sign_with_key = (\<lambda>_ _ _. Inr (replicate 512 0))\<rparr>"

definition demo_page_env :: page_env where
  "demo_page_env =
     \<lparr>pe_pathname = None, pe_hash = None, pe_options = (\<lambda>_. None), pe_scroll_error = None,
      pe_configs = Inr configs_default, pe_window = (\<lambda>_. Inr (JsPromise (Inr (JsText ''{}'')))),
      pe_cast_error = (\<lambda>_. ''JsValue''), pe_parse_pack = (\<lambda>_. Inr language_pack_default)\<rparr>"

text \<open>The first load generates and stores a key, the second one finds it.\<close>

lemmas demo_page_defs =
  main_js_def page_init_def load_or_generate_def key_load_def key_store_def key_generate_def
  subtle_crypto_def export_vec_def from_utf8_def demo_codec_def demo_io_def demo_crypto_def
  demo_key_def demo_page_env_def load_language_pack_def state_init_def Let_def rbind_def

lemma demo_start:
  "\<exists>w l. main_js demo_codec demo_io demo_crypto demo_page_env demo_browser sorted_list_of_set 0 Map.empty =
     (Done (Inr (w, l)), [KEY_PAIR_KEY \<mapsto> from_bytes [65]])"
  "\<exists>w l. main_js demo_codec demo_io demo_crypto demo_page_env demo_browser sorted_list_of_set 0
     [KEY_PAIR_KEY \<mapsto> from_bytes [65]] = (Done (Inr (w, l)), [KEY_PAIR_KEY \<mapsto> from_bytes [65]])"
  by (simp_all add: demo_page_defs KEY_PAIR_KEY_def OPTIONS_KEY_def)

theorem identity_survives_reloads_witness:
  "\<exists>p p' w w'. (page_step demo_codec)\<^sup>*\<^sup>* \<lparr>page_storage = Map.empty, page_app = None\<rparr> p \<and> page_app p = Some w \<and>
     page_step demo_codec p p' \<and> page_app p' = Some w' \<and>
     identity (cs_key_pair (app_state w')) = identity (cs_key_pair (app_state w))"
proof -
  let ?st = "[KEY_PAIR_KEY \<mapsto> from_bytes [65]] :: storage"
  obtain w l where a: "main_js demo_codec demo_io demo_crypto demo_page_env demo_browser sorted_list_of_set 0
      Map.empty = (Done (Inr (w, l)), ?st)" using demo_start(1) by blast
  obtain w' l' where b: "main_js demo_codec demo_io demo_crypto demo_page_env demo_browser sorted_list_of_set 0
      ?st = (Done (Inr (w', l')), ?st)" using demo_start(2) by blast
  let ?p = "\<lparr>page_storage = ?st, page_app = Some w\<rparr>" and ?p' = "\<lparr>page_storage = ?st, page_app = Some w'\<rparr>"
  have s: "(page_step demo_codec)\<^sup>*\<^sup>* \<lparr>page_storage = Map.empty, page_app = None\<rparr> ?p" "page_step demo_codec ?p ?p'"
    using a b by (auto intro!: r_into_rtranclp page_step.started)
  have "key_codec_ok demo_codec" by (simp add: key_codec_ok_def demo_codec_def)
  from identity_survives_reloads [OF this s(1) _ r_into_rtranclp [of "page_step demo_codec", OF s(2)], of w w']
  have "identity (cs_key_pair (app_state w')) = identity (cs_key_pair (app_state w))" by simp
  with s show ?thesis by fastforce
qed

section \<open>Signatures\<close>

text \<open>
  A signature fits the 512 bytes of the payload, and if it does not the handshake is not sent: the
  agent signs through \<^verbatim>\<open>KeyPair::sign\<close>.
\<close>

lemma handshake_signature_length:
  assumes "ce_sign env = key_sign cr" "handshake_auth env kp nonce = Inr (Saved kid n sig)"
  shows "length sig = 512"
  using assms
  by (auto simp: handshake_auth_def key_sign_def rbind_eq_Inr split: option.splits if_splits)

end
